(* ===== verification/Prelude.thy ===== *)
theory Prelude
  imports Main "HOL-Library.Word" "HOL-Library.Monad_Syntax"
begin

unbundle bit_operations_syntax

text \<open>
  The vocabulary every component theory shares.

  \<^item> The machine integers of the Rust sources as words of their width (\<open>usize\<close> is 64 bits on
    the only target, \<^verbatim>\<open>x86_64-unknown-none\<close>).
  \<^item> A computation that can panic is an \<open>option\<close>, \<open>None\<close> being the panic: the kernel has one
    panic handler, which prints a line and halts, so the reason of a panic is not a value the
    program can observe. State is passed explicitly; \<open>do\<close> blocks are the option monad's.
  \<^item> Integer overflow depends on the build: \<^verbatim>\<open>run_test.sh\<close> builds the dev profile, where an
    overflow panics, and \<^verbatim>\<open>deploy.sh\<close> the release profile, where it wraps. The operations that
    can overflow take the profile.
  \<^item> Byte strings are lists of bytes; \<open>bslice\<close>, \<open>splice\<close> and \<open>position\<close> are the slicing, the
    copy into a slice and the search that the sources use.
\<close>

type_synonym u8 = "8 word"
type_synonym u16 = "16 word"
type_synonym u32 = "32 word"
type_synonym u64 = "64 word"
type_synonym usize = "64 word"
type_synonym bytes = "8 word list"

named_theorems slice_simps \<open>reading a slice after a write to a slice\<close>
named_theorems mem_simps \<open>reading physical memory after a write to it\<close>

section \<open>Overflow\<close>

datatype profile = Dev | Release

definition add_ovf :: "profile \<Rightarrow> 'a::len word \<Rightarrow> 'a word \<Rightarrow> 'a word option" where
  "add_ovf p a b =
     (if unat a + unat b < 2 ^ LENGTH('a) then Some (a + b)
      else case p of Dev \<Rightarrow> None | Release \<Rightarrow> Some (a + b))"

definition mul_ovf :: "profile \<Rightarrow> 'a::len word \<Rightarrow> 'a word \<Rightarrow> 'a word option" where
  "mul_ovf p a b =
     (if unat a * unat b < 2 ^ LENGTH('a) then Some (a * b)
      else case p of Dev \<Rightarrow> None | Release \<Rightarrow> Some (a * b))"

lemma add_ovf_Release [simp]: "add_ovf Release a b = Some (a + b)"
  by (simp add: add_ovf_def)

lemma add_ovf_exact:
  fixes a b :: "'a::len word"
  assumes "unat a + unat b < 2 ^ LENGTH('a)"
  shows "add_ovf p a b = Some (a + b)" and "unat (a + b) = unat a + unat b"
  using assms by (simp_all add: add_ovf_def unat_word_ariths)

lemma add_ovf_Dev_iff:
  "add_ovf Dev a b = None \<longleftrightarrow> 2 ^ LENGTH('a) \<le> unat a + unat b"
  for a b :: "'a::len word"
  by (auto simp: add_ovf_def)

section \<open>Casts up and back\<close>

lemma ucast_back [simp]:
  "ucast (ucast (b :: u8) :: u16) = b" "ucast (ucast b :: u32) = b" "ucast (ucast b :: u64) = b"
  "ucast (ucast (w :: u16) :: u32) = w" "ucast (ucast w :: u64) = w"
  "ucast (ucast (d :: u32) :: u64) = d"
  by (simp_all add: ucast_up_ucast_id is_up)

section \<open>Bit masks on naturals\<close>

lemma nat_and_mask: "(n::nat) AND (2 ^ k - 1) = n mod 2 ^ k"
  using take_bit_eq_mask [of k n] take_bit_eq_mod [of k n] by (simp add: mask_eq_exp_minus_1)

lemma nat_and_15: "(n::nat) AND 15 = n mod 16"
  using nat_and_mask [of n 4] by simp

section \<open>Loops that can panic\<close>

text \<open>\<open>for x in xs { acc = f(x, acc) }\<close> where the body may panic.\<close>

fun foldM :: "('b \<Rightarrow> 'a \<Rightarrow> 'a option) \<Rightarrow> 'b list \<Rightarrow> 'a \<Rightarrow> 'a option" where
  "foldM f [] a = Some a"
| "foldM f (x # xs) a = Option.bind (f x a) (foldM f xs)"

lemma foldM_append: "foldM f (xs @ ys) a = Option.bind (foldM f xs a) (foldM f ys)"
  by (induction xs arbitrary: a) (auto split: Option.bind_splits)

text \<open>The last hit of a loop that overwrites its result on every hit.\<close>

lemma fold_last_cong:
  assumes "\<And>i. i \<in> set xs \<Longrightarrow> P i \<longleftrightarrow> Q i" and "\<And>i. i \<in> set xs \<Longrightarrow> P i \<Longrightarrow> f i = g i"
  shows "fold (\<lambda>i b. if P i then Some (f i) else b) xs b = fold (\<lambda>i b. if Q i then Some (g i) else b) xs b"
  using assms by (induction xs arbitrary: b) auto

lemma fold_last_None: "\<forall>i\<in>set xs. \<not> P i \<Longrightarrow> fold (\<lambda>i b. if P i then Some (f i) else b) xs b = b"
  by (induction xs arbitrary: b) auto

lemma fold_last_Some:
  "fold (\<lambda>i b. if P i then Some (f i) else b) xs None = Some y \<Longrightarrow> \<exists>i\<in>set xs. P i \<and> f i = y"
proof (induction xs rule: rev_induct)
  case (snoc x xs)
  then show ?case by (auto split: if_splits)
qed simp

lemma fold_last_hit:
  "k \<in> set xs \<Longrightarrow> P k \<Longrightarrow> fold (\<lambda>i b. if P i then Some (f i) else b) xs b \<noteq> None"
proof (induction xs rule: rev_induct)
  case (snoc x xs)
  then show ?case by auto
qed simp

lemma fold_last_single:
  assumes k: "k \<in> set xs" "P k" and only: "\<And>i. i \<in> set xs \<Longrightarrow> P i \<Longrightarrow> i = k"
  shows "fold (\<lambda>i b. if P i then Some (f i) else b) xs None = Some (f k)"
proof -
  obtain y where y: "fold (\<lambda>i b. if P i then Some (f i) else b) xs None = Some y"
    using fold_last_hit [of k xs P f None] k by blast
  then obtain i where "i \<in> set xs" "P i" "f i = y" using fold_last_Some [of P f xs y] by blast
  then show ?thesis using only [of i] y by simp
qed

section \<open>Slices of lists\<close>

definition bslice :: "nat \<Rightarrow> nat \<Rightarrow> 'a list \<Rightarrow> 'a list" where
  "bslice off n xs = take n (drop off xs)"

definition splice_at :: "nat \<Rightarrow> 'a list \<Rightarrow> 'a list \<Rightarrow> 'a list" where
  "splice_at off ys xs = take off xs @ ys @ drop (off + length ys) xs"

lemma length_slice [simp]: "off + n \<le> length xs \<Longrightarrow> length (bslice off n xs) = n"
  by (simp add: bslice_def)

lemma slice_all [simp]: "length xs = n \<Longrightarrow> bslice 0 n xs = xs"
  by (simp add: bslice_def)

lemma nth_slice: "i < n \<Longrightarrow> off + n \<le> length xs \<Longrightarrow> bslice off n xs ! i = xs ! (off + i)"
  by (simp add: bslice_def)

lemma slice_slice [slice_simps]:
  "b + m \<le> n \<Longrightarrow> bslice b m (bslice a n xs) = bslice (a + b) m xs"
  by (simp add: bslice_def drop_take add.commute min_def)

lemma length_splice_at [simp]:
  "off + length ys \<le> length xs \<Longrightarrow> length (splice_at off ys xs) = length xs"
  by (simp add: splice_at_def)

lemma nth_splice_at:
  assumes "off + length ys \<le> length xs" and "i < length xs"
  shows "splice_at off ys xs ! i =
    (if off \<le> i \<and> i < off + length ys then ys ! (i - off) else xs ! i)"
  using assms by (auto simp: splice_at_def nth_append min_def)

lemma slice_eqI:
  assumes "off + n \<le> length xs" and "off' + n \<le> length ys"
    and "\<And>i. i < n \<Longrightarrow> xs ! (off + i) = ys ! (off' + i)"
  shows "bslice off n xs = bslice off' n ys"
  using assms by (intro nth_equalityI) (simp_all add: nth_slice)

lemma slice_splice_same [slice_simps]:
  "off + length ys \<le> length xs \<Longrightarrow> n = length ys \<Longrightarrow> bslice off n (splice_at off ys xs) = ys"
  by (simp add: bslice_def splice_at_def)

lemma slice_splice_inside [slice_simps]:
  "off + length ys \<le> length xs \<Longrightarrow> off \<le> a \<Longrightarrow> a + n \<le> off + length ys \<Longrightarrow>
   bslice a n (splice_at off ys xs) = bslice (a - off) n ys"
  by (intro slice_eqI) (auto simp: nth_splice_at)

lemma slice_splice_disjoint [slice_simps]:
  "off + length ys \<le> length xs \<Longrightarrow> a + n \<le> length xs \<Longrightarrow> a + n \<le> off \<or> off + length ys \<le> a \<Longrightarrow>
   bslice a n (splice_at off ys xs) = bslice a n xs"
  by (intro slice_eqI) (auto simp: nth_splice_at)

lemma slice_append_left [slice_simps]:
  "a + n \<le> length xs \<Longrightarrow> bslice a n (xs @ ys) = bslice a n xs"
  by (simp add: bslice_def)

lemma slice_append_right [slice_simps]:
  "length xs \<le> a \<Longrightarrow> bslice a n (xs @ ys) = bslice (a - length xs) n ys"
  by (simp add: bslice_def)

lemma slice_Cons [slice_simps]: "0 < a \<Longrightarrow> bslice a n (x # xs) = bslice (a - 1) n xs"
  by (cases a) (simp_all add: bslice_def)

section \<open>Searching a byte string\<close>

text \<open>
  \<open>iter().position(p)\<close>: the index of the first element that satisfies \<open>p\<close>; and
  \<open>windows(n).position(|w| w == pat)\<close>: the index of the first occurrence of \<open>pat\<close>.
\<close>

fun position :: "('a \<Rightarrow> bool) \<Rightarrow> 'a list \<Rightarrow> nat option" where
  "position P [] = None"
| "position P (x # xs) = (if P x then Some 0 else map_option Suc (position P xs))"

fun window_position :: "'a list \<Rightarrow> 'a list \<Rightarrow> nat option" where
  "window_position pat [] = None"
| "window_position pat (x # xs) =
     (if length pat \<le> length (x # xs) \<and> take (length pat) (x # xs) = pat then Some 0
      else map_option Suc (window_position pat xs))"

lemma position_None [simp]: "position P xs = None \<longleftrightarrow> (\<forall>x\<in>set xs. \<not> P x)"
  by (induction xs) auto

lemma position_Some:
  "position P xs = Some i \<longleftrightarrow> i < length xs \<and> P (xs ! i) \<and> (\<forall>j<i. \<not> P (xs ! j))"
proof (induction xs arbitrary: i)
  case (Cons x xs)
  then show ?case
    by (cases i) (auto simp: less_Suc_eq_0_disj All_less_Suc2)
qed simp

lemma position_append_hit:
  "\<forall>x\<in>set xs. \<not> P x \<Longrightarrow> P y \<Longrightarrow> position P (xs @ y # ys) = Some (length xs)"
  by (induction xs) auto

lemma window_position_Some:
  assumes "pat \<noteq> []"
  shows "window_position pat xs = Some i \<longleftrightarrow>
    i + length pat \<le> length xs \<and> bslice i (length pat) xs = pat
    \<and> (\<forall>j<i. bslice j (length pat) xs \<noteq> pat)"
proof (induction xs arbitrary: i)
  case Nil
  then show ?case using assms by simp
next
  case (Cons x xs)
  have hd: "length pat \<le> length (x # xs)" if "take (length pat) (x # xs) = pat"
    using that by (metis length_take min.absorb_iff2 nle_le)
  show ?case
    using Cons.IH assms hd
    by (cases i) (auto simp: bslice_def less_Suc_eq_0_disj All_less_Suc2)
qed

lemma window_position_None:
  assumes "pat \<noteq> []"
  shows "window_position pat xs = None \<longleftrightarrow>
    (\<forall>i. i + length pat \<le> length xs \<longrightarrow> bslice i (length pat) xs \<noteq> pat)"
proof (induction xs)
  case Nil
  then show ?case using assms by simp
next
  case (Cons x xs)
  show ?case (is "?l \<longleftrightarrow> ?r")
  proof
    assume ?l
    then show ?r using Cons.IH
      by (auto simp: bslice_def split: if_splits) (metis drop_Cons' add_Suc add_le_imp_le_diff diff_Suc_1 drop0 not0_implies_Suc Suc_le_mono)
  next
    assume r: ?r
    have "i + length pat \<le> length xs \<Longrightarrow> bslice i (length pat) xs \<noteq> pat" for i
      using r [rule_format, of "Suc i"] by (simp add: bslice_def)
    moreover have "length pat \<le> length (x # xs) \<Longrightarrow> take (length pat) (x # xs) \<noteq> pat"
      using r [rule_format, of 0] by (simp add: bslice_def)
    ultimately show ?l using Cons.IH by auto
  qed
qed

lemma window_position_bound:
  "pat \<noteq> [] \<Longrightarrow> window_position pat xs = Some i \<Longrightarrow> i + length pat \<le> length xs"
  by (simp add: window_position_Some)

end
