(* ===== verification/Bytes.thy ===== *)
theory Bytes
  imports Prelude
begin

text \<open>
  Bytes on the wire, on the disk and in memory.

  \<^item> Little- and big-endian coding of fixed-width integers (\<open>to_le_bytes\<close>, \<open>from_le_bytes\<close>,
    \<open>from_be_bytes\<close> and the unaligned or volatile integer accesses of the drivers). The locale
    \<open>codec\<close> is the contract the components rely on: what is decoded after an encoding is
    written, inside a byte string or inside memory.
  \<^item> Physical memory as a function from addresses to bytes, with block reads and writes.
  \<^item> UTF-8 validity as \<open>core::str::from_utf8\<close> decides it, since a Rust string slice is a byte
    string that passes it.
\<close>

section \<open>Integers as bytes\<close>

fun nat_le :: "nat \<Rightarrow> nat \<Rightarrow> bytes" where
  "nat_le 0 x = []"
| "nat_le (Suc n) x = of_nat x # nat_le n (x div 256)"

fun le_nat :: "bytes \<Rightarrow> nat" where
  "le_nat [] = 0"
| "le_nat (b # bs) = unat b + 256 * le_nat bs"

lemma length_nat_le [simp]: "length (nat_le n x) = n"
  by (induction n arbitrary: x) auto

lemma unat_u8_less: "unat (b :: u8) < 256"
  using unsigned_less [of b] by simp

lemma le_nat_less: "le_nat bs < 256 ^ length bs"
proof (induction bs)
  case (Cons b bs)
  have "unat b < 256" by (rule unat_u8_less)
  moreover from Cons have "256 * Suc (le_nat bs) \<le> 256 * 256 ^ length bs"
    by (intro mult_le_mono2) simp
  ultimately show ?case by simp
qed simp

lemma le_nat_nat_le: "le_nat (nat_le n x) = x mod 256 ^ n"
proof (induction n arbitrary: x)
  case (Suc n)
  have "x mod 256 + 256 * (x div 256 mod 256 ^ n) = x mod (256 * 256 ^ n)"
    by (simp add: mod_mult2_eq)
  with Suc show ?case by (simp add: unat_of_nat)
qed simp

lemma nat_le_le_nat: "length bs = n \<Longrightarrow> nat_le n (le_nat bs) = bs"
proof (induction bs arbitrary: n)
  case (Cons b bs)
  have "(of_nat (unat b + 256 * le_nat bs) :: u8) = b + of_nat 256 * of_nat (le_nat bs)"
    by simp
  also have "(of_nat 256 :: u8) = 0" by simp
  finally have "of_nat (unat b + 256 * le_nat bs) = b" by simp
  moreover have "(unat b + 256 * le_nat bs) div 256 = le_nat bs"
    using unat_u8_less [of b] by simp
  ultimately show ?case using Cons by auto
qed simp

definition to_le16 :: "u16 \<Rightarrow> bytes" where "to_le16 w = nat_le 2 (unat w)"
definition to_le32 :: "u32 \<Rightarrow> bytes" where "to_le32 w = nat_le 4 (unat w)"
definition to_le64 :: "u64 \<Rightarrow> bytes" where "to_le64 w = nat_le 8 (unat w)"
definition from_le16 :: "bytes \<Rightarrow> u16" where "from_le16 bs = of_nat (le_nat bs)"
definition from_le32 :: "bytes \<Rightarrow> u32" where "from_le32 bs = of_nat (le_nat bs)"
definition from_le64 :: "bytes \<Rightarrow> u64" where "from_le64 bs = of_nat (le_nat bs)"
definition to_be16 :: "u16 \<Rightarrow> bytes" where "to_be16 w = rev (nat_le 2 (unat w))"
definition to_be32 :: "u32 \<Rightarrow> bytes" where "to_be32 w = rev (nat_le 4 (unat w))"
definition from_be16 :: "bytes \<Rightarrow> u16" where "from_be16 bs = of_nat (le_nat (rev bs))"
definition from_be32 :: "bytes \<Rightarrow> u32" where "from_be32 bs = of_nat (le_nat (rev bs))"

section \<open>Physical memory\<close>

type_synonym ram = "nat \<Rightarrow> 8 word"

definition mem_read :: "ram \<Rightarrow> nat \<Rightarrow> nat \<Rightarrow> bytes" where
  "mem_read m a n = map m [a..<a + n]"

definition mem_write :: "ram \<Rightarrow> nat \<Rightarrow> bytes \<Rightarrow> ram" where
  "mem_write m a bs = (\<lambda>x. if a \<le> x \<and> x < a + length bs then bs ! (x - a) else m x)"

lemma length_mem_read [simp]: "length (mem_read m a n) = n"
  by (simp add: mem_read_def)

lemma nth_mem_read [simp]: "i < n \<Longrightarrow> mem_read m a n ! i = m (a + i)"
  by (simp add: mem_read_def)

lemma mem_read_0 [simp]: "mem_read m a 0 = []"
  by (simp add: mem_read_def)

lemma mem_write_Nil [simp]: "mem_write m a [] = m"
  by (auto simp: mem_write_def fun_eq_iff)

lemma mem_read_write_same [mem_simps]:
  "n = length bs \<Longrightarrow> mem_read (mem_write m a bs) a n = bs"
  by (intro nth_equalityI) (simp_all add: mem_write_def)

lemma mem_read_write_disjoint [mem_simps]:
  "a + n \<le> b \<or> b + length bs \<le> a \<Longrightarrow> mem_read (mem_write m b bs) a n = mem_read m a n"
  by (intro nth_equalityI) (auto simp add: mem_write_def)

lemma mem_read_write_inside [mem_simps]:
  "b \<le> a \<Longrightarrow> a + n \<le> b + length bs \<Longrightarrow> mem_read (mem_write m b bs) a n = bslice (a - b) n bs"
  by (intro nth_equalityI) (simp_all add: mem_write_def nth_slice)

lemma mem_write_outside: "x < a \<or> a + length bs \<le> x \<Longrightarrow> mem_write m a bs x = m x"
  by (auto simp: mem_write_def)

lemma mem_read_bslice: "off + n \<le> k \<Longrightarrow> bslice off n (mem_read m a k) = mem_read m (a + off) n"
  by (intro nth_equalityI) (simp_all add: nth_slice add.assoc)

lemma mem_read_append: "mem_read m a (n + k) = mem_read m a n @ mem_read m (a + n) k"
  by (intro nth_equalityI) (auto simp: nth_append)

lemma mem_read_cong: "(\<And>x. a \<le> x \<Longrightarrow> x < a + n \<Longrightarrow> m x = m' x) \<Longrightarrow> mem_read m a n = mem_read m' a n"
  by (intro nth_equalityI) simp_all

section \<open>The codec contract\<close>

text \<open>
  A fixed-width coding of values as bytes. Its clients write an encoded value into a header, a
  directory entry or a descriptor and read it back, through a byte string or through memory; the
  lemmas say the value comes back whatever is written elsewhere.
\<close>

locale codec =
  fixes enc :: "'a \<Rightarrow> bytes" and dec :: "bytes \<Rightarrow> 'a" and width :: nat
  assumes dec_enc: "dec (enc x) = x"
    and length_enc: "length (enc x) = width"
    and enc_dec: "length bs = width \<Longrightarrow> enc (dec bs) = bs"
begin

lemma field_same:
  "off + width \<le> length xs \<Longrightarrow> dec (bslice off width (splice_at off (enc x) xs)) = x"
  by (simp add: slice_simps length_enc dec_enc)

lemma field_other:
  "off + width \<le> length xs \<Longrightarrow> a + n \<le> length xs \<Longrightarrow> a + n \<le> off \<or> off + width \<le> a \<Longrightarrow>
   bslice a n (splice_at off (enc x) xs) = bslice a n xs"
  by (simp add: slice_simps length_enc)

lemma cell_same: "dec (mem_read (mem_write m a (enc x)) a width) = x"
  by (simp add: mem_simps length_enc dec_enc)

lemma cell_other:
  "a + n \<le> b \<or> b + width \<le> a \<Longrightarrow> mem_read (mem_write m b (enc x)) a n = mem_read m a n"
  by (simp add: mem_simps length_enc)

lemma enc_inj: "enc x = enc y \<longleftrightarrow> x = y"
  by (metis dec_enc)

lemma dec_inj: "length bs = width \<Longrightarrow> length cs = width \<Longrightarrow> dec bs = dec cs \<longleftrightarrow> bs = cs"
  by (metis enc_dec)

end

lemma nat_le_of_le_nat: "length bs = n \<Longrightarrow> nat_le n (le_nat bs mod 256 ^ n) = bs"
  using le_nat_less [of bs] by (simp add: nat_le_le_nat)

lemma unat_mod_width:
  fixes w16 :: u16 and w32 :: u32 and w64 :: u64
  shows "unat w16 mod 65536 = unat w16" and "unat w32 mod 4294967296 = unat w32"
    and "unat w64 mod 18446744073709551616 = unat w64"
  using unsigned_less [of w16, where ?'a = nat] unsigned_less [of w32, where ?'a = nat]
    unsigned_less [of w64, where ?'a = nat] by simp_all

lemmas codec_simps =
  to_le16_def to_le32_def to_le64_def from_le16_def from_le32_def from_le64_def
  to_be16_def to_be32_def from_be16_def from_be32_def
  le_nat_nat_le unat_mod_width unat_of_nat

interpretation le16: codec to_le16 from_le16 2
  by unfold_locales (use nat_le_of_le_nat [where n = 2] in \<open>simp_all add: codec_simps\<close>)

interpretation le32: codec to_le32 from_le32 4
  by unfold_locales (use nat_le_of_le_nat [where n = 4] in \<open>simp_all add: codec_simps\<close>)

interpretation le64: codec to_le64 from_le64 8
  by unfold_locales (use nat_le_of_le_nat [where n = 8] in \<open>simp_all add: codec_simps\<close>)

interpretation be16: codec to_be16 from_be16 2
  by unfold_locales
     (use nat_le_of_le_nat [where n = 2 and bs = "rev bs" for bs] in \<open>simp_all add: codec_simps\<close>)

interpretation be32: codec to_be32 from_be32 4
  by unfold_locales
     (use nat_le_of_le_nat [where n = 4 and bs = "rev bs" for bs] in \<open>simp_all add: codec_simps\<close>)

lemmas codec_lengths [simp] =
  le16.length_enc le32.length_enc le64.length_enc be16.length_enc be32.length_enc

lemmas codec_roundtrips [simp] =
  le16.dec_enc le32.dec_enc le64.dec_enc be16.dec_enc be32.dec_enc

section \<open>UTF-8\<close>

text \<open>
  \<open>core::str::from_utf8\<close> accepts exactly the well-formed byte sequences of the Unicode standard:
  no overlong forms, no surrogates, nothing above U+10FFFF.
\<close>

definition is_cont :: "u8 \<Rightarrow> bool" where
  "is_cont b \<longleftrightarrow> 0x80 \<le> b \<and> b \<le> 0xBF"

definition lead2 :: "u8 \<Rightarrow> bool" where "lead2 b \<longleftrightarrow> 0xC2 \<le> b \<and> b \<le> 0xDF"
definition lead3 :: "u8 \<Rightarrow> bool" where "lead3 b \<longleftrightarrow> 0xE0 \<le> b \<and> b \<le> 0xEF"
definition lead4 :: "u8 \<Rightarrow> bool" where "lead4 b \<longleftrightarrow> 0xF0 \<le> b \<and> b \<le> 0xF4"

definition second3 :: "u8 \<Rightarrow> u8 \<Rightarrow> bool" where
  "second3 b c =
     (if b = 0xE0 then 0xA0 \<le> c \<and> c \<le> 0xBF
      else if b = 0xED then 0x80 \<le> c \<and> c \<le> 0x9F
      else is_cont c)"

definition second4 :: "u8 \<Rightarrow> u8 \<Rightarrow> bool" where
  "second4 b c =
     (if b = 0xF0 then 0x90 \<le> c \<and> c \<le> 0xBF
      else if b = 0xF4 then 0x80 \<le> c \<and> c \<le> 0x8F
      else is_cont c)"

fun utf8_valid :: "bytes \<Rightarrow> bool" where
  "utf8_valid [] = True"
| "utf8_valid (b # bs) =
     (if b < 0x80 then utf8_valid bs
      else if lead2 b then
        (case bs of c # r \<Rightarrow> is_cont c \<and> utf8_valid r | _ \<Rightarrow> False)
      else if lead3 b then
        (case bs of c # d # r \<Rightarrow> second3 b c \<and> is_cont d \<and> utf8_valid r | _ \<Rightarrow> False)
      else if lead4 b then
        (case bs of
           c # d # e # r \<Rightarrow> second4 b c \<and> is_cont d \<and> is_cont e \<and> utf8_valid r
         | _ \<Rightarrow> False)
      else False)"

declare utf8_valid.simps(2) [simp del]

text \<open>The bytes of a string literal; every literal of the sources is ASCII.\<close>

definition str :: "string \<Rightarrow> bytes" where
  "str s = map of_char s"

lemma str_Nil [simp]: "str [] = []" by (simp add: str_def)

lemma str_Cons: "str (c # s) = of_char c # str s" by (simp add: str_def)

lemma length_str [simp]: "length (str s) = length s" by (simp add: str_def)

lemma utf8_valid_ascii: "\<forall>b\<in>set bs. b < 0x80 \<Longrightarrow> utf8_valid bs"
  by (induction bs) (simp_all add: utf8_valid.simps(2))

lemma utf8_valid_append: "utf8_valid xs \<Longrightarrow> utf8_valid (xs @ ys) = utf8_valid ys"
proof (induction xs rule: utf8_valid.induct)
  case 1
  then show ?case by simp
next
  case (2 b bs)
  note unfold = utf8_valid.simps(2) [of b]
  consider "b < 0x80" | "\<not> b < 0x80" "lead2 b" | "\<not> b < 0x80" "\<not> lead2 b" "lead3 b"
    | "\<not> b < 0x80" "\<not> lead2 b" "\<not> lead3 b" "lead4 b"
    using "2.prems" by (auto simp: unfold split: if_splits)
  then show ?case
  proof cases
    case 1
    with 2 show ?thesis by (simp add: unfold)
  next
    case 2
    with "2.prems" obtain c r where "bs = c # r" "is_cont c" "utf8_valid r"
      by (auto simp: unfold split: list.splits)
    with 2 "2.IH"(2) [of c r] show ?thesis by (simp add: unfold)
  next
    case 3
    with "2.prems" obtain c d r where "bs = c # d # r" "second3 b c" "is_cont d" "utf8_valid r"
      by (auto simp: unfold split: list.splits)
    with 3 "2.IH"(3) [of c "d # r" d r] show ?thesis by (simp add: unfold)
  next
    case 4
    with "2.prems" obtain c d e r where
      "bs = c # d # e # r" "second4 b c" "is_cont d" "is_cont e" "utf8_valid r"
      by (auto simp: unfold split: list.splits)
    with 4 "2.IH"(4) [of c "d # e # r" d "e # r" e r] show ?thesis by (simp add: unfold)
  qed
qed

end
