(* ===== verification/Http.thy ===== *)
theory Http
  imports Bytes
begin

text \<open>
  The parsers of \<^verbatim>\<open>net.rs\<close>: the request parser, the search for the end of the headers, the
  \<open>Content-Length\<close> scan and the route prefix of an upload path. Byte strings throughout. The
  standard library's \<open>splitn\<close>, \<open>split\<close>, \<open>trim\<close>, \<open>eq_ignore_ascii_case\<close> and \<open>parse\<close> are written
  out; a \<open>str\<close> slice at an index that is not a character boundary is a panic.
\<close>

section \<open>Pieces of the standard library\<close>

fun splitn :: "nat \<Rightarrow> ('a \<Rightarrow> bool) \<Rightarrow> 'a list \<Rightarrow> 'a list list" where
  "splitn 0 P xs = []"
| "splitn (Suc 0) P xs = [xs]"
| "splitn (Suc (Suc n)) P xs =
     (case position P xs of
        None \<Rightarrow> [xs]
      | Some i \<Rightarrow> take i xs # splitn (Suc n) P (drop (Suc i) xs))"

definition CRLF :: bytes where "CRLF = [13, 10]"
definition CRLF2 :: bytes where "CRLF2 = [13, 10, 13, 10]"

lemma CRLF_nonempty [simp]: "CRLF \<noteq> []" "CRLF2 \<noteq> []"
  by (simp_all add: CRLF_def CRLF2_def)

function split_crlf :: "bytes \<Rightarrow> bytes list" where
  "split_crlf xs =
     (case window_position CRLF xs of
        None \<Rightarrow> [xs]
      | Some i \<Rightarrow> take i xs # split_crlf (drop (i + 2) xs))"
  by auto

termination
proof (relation "measure length", simp)
  fix xs :: bytes and i
  assume "window_position CRLF xs = Some i"
  then have "i + length CRLF \<le> length xs" by (rule window_position_bound [rotated]) simp
  then show "(drop (i + 2) xs, xs) \<in> measure length" by (simp add: CRLF_def)
qed

declare split_crlf.simps [simp del]

definition to_ascii_lowercase :: "u8 \<Rightarrow> u8" where
  "to_ascii_lowercase b = (if 0x41 \<le> b \<and> b \<le> 0x5A then b + 32 else b)"

definition eq_ignore_ascii_case :: "bytes \<Rightarrow> bytes \<Rightarrow> bool" where
  "eq_ignore_ascii_case xs ys \<longleftrightarrow> map to_ascii_lowercase xs = map to_ascii_lowercase ys"

text \<open>The UTF-8 forms of the characters with the Unicode property \<open>White_Space\<close>.\<close>

definition white_space :: "bytes list" where
  "white_space =
     [[9], [10], [11], [12], [13], [32], [0xC2, 0x85], [0xC2, 0xA0], [0xE1, 0x9A, 0x80],
      [0xE2, 0x80, 0x80], [0xE2, 0x80, 0x81], [0xE2, 0x80, 0x82], [0xE2, 0x80, 0x83],
      [0xE2, 0x80, 0x84], [0xE2, 0x80, 0x85], [0xE2, 0x80, 0x86], [0xE2, 0x80, 0x87],
      [0xE2, 0x80, 0x88], [0xE2, 0x80, 0x89], [0xE2, 0x80, 0x8A], [0xE2, 0x80, 0xA8],
      [0xE2, 0x80, 0xA9], [0xE2, 0x80, 0xAF], [0xE2, 0x81, 0x9F], [0xE3, 0x80, 0x80]]"

definition starts_with :: "'a list \<Rightarrow> 'a list \<Rightarrow> bool" where
  "starts_with xs pre \<longleftrightarrow> take (length pre) xs = pre"

lemma starts_with_append [simp]: "starts_with (pre @ xs) pre"
  by (simp add: starts_with_def)

lemma starts_with_iff: "starts_with xs pre \<longleftrightarrow> (\<exists>ys. xs = pre @ ys)"
  by (auto simp: starts_with_def) (metis append_take_drop_id)

lemma starts_with_length: "starts_with xs pre \<Longrightarrow> length pre \<le> length xs"
  by (auto simp: starts_with_iff)

function trim_front :: "bytes list \<Rightarrow> bytes \<Rightarrow> bytes" where
  "trim_front ws xs =
     (case find (\<lambda>w. w \<noteq> [] \<and> starts_with xs w) ws of
        None \<Rightarrow> xs
      | Some w \<Rightarrow> trim_front ws (drop (length w) xs))"
  by auto

termination
proof (relation "measure (length \<circ> snd)", simp)
  fix ws :: "bytes list" and xs w
  assume "find (\<lambda>w. w \<noteq> [] \<and> starts_with xs w) ws = Some w"
  then have "w \<noteq> []" "starts_with xs w" by (auto simp: find_Some_iff)
  then have "0 < length w" "length w \<le> length xs" by (auto dest: starts_with_length)
  then have "length xs - length w < length xs" by linarith
  then show "((ws, drop (length w) xs), ws, xs) \<in> measure (length \<circ> snd)" by simp
qed

declare trim_front.simps [simp del]

text \<open>The end is trimmed on the reversed bytes: a form that ends a valid string is its last character.\<close>

definition trim_str :: "bytes \<Rightarrow> bytes" where
  "trim_str xs = rev (trim_front (map rev white_space) (rev (trim_front white_space xs)))"

definition is_digit :: "u8 \<Rightarrow> bool" where
  "is_digit b \<longleftrightarrow> 0x30 \<le> b \<and> b \<le> 0x39"

definition digits_value :: "bytes \<Rightarrow> nat" where
  "digits_value bs = fold (\<lambda>b v. 10 * v + (unat b - 48)) bs 0"

text \<open>\<open>parse::<usize>()\<close>: an optional plus sign, at least one digit, no overflow.\<close>

definition parse_usize :: "bytes \<Rightarrow> nat option" where
  "parse_usize bs =
     (let ds = (if 1 < length bs \<and> hd bs = 0x2B then tl bs else bs)
      in if ds \<noteq> [] \<and> list_all is_digit ds \<and> digits_value ds < 2 ^ 64
         then Some (digits_value ds) else None)"

section \<open>Requests\<close>

record http_request =
  h_method :: "8 word list"
  h_path :: "8 word list"
  h_body :: "8 word list"

definition parse_http :: "bytes \<Rightarrow> http_request" where
  "parse_http data =
     (let first_line_end = (case position (\<lambda>b. b = 13) data of None \<Rightarrow> length data | Some i \<Rightarrow> i);
          parts = splitn 3 (\<lambda>b. b = 32) (take first_line_end data);
          body = (case window_position CRLF2 data of None \<Rightarrow> [] | Some pos \<Rightarrow> drop (pos + 4) data)
      in \<lparr>h_method = (case parts of m # _ \<Rightarrow> m | [] \<Rightarrow> str ''GET''),
          h_path = (case parts of _ # p # _ \<Rightarrow> p | _ \<Rightarrow> str ''/''),
          h_body = body\<rparr>)"

definition find_header_end :: "bytes \<Rightarrow> nat option" where
  "find_header_end buf = window_position CRLF2 buf"

text \<open>\<open>line[..16]\<close> on a longer string is a panic when byte 16 continues a character.\<close>

fun scan_length :: "bytes list \<Rightarrow> nat option option" where
  "scan_length [] = Some None"
| "scan_length (line # ls) =
     (if 16 < length line then
        (if is_cont (line ! 16) then None
         else if eq_ignore_ascii_case (take 16 line) (str ''Content-Length: '')
              then Some (parse_usize (trim_str (drop 16 line)))
              else scan_length ls)
      else scan_length ls)"

definition parse_content_length :: "bytes \<Rightarrow> nat option option" where
  "parse_content_length headers =
     (if utf8_valid headers then scan_length (split_crlf headers) else Some None)"

text \<open>The route of an upload: \<open>/update/bbs\<close> is \<open>/bbs\<close>, \<open>/update\<close> and \<open>/update/\<close> are \<open>/\<close>.\<close>

definition parse_route_prefix :: "bytes \<Rightarrow> bytes" where
  "parse_route_prefix path =
     (if starts_with path (str ''/update'') then
        (let rest = drop 7 path in if rest = [] \<or> rest = str ''/'' then str ''/'' else rest)
      else str ''/'')"

lemma parse_route_prefix_nonempty: "parse_route_prefix path \<noteq> []"
  by (auto simp: parse_route_prefix_def Let_def str_Cons)

section \<open>The request parser\<close>

lemma splitn_hit: "\<forall>x\<in>set xs. \<not> P x \<Longrightarrow> P y \<Longrightarrow>
   splitn (Suc (Suc n)) P (xs @ y # ys) = xs # splitn (Suc n) P ys"
  by (simp add: position_append_hit)

lemma CRLF2_no_window:
  assumes "13 \<notin> set xs"
  shows "window_position CRLF2 (xs @ ys) = map_option ((+) (length xs)) (window_position CRLF2 ys)"
  using assms by (cases "window_position CRLF2 ys"; induction xs) (auto simp: CRLF2_def)

lemma parse_http_line:
  assumes "32 \<notin> set method" "13 \<notin> set method" "32 \<notin> set path" "13 \<notin> set path" "13 \<notin> set version"
    and "window_position CRLF2 ([13, 10] @ headers @ CRLF2 @ body) = Some (2 + length headers)"
  shows "parse_http (method @ [32] @ path @ [32] @ version @ CRLF @ headers @ CRLF2 @ body)
    = \<lparr>h_method = method, h_path = path, h_body = body\<rparr>"
proof -
  let ?line = "method @ 32 # path @ 32 # version"
  let ?rest = "13 # 10 # headers @ CRLF2 @ body"
  let ?data = "?line @ ?rest"
  have no_cr: "13 \<notin> set ?line" using assms by auto
  have "position (\<lambda>b. b = 13) ?data = Some (length ?line)"
    using no_cr position_append_hit [of ?line "\<lambda>b. b = 13" 13 "10 # headers @ CRLF2 @ body"] by auto
  moreover have "splitn 3 (\<lambda>b. b = 32) ?line = [method, path, version]"
  proof -
    have "splitn 3 (\<lambda>b. b = 32) ?line = method # splitn (Suc (Suc 0)) (\<lambda>b. b = 32) (path @ 32 # version)"
      unfolding numeral_3_eq_3 by (rule splitn_hit) (use assms in auto)
    also have "splitn (Suc (Suc 0)) (\<lambda>b. b = 32) (path @ 32 # version) = [path, version]"
      by (subst splitn_hit) (use assms in auto)
    finally show ?thesis .
  qed
  moreover have "window_position CRLF2 ?data = Some (length ?line + 2 + length headers)"
    using CRLF2_no_window [OF no_cr, of ?rest] assms(6) by simp
  moreover have "drop (length ?line + 2 + length headers + 4) ?data = body"
  proof -
    have app: "drop (length xs) (xs @ body) = body" for xs :: bytes by simp
    show ?thesis
      using app [of "?line @ CRLF @ headers @ CRLF2"] by (simp only: CRLF_def CRLF2_def) (simp add: ac_simps)
  qed
  ultimately show ?thesis
    by (simp add: parse_http_def CRLF_def)
qed

text \<open>
  C15. The request line is read as it was written: for a method and a path without spaces and a
  first line without carriage returns, \<open>parse_http\<close> returns them, whatever follows on the line;
  the body is what follows the first empty line.
\<close>

theorem parse_http_request:
  assumes "32 \<notin> set method" "13 \<notin> set method" "32 \<notin> set path" "13 \<notin> set path" "13 \<notin> set version"
    and "window_position CRLF2 ([13, 10] @ headers @ CRLF2 @ body) = Some (2 + length headers)"
  shows "parse_http (method @ [32] @ path @ [32] @ version @ CRLF @ headers @ CRLF2 @ body)
    = \<lparr>h_method = method, h_path = path, h_body = body\<rparr>"
  by (rule parse_http_line [OF assms])

theorem parse_http_request_witness:
  "parse_http (str ''POST /bbs/list HTTP/1.1'' @ CRLF @ str ''Host: x'' @ CRLF2 @ str ''hi'')
    = \<lparr>h_method = str ''POST'', h_path = str ''/bbs/list'', h_body = str ''hi''\<rparr>"
proof -
  have "window_position CRLF2 ([13, 10] @ str ''Host: x'' @ CRLF2 @ str ''hi'') = Some (2 + length (str ''Host: x''))"
    by (simp add: str_Cons CRLF2_def)
  from parse_http_request [OF _ _ _ _ _ this, of "str ''POST''" "str ''/bbs/list''" "str ''HTTP/1.1''"]
  show ?thesis by (simp add: str_Cons)
qed

section \<open>Numbers\<close>

text \<open>\<open>{}\<close> of an unsigned integer.\<close>

fun dec :: "nat \<Rightarrow> bytes" where
  "dec n = (if n < 10 then [of_nat (48 + n)] else dec (n div 10) @ [of_nat (48 + n mod 10)])"

declare dec.simps [simp del]

lemma digit_byte:
  assumes "n < 10"
  shows "is_digit (of_nat (48 + n))" and "unat (of_nat (48 + n) :: u8) = 48 + n"
proof -
  show u: "unat (of_nat (48 + n) :: u8) = 48 + n"
    using assms by (simp only: unat_of_nat) simp
  show "is_digit (of_nat (48 + n))"
    using assms unfolding is_digit_def word_le_nat_alt u by simp
qed

lemma dec_digits: "list_all is_digit (dec n)" "dec n \<noteq> []"
proof (induction n rule: dec.induct)
  case (1 n)
  {
    case 1
    show ?case using "1.IH" digit_byte(1) [of n] digit_byte(1) [of "n mod 10"]
      by (subst dec.simps) (simp del: of_nat_add)
  next
    case 2
    show ?case by (subst dec.simps) simp
  }
qed

lemma digits_value_append:
  "digits_value (xs @ [b]) = 10 * digits_value xs + (unat b - 48)"
  by (simp add: digits_value_def)

lemma digits_value_dec: "digits_value (dec n) = n"
proof (induction n rule: dec.induct)
  case (1 n)
  show ?case
  proof (cases "n < 10")
    case True
    then show ?thesis
      using digit_byte(2) [OF True] by (subst dec.simps) (simp add: digits_value_def del: of_nat_add)
  next
    case False
    have "n mod 10 < 10" by simp
    from False 1 digit_byte(2) [OF this] show ?thesis
      by (subst dec.simps) (simp add: digits_value_append del: of_nat_add)
  qed
qed

lemma digit_not: "is_digit b \<Longrightarrow> b \<noteq> 0x2B \<and> b \<noteq> 13 \<and> b < 0x80"
  by (auto simp: is_digit_def word_le_nat_alt word_less_nat_alt)

lemma parse_usize_dec: "n < 2 ^ 64 \<Longrightarrow> parse_usize (dec n) = Some n"
proof -
  assume n: "n < 2 ^ 64"
  have "hd (dec n) \<noteq> 0x2B"
    using dec_digits [of n] digit_not by (cases "dec n") auto
  then show ?thesis
    using n dec_digits [of n] by (simp add: parse_usize_def digits_value_dec)
qed

lemma trim_front_digit:
  assumes "is_digit b" and "\<forall>w\<in>set ws. w \<noteq> [] \<longrightarrow> hd w \<notin> {0x30, 0x31, 0x32, 0x33, 0x34, 0x35, 0x36, 0x37, 0x38, 0x39}"
  shows "trim_front ws (b # bs) = b # bs"
proof -
  have "unat b \<in> {48..57}" using assms(1) by (simp add: is_digit_def word_le_nat_alt)
  then have "unat b \<in> {48, 49, 50, 51, 52, 53, 54, 55, 56, 57}" by simp presburger
  then have b: "b \<in> {0x30, 0x31, 0x32, 0x33, 0x34, 0x35, 0x36, 0x37, 0x38, 0x39}"
    by (auto simp: word_unat_eq_iff)
  have "find (\<lambda>w. w \<noteq> [] \<and> starts_with (b # bs) w) ws = None"
    unfolding find_None_iff
  proof (intro notI, elim exE conjE)
    fix w assume w: "w \<in> set ws" "w \<noteq> []" "starts_with (b # bs) w"
    then have "hd w = b" by (metis append_Cons hd_append2 list.sel(1) starts_with_iff)
    with assms(2) w(1,2) b show False by auto
  qed
  then show ?thesis by (simp add: trim_front.simps)
qed

lemma trim_digits:
  assumes "list_all is_digit ds"
  shows "trim_str ds = ds"
proof (cases "ds = []")
  case True
  have "find (\<lambda>w. w \<noteq> [] \<and> starts_with [] w) ws = None" for ws :: "bytes list"
    by (auto simp: find_None_iff starts_with_def)
  with True show ?thesis by (simp add: trim_str_def trim_front.simps)
next
  case False
  obtain b bs where ds: "ds = b # bs" using False by (cases ds) auto
  obtain c cs where rv: "rev ds = c # cs" using False by (cases "rev ds") auto
  have "is_digit b" "is_digit c"
    using assms ds arg_cong [OF rv, of set] by (auto simp: list_all_iff)
  moreover have "trim_front white_space (b # bs) = b # bs"
    by (rule trim_front_digit) (use \<open>is_digit b\<close> in \<open>simp_all add: white_space_def\<close>)
  moreover have "trim_front (map rev white_space) (c # cs) = c # cs"
    by (rule trim_front_digit) (use \<open>is_digit c\<close> in \<open>simp_all add: white_space_def\<close>)
  ultimately show ?thesis using ds rv by (metis rev_rev_ident trim_str_def)
qed

section \<open>The length header\<close>

fun join_crlf :: "bytes list \<Rightarrow> bytes" where
  "join_crlf [] = []"
| "join_crlf [l] = l"
| "join_crlf (l # ls) = l @ CRLF @ join_crlf ls"

lemma CRLF_no_window: "13 \<notin> set l \<Longrightarrow> window_position CRLF l = None"
  by (induction l) (auto simp: CRLF_def)

lemma CRLF_window: "13 \<notin> set l \<Longrightarrow> window_position CRLF (l @ CRLF @ r) = Some (length l)"
  by (induction l) (auto simp: CRLF_def)

lemma split_join_crlf:
  "ls \<noteq> [] \<Longrightarrow> \<forall>l\<in>set ls. 13 \<notin> set l \<Longrightarrow> split_crlf (join_crlf ls) = ls"
proof (induction ls rule: join_crlf.induct)
  case (2 l)
  then show ?case by (subst split_crlf.simps) (simp add: CRLF_no_window)
next
  case (3 l l2 ls)
  then show ?case by (subst split_crlf.simps) (simp add: CRLF_window, simp add: CRLF_def)
qed simp

definition length_line :: "bytes \<Rightarrow> bool" where
  "length_line l \<longleftrightarrow> 16 < length l \<and> eq_ignore_ascii_case (take 16 l) (str ''Content-Length: '')"

lemma scan_length_ascii:
  "\<forall>l\<in>set ls. \<forall>b\<in>set l. b < 0x80 \<Longrightarrow>
   scan_length ls = Some (case find length_line ls of None \<Rightarrow> None | Some l \<Rightarrow> parse_usize (trim_str (drop 16 l)))"
proof (induction ls)
  case (Cons l ls)
  have "\<not> is_cont (l ! 16)" if "16 < length l"
  proof -
    have "l ! 16 < 0x80" using that Cons.prems by auto
    then show ?thesis by (simp add: is_cont_def not_le)
  qed
  with Cons show ?case by (auto simp: length_line_def)
qed simp

lemma join_crlf_ascii: "\<forall>l\<in>set ls. \<forall>b\<in>set l. b < 0x80 \<Longrightarrow> \<forall>b\<in>set (join_crlf ls). b < 0x80"
  by (induction ls rule: join_crlf.induct) (auto simp: CRLF_def)

lemma length_line_read:
  assumes "\<forall>l\<in>set (pre @ post). 13 \<notin> set l \<and> (\<forall>b\<in>set l. b < 0x80)" and "\<forall>l\<in>set pre. \<not> length_line l"
    and "eq_ignore_ascii_case name (str ''Content-Length: '')" and "13 \<notin> set name" and "\<forall>b\<in>set name. b < 0x80"
    and "n < 2 ^ 64"
  shows "parse_content_length (join_crlf (pre @ [name @ dec n] @ post)) = Some (Some n)"
proof -
  let ?ls = "pre @ [name @ dec n] @ post"
  have name: "length name = 16"
    using assms(3) by (auto simp: eq_ignore_ascii_case_def dest: arg_cong [where f = length])
  have digits: "\<forall>b\<in>set (dec n). b \<noteq> 13 \<and> b < 0x80"
    using dec_digits(1) [of n] digit_not by (auto simp: list_all_iff)
  have ascii: "\<forall>l\<in>set ?ls. \<forall>b\<in>set l. b < 0x80" and cr: "\<forall>l\<in>set ?ls. 13 \<notin> set l"
    using assms(1,4,5) digits by auto
  have "length_line (name @ dec n)"
    using name assms(3) dec_digits(2) [of n] by (simp add: length_line_def)
  then have "find length_line ?ls = Some (name @ dec n)"
    using assms(2) by (induction pre) auto
  moreover have "split_crlf (join_crlf ?ls) = ?ls" using cr by (intro split_join_crlf) auto
  moreover have "utf8_valid (join_crlf ?ls)" using join_crlf_ascii [OF ascii] by (rule utf8_valid_ascii)
  ultimately show ?thesis
    using name assms(6) dec_digits(1) scan_length_ascii [OF ascii]
    by (simp add: parse_content_length_def trim_digits parse_usize_dec)
qed

text \<open>
  C16. For ASCII headers the scan does not panic, and an upload's length is read back as it was
  printed: the first line that starts with the header's name, in any case, decides.
\<close>

theorem content_length_roundtrip:
  assumes "\<forall>l\<in>set (pre @ post). 13 \<notin> set l \<and> (\<forall>b\<in>set l. b < 0x80)" and "\<forall>l\<in>set pre. \<not> length_line l"
    and "eq_ignore_ascii_case name (str ''Content-Length: '')" and "13 \<notin> set name" and "\<forall>b\<in>set name. b < 0x80"
    and "n < 2 ^ 64"
  shows "parse_content_length (join_crlf (pre @ [name @ dec n] @ post)) = Some (Some n)"
  by (rule length_line_read [OF assms])

theorem content_length_roundtrip_witness:
  "parse_content_length (join_crlf ([str ''POST /update HTTP/1.0''] @ [str ''content-length: '' @ dec 1207] @ [str ''X: y'']))
    = Some (Some 1207)"
proof (rule content_length_roundtrip)
  show "\<forall>l\<in>set [str ''POST /update HTTP/1.0'']. \<not> length_line l"
    by (simp add: length_line_def str_Cons eq_ignore_ascii_case_def to_ascii_lowercase_def)
qed (simp_all add: str_Cons eq_ignore_ascii_case_def to_ascii_lowercase_def)

lemma first_hit_Cons:
  "(\<exists>pre y post. x # xs = pre @ y # post \<and> P y \<and> (\<forall>l\<in>set pre. Q l)) \<longleftrightarrow>
   P x \<or> Q x \<and> (\<exists>pre y post. xs = pre @ y # post \<and> P y \<and> (\<forall>l\<in>set pre. Q l))" (is "?l \<longleftrightarrow> ?r")
proof
  assume ?l
  then obtain pre y post where "x # xs = pre @ y # post" "P y" "\<forall>l\<in>set pre. Q l" by blast
  then show ?r by (cases pre) auto
next
  assume ?r
  then show ?l
  proof
    assume "P x"
    then show ?l by (intro exI [of _ "[]"]) simp
  next
    assume "Q x \<and> (\<exists>pre y post. xs = pre @ y # post \<and> P y \<and> (\<forall>l\<in>set pre. Q l))"
    then obtain pre y post where "Q x" "xs = pre @ y # post" "P y" "\<forall>l\<in>set pre. Q l" by blast
    then show ?l by (intro exI [of _ "x # pre"] exI [of _ y] exI [of _ post]) simp
  qed
qed

abbreviation cut_in_char :: "bytes \<Rightarrow> bool" where
  "cut_in_char l \<equiv> 16 < length l \<and> is_cont (l ! 16)"

abbreviation passed_over :: "bytes \<Rightarrow> bool" where
  "passed_over l \<equiv> 16 < length l \<longrightarrow>
     \<not> is_cont (l ! 16) \<and> \<not> eq_ignore_ascii_case (take 16 l) (str ''Content-Length: '')"

lemma scan_length_None:
  "scan_length ls = None \<longleftrightarrow> (\<exists>pre line post. ls = pre @ line # post \<and> cut_in_char line \<and> (\<forall>l\<in>set pre. passed_over l))"
proof (induction ls)
  case (Cons line ls)
  show ?case
    unfolding first_hit_Cons [of line ls cut_in_char passed_over] Cons.IH [symmetric] by simp
qed simp

text \<open>
  C17. Exactly which header blocks halt the kernel: those that are valid text and have a line longer
  than 16 bytes whose byte 16 continues a character, before any line that gives the length. The
  lines before it may be of any other kind, as the request line is.
\<close>

theorem content_length_panics:
  "parse_content_length headers = None \<longleftrightarrow> utf8_valid headers
    \<and> (\<exists>pre line post. split_crlf headers = pre @ line # post \<and> 16 < length line \<and> is_cont (line ! 16)
      \<and> (\<forall>l\<in>set pre. 16 < length l \<longrightarrow> \<not> is_cont (l ! 16)
           \<and> \<not> eq_ignore_ascii_case (take 16 l) (str ''Content-Length: '')))"
proof (cases "utf8_valid headers")
  case True
  then show ?thesis unfolding parse_content_length_def if_P [OF True] scan_length_None by blast
qed (simp add: parse_content_length_def)

theorem content_length_panics_witness:
  "parse_content_length (join_crlf [str ''POST /update HTTP/1.1'', str ''Host: example.org'',
     str ''X: 123456789012'' @ [0xC3, 0xA9]]) = None"
proof -
  let ?ls = "[str ''POST /update HTTP/1.1'', str ''Host: example.org'', str ''X: 123456789012'' @ [0xC3, 0xA9]]"
  have "\<forall>l\<in>set ?ls. 13 \<notin> set l" by (simp add: str_Cons)
  then have lines: "split_crlf (join_crlf ?ls) = [str ''POST /update HTTP/1.1'', str ''Host: example.org'']
      @ (str ''X: 123456789012'' @ [0xC3, 0xA9]) # []"
    by (subst split_join_crlf) simp_all
  have valid: "utf8_valid (join_crlf ?ls)"
    by (simp add: str_Cons CRLF_def utf8_valid.simps lead2_def is_cont_def)
  have cut: "16 < length (str ''X: 123456789012'' @ [0xC3, 0xA9])" "is_cont ((str ''X: 123456789012'' @ [0xC3, 0xA9]) ! 16)"
    by (simp_all add: str_Cons is_cont_def)
  have before: "\<forall>l\<in>set [str ''POST /update HTTP/1.1'', str ''Host: example.org'']. 16 < length l \<longrightarrow> \<not> is_cont (l ! 16)
      \<and> \<not> eq_ignore_ascii_case (take 16 l) (str ''Content-Length: '')"
    by (simp add: str_Cons is_cont_def eq_ignore_ascii_case_def to_ascii_lowercase_def)
  show ?thesis
    unfolding content_length_panics using lines valid cut before by blast
qed

end
