(* ===== verification/Router.thy ===== *)
theory Router
  imports Http
begin

text \<open>
  The router of \<^verbatim>\<open>net.rs\<close> (\<open>WasmRouter\<close>): a list of route prefixes with their applications, searched
  for the longest prefix of the request's path. The application type is a parameter.
\<close>

type_synonym 'a router = "(8 word list \<times> 'a) list"

text \<open>\<open>insert\<close> replaces the first entry of that prefix, or appends one.\<close>

fun router_insert :: "bytes \<Rightarrow> 'a \<Rightarrow> 'a router \<Rightarrow> 'a router" where
  "router_insert pre app [] = [(pre, app)]"
| "router_insert pre app ((q, a) # es) =
     (if q = pre then (q, app) # es else (q, a) # router_insert pre app es)"

text \<open>The scan of \<open>route_mut\<close> over the enumerated entries: a later entry of the same length wins.\<close>

fun route_scan :: "bytes \<Rightarrow> 'a router \<Rightarrow> nat \<Rightarrow> nat \<Rightarrow> nat option \<Rightarrow> nat option" where
  "route_scan path [] i best_len best = best"
| "route_scan path ((pre, a) # es) i best_len best =
     (if starts_with path pre \<and> best_len \<le> length pre
      then route_scan path es (Suc i) (length pre) (Some i)
      else route_scan path es (Suc i) best_len best)"

definition route_mut :: "bytes \<Rightarrow> 'a router \<Rightarrow> (nat \<times> nat) option" where
  "route_mut path es =
     map_option (\<lambda>i. (length (fst (es ! i)), i)) (route_scan path es 0 0 None)"

section \<open>Routes as a map\<close>

definition prefixes_distinct :: "'a router \<Rightarrow> bool" where
  "prefixes_distinct es \<longleftrightarrow> distinct (map fst es)"

lemma map_of_insert: "map_of (router_insert pre app es) = (map_of es)(pre \<mapsto> app)"
  by (induction es) (auto simp: fun_eq_iff)

lemma map_fst_insert:
  "map fst (router_insert pre app es) = map fst es @ (if pre \<in> fst ` set es then [] else [pre])"
proof (induction es)
  case (Cons e es)
  then show ?case by (cases e) (simp add: image_iff)
qed simp

lemma prefixes_insert:
  "set (map fst (router_insert pre app es)) = insert pre (set (map fst es))"
  unfolding map_fst_insert by auto

lemma prefixes_distinct_insert:
  "prefixes_distinct es \<Longrightarrow> prefixes_distinct (router_insert pre app es)"
  by (simp add: prefixes_distinct_def map_fst_insert)

lemma router_insert_nonempty [simp]: "router_insert pre app es \<noteq> []"
  by (cases "(pre, app, es)" rule: router_insert.cases) auto

section \<open>The longest prefix\<close>

text \<open>What the scan has found after a part of the entries.\<close>

lemma route_scan_spec:
  assumes "route_scan path es (length done) best_len best = r"
    and "case best of
        None \<Rightarrow> best_len = 0 \<and> (\<forall>e\<in>set done. \<not> starts_with path (fst e))
      | Some k \<Rightarrow> k < length done \<and> best_len = length (fst (done ! k)) \<and> starts_with path (fst (done ! k))
          \<and> (\<forall>e\<in>set done. starts_with path (fst e) \<longrightarrow> length (fst e) \<le> best_len)"
  shows "case r of
      None \<Rightarrow> \<forall>e\<in>set (done @ es). \<not> starts_with path (fst e)
    | Some k \<Rightarrow> k < length (done @ es) \<and> starts_with path (fst ((done @ es) ! k))
        \<and> (\<forall>e\<in>set (done @ es). starts_with path (fst e) \<longrightarrow> length (fst e) \<le> length (fst ((done @ es) ! k)))"
  using assms
proof (induction es arbitrary: "done" best_len best)
  case Nil
  then show ?case by (cases best) auto
next
  case (Cons e es)
  obtain pre a where e: "e = (pre, a)" by (cases e)
  show ?case
  proof (cases "starts_with path pre \<and> best_len \<le> length pre")
    case True
    have scan: "route_scan path es (length (done @ [e])) (length pre) (Some (length done)) = r"
      using Cons.prems(1) True by (simp add: e)
    have "\<forall>x\<in>set done. starts_with path (fst x) \<longrightarrow> length (fst x) \<le> length pre"
      using Cons.prems(2) True by (cases best) auto
    then have "case Some (length done) of
        None \<Rightarrow> length pre = 0 \<and> (\<forall>x\<in>set (done @ [e]). \<not> starts_with path (fst x))
      | Some k \<Rightarrow> k < length (done @ [e]) \<and> length pre = length (fst ((done @ [e]) ! k))
          \<and> starts_with path (fst ((done @ [e]) ! k))
          \<and> (\<forall>x\<in>set (done @ [e]). starts_with path (fst x) \<longrightarrow> length (fst x) \<le> length pre)"
      using True by (simp add: e)
    from Cons.IH [OF scan this] show ?thesis by (cases r) simp_all
  next
    case False
    have scan: "route_scan path es (length (done @ [e])) best_len best = r"
      using Cons.prems(1) False by (auto simp: e)
    have "case best of
        None \<Rightarrow> best_len = 0 \<and> (\<forall>x\<in>set (done @ [e]). \<not> starts_with path (fst x))
      | Some k \<Rightarrow> k < length (done @ [e]) \<and> best_len = length (fst ((done @ [e]) ! k))
          \<and> starts_with path (fst ((done @ [e]) ! k))
          \<and> (\<forall>x\<in>set (done @ [e]). starts_with path (fst x) \<longrightarrow> length (fst x) \<le> best_len)"
      using Cons.prems(2) False by (cases best) (auto simp: e nth_append)
    from Cons.IH [OF scan this] show ?thesis by (cases r) simp_all
  qed
qed

lemma route_mut_spec:
  "case route_mut path es of
     None \<Rightarrow> \<forall>e\<in>set es. \<not> starts_with path (fst e)
   | Some (plen, i) \<Rightarrow> i < length es \<and> plen = length (fst (es ! i)) \<and> starts_with path (fst (es ! i))
       \<and> (\<forall>e\<in>set es. starts_with path (fst e) \<longrightarrow> length (fst e) \<le> plen)"
  using route_scan_spec [of path es "[]" 0 None "route_scan path es 0 0 None"]
  by (simp add: route_mut_def split: option.splits)

text \<open>
  C14. The router selects the longest registered prefix of the path: \<open>None\<close> exactly when no
  registered prefix matches, and otherwise an entry that matches, with no longer match registered.
\<close>

theorem route_mut_longest:
  "case route_mut path es of
     None \<Rightarrow> \<forall>e\<in>set es. \<not> starts_with path (fst e)
   | Some (plen, i) \<Rightarrow> i < length es \<and> plen = length (fst (es ! i)) \<and> starts_with path (fst (es ! i))
       \<and> (\<forall>e\<in>set es. starts_with path (fst e) \<longrightarrow> length (fst e) \<le> plen)"
  by (rule route_mut_spec)

theorem route_mut_longest_witness:
  "route_mut (str ''/bbs/list'') [(str ''/'', 1 :: nat), (str ''/bbs'', 2)] = Some (4, 1)
   \<and> list_all (\<lambda>e. starts_with (str ''/bbs/list'') (fst e) \<longrightarrow> length (fst e) \<le> 4)
        [(str ''/'', 1 :: nat), (str ''/bbs'', 2)]"
proof -
  have "route_mut (str ''/bbs/list'') [(str ''/'', 1 :: nat), (str ''/bbs'', 2)] = Some (4, 1)"
    by (simp add: route_mut_def starts_with_def str_Cons)
  with route_mut_longest [where path = "str ''/bbs/list''" and es = "[(str ''/'', 1 :: nat), (str ''/bbs'', 2)]"]
  show ?thesis by (simp add: list_all_iff)
qed

text \<open>With distinct prefixes the match is unique, so the order of registration does not matter.\<close>

lemma longest_unique:
  assumes "starts_with path p" "starts_with path q" "length p = length q"
  shows "p = q"
  using assms by (simp add: starts_with_def)

lemma route_mut_lookup:
  assumes "prefixes_distinct es" and "starts_with path pre" and "map_of es pre = Some a"
    and "\<forall>e\<in>set es. starts_with path (fst e) \<longrightarrow> length (fst e) \<le> length pre"
  shows "\<exists>i. route_mut path es = Some (length pre, i) \<and> i < length es \<and> es ! i = (pre, a)"
proof -
  have mem: "(pre, a) \<in> set es" using assms(3) by (rule map_of_SomeD)
  obtain plen i where r: "route_mut path es = Some (plen, i)"
    using route_mut_spec [where path = path and es = es] mem assms(2) by (cases "route_mut path es") auto
  then have i: "i < length es" "plen = length (fst (es ! i))" "starts_with path (fst (es ! i))"
    "length pre \<le> plen"
    using route_mut_spec [where path = path and es = es] mem assms(2) by fastforce+
  moreover have "es ! i \<in> set es" using i(1) by simp
  ultimately have "fst (es ! i) = pre"
    using assms(2,4) by (intro longest_unique) (auto intro: le_antisym)
  moreover have "map_of es (fst (es ! i)) = Some (snd (es ! i))"
    using assms(1) \<open>es ! i \<in> set es\<close> by (simp add: prefixes_distinct_def)
  ultimately show ?thesis using r i assms(3) by (metis option.inject prod.collapse)
qed

lemma route_insert:
  assumes "prefixes_distinct es" and "starts_with path pre"
    and "\<forall>e\<in>set es. starts_with path (fst e) \<longrightarrow> length (fst e) \<le> length pre"
  shows "\<exists>i. route_mut path (router_insert pre app es) = Some (length pre, i)
    \<and> router_insert pre app es ! i = (pre, app)
    \<and> prefixes_distinct (router_insert pre app es)
    \<and> (\<forall>q. q \<noteq> pre \<longrightarrow> map_of (router_insert pre app es) q = map_of es q)"
proof -
  have "\<forall>e\<in>set (router_insert pre app es). starts_with path (fst e) \<longrightarrow> length (fst e) \<le> length pre"
  proof (intro ballI impI)
    fix e assume e: "e \<in> set (router_insert pre app es)" "starts_with path (fst e)"
    then have "fst e \<in> insert pre (set (map fst es))"
      unfolding prefixes_insert [of pre app es, symmetric] by auto
    with assms(3) e(2) show "length (fst e) \<le> length pre" by auto
  qed
  from route_mut_lookup [OF prefixes_distinct_insert [OF assms(1)] assms(2) _ this]
  show ?thesis using prefixes_distinct_insert [OF assms(1)] by (auto simp: map_of_insert)
qed

end
