(* ===== verification/Machine.thy ===== *)
theory Machine
  imports Bytes
begin

text \<open>
  The machine under the kernel: physical memory and, behind the ports and the memory-mapped
  registers, devices the kernel cannot see into. The devices are not part of the sources, so they
  are a parameter: a type \<open>'d\<close> of device states and a record \<open>hw\<close> of what a port access, a
  register access and the passing of time do to the machine.

  \<^item> A port read may change the device (a data port that steps through a file, a status register
    that clears) and so returns the new machine.
  \<^item> \<open>sync\<close> is the devices running between two instructions of the kernel: DMA into memory. The
    drivers' volatile reads of memory they share with a device are preceded by it.

  The \<open>in\<close>/\<open>out\<close> wrappers are the inline-assembly helpers of the drivers (\<open>inb\<close>, \<open>outw\<close>, ...);
  the integer accesses are the volatile and unaligned pointer accesses, all little endian.
\<close>

record 'd machine =
  ram :: "nat \<Rightarrow> 8 word"
  dev :: 'd

record 'd hw =
  port_in :: "nat \<Rightarrow> 16 word \<Rightarrow> 'd machine \<Rightarrow> 32 word \<times> 'd machine"
  port_out :: "nat \<Rightarrow> 16 word \<Rightarrow> 32 word \<Rightarrow> 'd machine \<Rightarrow> 'd machine"
  mmio_in :: "nat \<Rightarrow> 64 word \<Rightarrow> 'd machine \<Rightarrow> 64 word \<times> 'd machine"
  mmio_out :: "nat \<Rightarrow> 64 word \<Rightarrow> 64 word \<Rightarrow> 'd machine \<Rightarrow> 'd machine"
  sync :: "'d machine \<Rightarrow> 'd machine"

section \<open>Port accesses\<close>

definition outb :: "'d hw \<Rightarrow> u16 \<Rightarrow> u8 \<Rightarrow> 'd machine \<Rightarrow> 'd machine" where
  "outb hw port v m = port_out hw 1 port (ucast v) m"

definition outw :: "'d hw \<Rightarrow> u16 \<Rightarrow> u16 \<Rightarrow> 'd machine \<Rightarrow> 'd machine" where
  "outw hw port v m = port_out hw 2 port (ucast v) m"

definition outl :: "'d hw \<Rightarrow> u16 \<Rightarrow> u32 \<Rightarrow> 'd machine \<Rightarrow> 'd machine" where
  "outl hw port v m = port_out hw 4 port v m"

definition inb :: "'d hw \<Rightarrow> u16 \<Rightarrow> 'd machine \<Rightarrow> u8 \<times> 'd machine" where
  "inb hw port m = (let (v, m') = port_in hw 1 port m in (ucast v, m'))"

definition inw :: "'d hw \<Rightarrow> u16 \<Rightarrow> 'd machine \<Rightarrow> u16 \<times> 'd machine" where
  "inw hw port m = (let (v, m') = port_in hw 2 port m in (ucast v, m'))"

definition inl :: "'d hw \<Rightarrow> u16 \<Rightarrow> 'd machine \<Rightarrow> u32 \<times> 'd machine" where
  "inl hw port m = port_in hw 4 port m"

section \<open>Memory accesses\<close>

definition rd16 :: "nat \<Rightarrow> 'd machine \<Rightarrow> u16" where
  "rd16 a m = from_le16 (mem_read (ram m) a 2)"

definition rd32 :: "nat \<Rightarrow> 'd machine \<Rightarrow> u32" where
  "rd32 a m = from_le32 (mem_read (ram m) a 4)"

definition rd64 :: "nat \<Rightarrow> 'd machine \<Rightarrow> u64" where
  "rd64 a m = from_le64 (mem_read (ram m) a 8)"

definition wr_bytes :: "nat \<Rightarrow> bytes \<Rightarrow> 'd machine \<Rightarrow> 'd machine" where
  "wr_bytes a bs m = m\<lparr>ram := mem_write (ram m) a bs\<rparr>"

definition wr16 :: "nat \<Rightarrow> u16 \<Rightarrow> 'd machine \<Rightarrow> 'd machine" where
  "wr16 a v m = wr_bytes a (to_le16 v) m"

definition wr32 :: "nat \<Rightarrow> u32 \<Rightarrow> 'd machine \<Rightarrow> 'd machine" where
  "wr32 a v m = wr_bytes a (to_le32 v) m"

definition wr64 :: "nat \<Rightarrow> u64 \<Rightarrow> 'd machine \<Rightarrow> 'd machine" where
  "wr64 a v m = wr_bytes a (to_le64 v) m"

lemma dev_wr [simp]:
  "dev (wr_bytes a bs m) = dev m" "dev (wr16 a v16 m) = dev m"
  "dev (wr32 a v32 m) = dev m" "dev (wr64 a v64 m) = dev m"
  by (simp_all add: wr_bytes_def wr16_def wr32_def wr64_def)

lemma ram_wr_bytes [simp]: "ram (wr_bytes a bs m) = mem_write (ram m) a bs"
  by (simp add: wr_bytes_def)

lemma ram_wr [simp]:
  "ram (wr16 a v16 m) = mem_write (ram m) a (to_le16 v16)"
  "ram (wr32 a v32 m) = mem_write (ram m) a (to_le32 v32)"
  "ram (wr64 a v64 m) = mem_write (ram m) a (to_le64 v64)"
  by (simp_all add: wr16_def wr32_def wr64_def)

text \<open>
  \<open>alloc_zeroed\<close>: the address is the allocator's choice and so a parameter of its callers; 0 is the
  null pointer of a failed allocation.
\<close>

definition alloc_zeroed :: "nat \<Rightarrow> nat \<Rightarrow> 'd machine \<Rightarrow> 'd machine" where
  "alloc_zeroed at n m = (if at = 0 then m else wr_bytes at (replicate n 0) m)"

lemma ram_alloc: "ram (alloc_zeroed at n m) = (if at = 0 then ram m else mem_write (ram m) at (replicate n 0))"
  by (simp add: alloc_zeroed_def)

lemma dev_alloc [simp]: "dev (alloc_zeroed at n m) = dev m"
  by (simp add: alloc_zeroed_def)

end
