(* ===== verification/Virtq.thy ===== *)
theory Virtq
  imports Machine
begin

text \<open>
  The shared-memory layout of a split virtqueue, as the three VirtIO drivers compute it: the
  descriptor table at offset 0, the available ring behind it, and the used ring on the next page
  boundary. Each driver carries its own copy of the offset functions (\<^verbatim>\<open>virtio_net.rs\<close>,
  \<^verbatim>\<open>blk.rs\<close>, \<^verbatim>\<open>vsock.rs\<close>); the locale \<open>virtq_layout\<close> states what a driver relies on, and each
  driver's theory interprets it on that driver's functions.
\<close>

section \<open>Rounding up to a page\<close>

lemma unat_and_not_mask:
  fixes w :: "'a::len word"
  shows "unat (w AND NOT (mask n)) = unat w div 2 ^ n * 2 ^ n"
proof -
  have "w AND NOT (mask n) = push_bit n (drop_bit n w)"
    by (rule bit_word_eqI) (auto simp: bit_simps)
  then have "(w AND NOT (mask n)) + take_bit n w = w"
    using bits_ident [of n w] by (simp only:)
  then have "w AND NOT (mask n) = w - take_bit n w"
    by (simp add: algebra_simps)
  moreover have u: "unat (take_bit n w) = unat w mod 2 ^ n"
    by (simp add: unsigned_take_bit_eq flip: take_bit_eq_mod)
  moreover have "take_bit n w \<le> w"
    by (simp only: word_le_nat_alt u) simp
  ultimately have "unat (w AND NOT (mask n)) = unat w - unat w mod 2 ^ n"
    by (simp only: unat_sub)
  then show ?thesis by (simp add: minus_mod_eq_div_mult)
qed

lemma unat_page_up:
  fixes w :: usize
  assumes "unat w < 2 ^ 63"
  shows "unat ((w + 4096 - 1) AND NOT (4096 - 1)) = (unat w + 4095) div 4096 * 4096"
proof -
  have "(4096 - 1 :: usize) = mask 12" by (simp add: mask_eq_exp_minus_1)
  moreover have "unat (w + 4096 - 1) = unat w + 4095"
    using assms by (simp add: unat_word_ariths add_diff_eq [symmetric] del: add_diff_eq)
  ultimately show ?thesis by (simp only: unat_and_not_mask) simp
qed

section \<open>What a driver relies on\<close>

locale virtq_layout =
  fixes avail :: "usize \<Rightarrow> usize" and used :: "usize \<Rightarrow> usize" and size :: "usize \<Rightarrow> usize"
  assumes avail_at: "unat qs < 65536 \<Longrightarrow> unat (avail qs) = 16 * unat qs"
    and used_at: "unat qs < 65536 \<Longrightarrow> unat (used qs) = (18 * unat qs + 6 + 4095) div 4096 * 4096"
    and size_at: "unat qs < 65536 \<Longrightarrow>
      unat (size qs) = (unat (used qs) + 6 + 8 * unat qs + 4095) div 4096 * 4096"
begin

text \<open>The three areas follow each other without overlap and end inside the allocation.\<close>

lemma desc_below_avail: "unat qs < 65536 \<Longrightarrow> i < unat qs \<Longrightarrow> 16 * i + 16 \<le> unat (avail qs)"
  by (simp add: avail_at)

lemma avail_below_used: "unat qs < 65536 \<Longrightarrow> unat (avail qs) + 6 + 2 * unat qs \<le> unat (used qs)"
  by (simp add: avail_at used_at)

lemma used_below_end: "unat qs < 65536 \<Longrightarrow> unat (used qs) + 6 + 8 * unat qs \<le> unat (size qs)"
  by (simp add: size_at)

lemma used_page_aligned: "unat qs < 65536 \<Longrightarrow> 4096 dvd unat (used qs)"
  by (simp add: used_at)

lemma used_tight: "unat qs < 65536 \<Longrightarrow> unat (used qs) < unat (avail qs) + 6 + 2 * unat qs + 4096"
  by (simp add: avail_at used_at)

lemma offsets_small: "unat qs < 65536 \<Longrightarrow> unat (size qs) < 2 ^ 24"
  by (simp add: size_at used_at)

lemmas layout = desc_below_avail avail_below_used used_below_end avail_at

end

text \<open>The three functions of each driver are the same computation, in words that wrap.\<close>

lemma virtq_layoutI:
  fixes avail used sz :: "usize \<Rightarrow> usize"
  assumes avail: "\<And>qs. avail qs = qs * 16"
    and used: "\<And>qs. used qs = (avail qs + 6 + 2 * qs + 4096 - 1) AND NOT (4096 - 1)"
    and sz: "\<And>qs. sz qs = (used qs + 6 + 8 * qs + 4096 - 1) AND NOT (4096 - 1)"
  shows "virtq_layout avail used sz"
proof
  fix qs :: usize
  assume qs: "unat qs < 65536"
  show a: "unat (avail qs) = 16 * unat qs"
    using qs by (simp add: avail unat_word_ariths)
  have "unat (avail qs + 6 + 2 * qs) = 18 * unat qs + 6"
    using qs a by (simp add: unat_word_ariths)
  then show u: "unat (used qs) = (18 * unat qs + 6 + 4095) div 4096 * 4096"
    using qs unat_page_up [of "avail qs + 6 + 2 * qs"] by (simp only: used) simp
  have "unat (used qs + 6 + 8 * qs) = unat (used qs) + 6 + 8 * unat qs"
    using qs u by (simp add: unat_word_ariths)
  then show "unat (sz qs) = (unat (used qs) + 6 + 8 * unat qs + 4095) div 4096 * 4096"
    using qs u unat_page_up [of "used qs + 6 + 8 * qs"] by (simp only: sz) simp
qed

section \<open>The device's view of a queue\<close>

record desc =
  d_addr :: nat
  d_len :: nat
  d_flags :: "16 word"
  d_next :: nat

definition desc_at :: "ram \<Rightarrow> nat \<Rightarrow> nat \<Rightarrow> desc" where
  "desc_at r q i =
     \<lparr>d_addr = unat (from_le64 (mem_read r (q + 16 * i) 8)),
      d_len = unat (from_le32 (mem_read r (q + 16 * i + 8) 4)),
      d_flags = from_le16 (mem_read r (q + 16 * i + 12) 2),
      d_next = unat (from_le16 (mem_read r (q + 16 * i + 14) 2))\<rparr>"

text \<open>Two blocks of memory without a common byte.\<close>

definition apart :: "nat \<Rightarrow> nat \<Rightarrow> nat \<Rightarrow> nat \<Rightarrow> bool" where
  "apart a n b k \<longleftrightarrow> a + n \<le> b \<or> b + k \<le> a"

lemma mem_read_apart:
  "apart a n b (length bs) \<Longrightarrow> mem_read (mem_write r b bs) a n = mem_read r a n"
  by (simp add: apart_def mem_read_write_disjoint)

lemma apart_inside: "apart a n b k \<Longrightarrow> off + j \<le> k \<Longrightarrow> apart a n (b + off) j"
  by (auto simp: apart_def)

lemma apart_part: "apart a n b k \<Longrightarrow> off + j \<le> n \<Longrightarrow> apart (a + off) j b k"
  by (auto simp: apart_def)

lemma apart_sym: "apart a n b k \<longleftrightarrow> apart b k a n"
  by (auto simp: apart_def)

lemma desc_at_cong:
  assumes "\<And>x. q + 16 * i \<le> x \<Longrightarrow> x < q + 16 * i + 16 \<Longrightarrow> r x = r' x"
  shows "desc_at r q i = desc_at r' q i"
proof -
  have "mem_read r (q + 16 * i + k) n = mem_read r' (q + 16 * i + k) n" if "k + n \<le> 16" for k n
    by (rule mem_read_cong) (use assms that in auto)
  from this [of 0 8] this [of 8 4] this [of 12 2] this [of 14 2] show ?thesis
    by (simp add: desc_at_def)
qed

section \<open>Cells of shared memory\<close>

text \<open>The 16, 32 and 64 bit cells of a ring, as both sides read them.\<close>

definition c16 :: "ram \<Rightarrow> nat \<Rightarrow> u16" where "c16 r a = from_le16 (mem_read r a 2)"
definition c32 :: "ram \<Rightarrow> nat \<Rightarrow> nat" where "c32 r a = unat (from_le32 (mem_read r a 4))"
definition c64 :: "ram \<Rightarrow> nat \<Rightarrow> nat" where "c64 r a = unat (from_le64 (mem_read r a 8))"

lemma c_same [simp]:
  "c16 (mem_write r a (to_le16 v)) a = v" "c32 (mem_write r a (to_le32 w)) a = unat w"
  "c64 (mem_write r a (to_le64 x)) a = unat x"
  by (simp_all add: c16_def c32_def c64_def mem_read_write_same)

lemma c_other:
  "a + 2 \<le> b \<or> b + length bs \<le> a \<Longrightarrow> c16 (mem_write r b bs) a = c16 r a"
  "a + 4 \<le> b \<or> b + length bs \<le> a \<Longrightarrow> c32 (mem_write r b bs) a = c32 r a"
  "a + 8 \<le> b \<or> b + length bs \<le> a \<Longrightarrow> c64 (mem_write r b bs) a = c64 r a"
  by (simp_all add: c16_def c32_def c64_def mem_read_write_disjoint)

lemma zero_cell: "a \<le> b \<Longrightarrow> b + 2 \<le> a + n \<Longrightarrow> c16 (mem_write r a (replicate n 0)) b = 0"
  by (simp add: c16_def mem_read_write_inside bslice_def from_le16_def numeral_2_eq_2)

text \<open>A free-running 16-bit index, and the ring slot it stands for when the queue size divides \<open>2 ^ 16\<close>.\<close>

lemma index_slot: "qs dvd 65536 \<Longrightarrow> unat (of_nat k :: u16) mod qs = k mod qs"
  by (simp add: unat_of_nat mod_mod_cancel)

lemma index_eq: "k \<le> j \<Longrightarrow> j < k + 65536 \<Longrightarrow> (of_nat k :: u16) = of_nat j \<longleftrightarrow> k = j"
proof
  assume "k \<le> j" "j < k + 65536" "(of_nat k :: u16) = of_nat j"
  then have "k mod 65536 = j mod 65536" by (simp add: word_unat_eq_iff unat_of_nat)
  then have "65536 dvd j - k" using mod_eq_dvd_iff_nat [of k j 65536] \<open>k \<le> j\<close> by (simp add: eq_commute)
  with \<open>k \<le> j\<close> \<open>j < k + 65536\<close> show "k = j" by (auto dest: dvd_imp_le)
qed simp

lemma slots_apart: "j < k \<Longrightarrow> k < j + n \<Longrightarrow> j mod n \<noteq> k mod (n :: nat)"
proof
  assume "j < k" "k < j + n" "j mod n = k mod n"
  then have "n dvd k - j" using mod_eq_dvd_iff_nat [of j k n] by (simp add: eq_commute)
  with \<open>j < k\<close> \<open>k < j + n\<close> show False by (auto dest: dvd_imp_le)
qed

end
