(* ===== verification/Blk.thy ===== *)
theory Blk
  imports Virtq
begin

text \<open>
  The legacy VirtIO block driver (\<^verbatim>\<open>blk.rs\<close>). One request at a time: a header, the data buffer
  and a status byte as a chain of three descriptors, published in the available ring, then a poll
  of the used index.

  Rust's stack and heap place the request header, the status byte and the caller's buffer; the
  addresses are a parameter (\<open>frame\<close>). Pointers are addresses (\<open>nat\<close>), and a pointer stored in a
  descriptor is its 64-bit image. The device is the parameter \<open>hw\<close>.
\<close>

section \<open>Constants and layout\<close>

definition REG_QUEUE_PFN :: u16 where "REG_QUEUE_PFN = 0x08"
definition REG_QUEUE_SIZE :: u16 where "REG_QUEUE_SIZE = 0x0C"
definition REG_QUEUE_SEL :: u16 where "REG_QUEUE_SEL = 0x0E"
definition REG_QUEUE_NOTIFY :: u16 where "REG_QUEUE_NOTIFY = 0x10"
definition REG_STATUS :: u16 where "REG_STATUS = 0x12"
definition REG_GUEST_FEATURES :: u16 where "REG_GUEST_FEATURES = 0x04"

definition VRING_DESC_F_NEXT :: u16 where "VRING_DESC_F_NEXT = 1"
definition VRING_DESC_F_WRITE :: u16 where "VRING_DESC_F_WRITE = 2"
definition VIRTIO_BLK_T_IN :: u32 where "VIRTIO_BLK_T_IN = 0"
definition VIRTIO_BLK_T_OUT :: u32 where "VIRTIO_BLK_T_OUT = 1"
definition PAGE_SIZE :: usize where "PAGE_SIZE = 4096"
definition POLL_LIMIT :: nat where "POLL_LIMIT = 10000000"
definition HEADER_DESC :: nat where "HEADER_DESC = 0"
definition DATA_DESC :: nat where "DATA_DESC = 1"
definition STATUS_DESC :: nat where "STATUS_DESC = 2"

lemmas blk_consts =
  VRING_DESC_F_NEXT_def VRING_DESC_F_WRITE_def VIRTIO_BLK_T_IN_def VIRTIO_BLK_T_OUT_def
  HEADER_DESC_def DATA_DESC_def STATUS_DESC_def

definition avail_offset :: "usize \<Rightarrow> usize" where
  "avail_offset qs = qs * 16"

definition used_offset :: "usize \<Rightarrow> usize" where
  "used_offset qs =
     (let avail_end = avail_offset qs + 6 + 2 * qs
      in (avail_end + PAGE_SIZE - 1) AND NOT (PAGE_SIZE - 1))"

definition queue_mem_size :: "usize \<Rightarrow> usize" where
  "queue_mem_size qs =
     (let used_end = used_offset qs + 6 + 8 * qs
      in (used_end + PAGE_SIZE - 1) AND NOT (PAGE_SIZE - 1))"

interpretation vq: virtq_layout avail_offset used_offset queue_mem_size
  by (rule virtq_layoutI)
     (simp_all only: avail_offset_def used_offset_def queue_mem_size_def PAGE_SIZE_def Let_def)

section \<open>The driver\<close>

record blk =
  io_base :: "16 word"
  queue_size :: "64 word"
  q_mem :: nat
  next_avail :: "16 word"
  last_used :: "16 word"

record frame =
  hdr_at :: nat
  sts_at :: nat
  buf_at :: nat

definition desc_write :: "nat \<Rightarrow> nat \<Rightarrow> u64 \<Rightarrow> u32 \<Rightarrow> u16 \<Rightarrow> u16 \<Rightarrow> 'd machine \<Rightarrow> 'd machine" where
  "desc_write mem i addr len flags next m =
     (let p = mem + i * 16 in
      wr16 (p + 14) next (wr16 (p + 12) flags (wr32 (p + 8) len (wr64 p addr m))))"

text \<open>\<open>for _ in 0..POLL_LIMIT\<close>: the used index is read until it differs from \<open>last_used\<close>.\<close>

fun poll_used :: "'d hw \<Rightarrow> nat \<Rightarrow> nat \<Rightarrow> u16 \<Rightarrow> 'd machine \<Rightarrow> bool \<times> 'd machine" where
  "poll_used hw 0 used_idx lu m = (False, m)"
| "poll_used hw (Suc n) used_idx lu m =
     (let m = sync hw m in
      if rd16 used_idx m \<noteq> lu then (True, m) else poll_used hw n used_idx lu m)"

definition do_io :: "profile \<Rightarrow> 'd hw \<Rightarrow> frame \<Rightarrow> u32 \<Rightarrow> u64 \<Rightarrow> nat \<Rightarrow> nat \<Rightarrow>
    blk \<times> 'd machine \<Rightarrow> (bool \<times> blk \<times> 'd machine) option" where
  "do_io p hw f req_type lba data_ptr data_len = (\<lambda>(b, m). do {
     let m = wr_bytes (hdr_at f) (replicate 16 0) m;
     let m = wr_bytes (sts_at f) [0] m;
     let m = wr32 (hdr_at f) req_type m;
     let m = wr32 (hdr_at f + 4) 0 m;
     let m = wr64 (hdr_at f + 8) lba m;
     let qs = queue_size b;
     let m = desc_write (q_mem b) HEADER_DESC (of_nat (hdr_at f)) 16
               VRING_DESC_F_NEXT (of_nat DATA_DESC) m;
     let data_flags = VRING_DESC_F_NEXT OR
               (if req_type = VIRTIO_BLK_T_IN then VRING_DESC_F_WRITE else 0);
     let m = desc_write (q_mem b) DATA_DESC (of_nat data_ptr) (of_nat data_len)
               data_flags (of_nat STATUS_DESC) m;
     let m = desc_write (q_mem b) STATUS_DESC (of_nat (sts_at f)) 1 VRING_DESC_F_WRITE 0 m;
     avail_slot \<leftarrow> (if (ucast qs :: u16) = 0 then None
                   else Some (unat (next_avail b mod ucast qs)));
     let m = wr16 (q_mem b + unat (avail_offset qs) + 4 + avail_slot * 2) (of_nat HEADER_DESC) m;
     let b = b\<lparr>next_avail := next_avail b + 1\<rparr>;
     let m = wr16 (q_mem b + unat (avail_offset qs) + 2) (next_avail b) m;
     notify \<leftarrow> add_ovf p (io_base b) REG_QUEUE_NOTIFY;
     let m = outw hw notify 0 m;
     let (finished, m) = poll_used hw POLL_LIMIT (q_mem b + unat (used_offset qs) + 2) (last_used b) m;
     if \<not> finished then Some (False, b, m)
     else Some (ram m (sts_at f) = 0, b\<lparr>last_used := last_used b + 1\<rparr>, m)
   })"

text \<open>
  \<open>read_sectors\<close> lends the caller's buffer to the device: it is in memory during the request and
  comes back with whatever the device wrote. \<open>write_sectors\<close> lends it read-only.
\<close>

definition read_sectors :: "profile \<Rightarrow> 'd hw \<Rightarrow> frame \<Rightarrow> blk \<times> 'd machine \<Rightarrow> u64 \<Rightarrow> bytes \<Rightarrow>
    (bool \<times> bytes \<times> (blk \<times> 'd machine)) option" where
  "read_sectors p hw f s lba buf = do {
     let (b, m) = s;
     let m = wr_bytes (buf_at f) buf m;
     (ok, b, m) \<leftarrow> do_io p hw f VIRTIO_BLK_T_IN lba (buf_at f) (length buf) (b, m);
     Some (ok, mem_read (ram m) (buf_at f) (length buf), (b, m))
   }"

definition write_sectors :: "profile \<Rightarrow> 'd hw \<Rightarrow> frame \<Rightarrow> blk \<times> 'd machine \<Rightarrow> u64 \<Rightarrow> bytes \<Rightarrow>
    (bool \<times> (blk \<times> 'd machine)) option" where
  "write_sectors p hw f s lba data = do {
     let (b, m) = s;
     let m = wr_bytes (buf_at f) data m;
     (ok, b, m) \<leftarrow> do_io p hw f VIRTIO_BLK_T_OUT lba (buf_at f) (length data) (b, m);
     Some (ok, (b, m))
   }"

end
