(* ===== verification/BlkDevice.thy ===== *)
theory BlkDevice
  imports Blk
begin

text \<open>
  The block driver against a block device. \<open>serve\<close> is the VirtIO specification of the device's
  side of one request: it reads the available ring, follows the descriptor chain in memory,
  performs the transfer, writes the status byte and publishes a used element. A device is
  conforming when, notified, it does exactly that after fewer polls than the driver is ready to
  make. The result is the contract \<open>sector_device\<close> that the key-value store is built on.
\<close>

section \<open>The device's side of a request\<close>

record host =
  image :: "nat \<Rightarrow> 8 word list"
  capacity :: nat
  seen :: "16 word"

fun chain :: "ram \<Rightarrow> nat \<Rightarrow> nat \<Rightarrow> nat \<Rightarrow> desc list" where
  "chain r q 0 i = []"
| "chain r q (Suc n) i =
     (let d = desc_at r q i in
      if d_flags d AND 1 \<noteq> 0 then d # chain r q n (d_next d) else [d])"

definition transfer :: "u32 \<Rightarrow> nat \<Rightarrow> desc \<Rightarrow> host \<times> ram \<Rightarrow> bool \<times> host \<times> ram" where
  "transfer typ lba d = (\<lambda>(h, r).
     let n = d_len d div 512 in
     if \<not> 512 dvd d_len d \<or> capacity h < lba + n then (False, h, r)
     else if typ = 0 \<and> d_flags d AND 2 \<noteq> 0 then
       (True, h, mem_write r (d_addr d) (concat (map (image h) [lba..<lba + n])))
     else if typ = 1 \<and> d_flags d AND 2 = 0 then
       (True, h\<lparr>image := (\<lambda>i. if lba \<le> i \<and> i < lba + n
          then mem_read r (d_addr d + 512 * (i - lba)) 512 else image h i)\<rparr>, r)
     else (False, h, r))"

definition spec_used :: "nat \<Rightarrow> nat" where
  "spec_used qs = (18 * qs + 6 + 4095) div 4096 * 4096"

definition serve :: "nat \<Rightarrow> nat \<Rightarrow> host \<times> ram \<Rightarrow> host \<times> ram" where
  "serve qs q = (\<lambda>(h, r).
     if from_le16 (mem_read r (q + 16 * qs + 2) 2) = seen h then (h, r)
     else
       let head = unat (from_le16 (mem_read r (q + 16 * qs + 4 + 2 * (unat (seen h) mod qs)) 2))
       in case chain r q qs head of
         [req, dat, sts] \<Rightarrow>
           let (ok, h, r) = transfer (from_le32 (mem_read r (d_addr req) 4))
                 (unat (from_le64 (mem_read r (d_addr req + 8) 8))) dat (h, r);
               r = mem_write r (d_addr sts) [if ok then 0 else 1];
               u = q + spec_used qs;
               idx = from_le16 (mem_read r (u + 2) 2);
               r = mem_write r (u + 4 + 8 * (unat idx mod qs)) (to_le32 (of_nat head));
               r = mem_write r (u + 8 + 8 * (unat idx mod qs)) (to_le32 (of_nat (d_len dat)));
               r = mem_write r (u + 2) (to_le16 (idx + 1))
           in (h\<lparr>seen := seen h + 1\<rparr>, r)
       | _ \<Rightarrow> (h, r))"

definition blk_conforming :: "'d hw \<Rightarrow> ('d \<Rightarrow> host) \<Rightarrow> u16 \<Rightarrow> nat \<Rightarrow> nat \<Rightarrow> bool" where
  "blk_conforming hw view notify qs q \<longleftrightarrow>
     (\<forall>m. \<exists>k<POLL_LIMIT.
        let m0 = outw hw notify 0 m in
        (\<forall>i\<le>k. ram ((sync hw ^^ i) m0) = ram m)
        \<and> (view (dev ((sync hw ^^ Suc k) m0)), ram ((sync hw ^^ Suc k) m0))
            = serve qs q (view (dev m), ram m))"

section \<open>The contract of a sector device\<close>

locale sector_device =
  fixes rd :: "'s \<Rightarrow> u64 \<Rightarrow> bytes \<Rightarrow> (bool \<times> bytes \<times> 's) option"
    and wr :: "'s \<Rightarrow> u64 \<Rightarrow> bytes \<Rightarrow> (bool \<times> 's) option"
    and img :: "'s \<Rightarrow> nat \<Rightarrow> bytes"
    and cap :: "'s \<Rightarrow> nat"
    and inv :: "'s \<Rightarrow> bool"
  assumes img_len: "inv s \<Longrightarrow> length (img s n) = 512"
    and rd_sector: "inv s \<Longrightarrow> length buf = 512 \<Longrightarrow>
      \<exists>buf' s'. rd s lba buf = Some (unat lba < cap s, buf', s') \<and> inv s' \<and> length buf' = 512
        \<and> (unat lba < cap s \<longrightarrow> buf' = img s (unat lba)) \<and> img s' = img s \<and> cap s' = cap s"
    and wr_sector: "inv s \<Longrightarrow> length data = 512 \<Longrightarrow>
      \<exists>s'. wr s lba data = Some (unat lba < cap s, s') \<and> inv s' \<and> cap s' = cap s
        \<and> img s' = (if unat lba < cap s then (img s)(unat lba := data) else img s)"

section \<open>The request in memory\<close>

definition stage_hdr :: "frame \<Rightarrow> u32 \<Rightarrow> u64 \<Rightarrow> 'd machine \<Rightarrow> 'd machine" where
  "stage_hdr f req lba m =
     wr64 (hdr_at f + 8) lba (wr32 (hdr_at f + 4) 0 (wr32 (hdr_at f) req
       (wr_bytes (sts_at f) [0] (wr_bytes (hdr_at f) (replicate 16 0) m))))"

definition data_flags :: "u32 \<Rightarrow> u16" where
  "data_flags req = VRING_DESC_F_NEXT OR (if req = VIRTIO_BLK_T_IN then VRING_DESC_F_WRITE else 0)"

definition stage_ring :: "frame \<Rightarrow> u32 \<Rightarrow> nat \<Rightarrow> nat \<Rightarrow> blk \<Rightarrow> 'd machine \<Rightarrow> 'd machine" where
  "stage_ring f req ptr len b m =
     (let qs = queue_size b; av = q_mem b + unat (avail_offset qs);
          m = desc_write (q_mem b) 0 (of_nat (hdr_at f)) 16 1 1 m;
          m = desc_write (q_mem b) 1 (of_nat ptr) (of_nat len) (data_flags req) 2 m;
          m = desc_write (q_mem b) 2 (of_nat (sts_at f)) 1 2 0 m;
          m = wr16 (av + 4 + unat (next_avail b mod ucast qs) * 2) 0 m
      in wr16 (av + 2) (next_avail b + 1) m)"

lemma do_io_staged:
  assumes "(ucast (queue_size b) :: u16) \<noteq> 0" and "unat (io_base b) + 16 < 65536"
  shows "do_io p hw f req lba ptr len (b, m) =
    (let b' = b\<lparr>next_avail := next_avail b + 1\<rparr>;
         m1 = stage_ring f req ptr len b (stage_hdr f req lba m);
         (fin, m3) = poll_used hw POLL_LIMIT (q_mem b + unat (used_offset (queue_size b)) + 2)
           (last_used b) (outw hw (io_base b + 16) 0 m1)
     in if \<not> fin then Some (False, b', m3)
        else Some (ram m3 (sts_at f) = 0, b'\<lparr>last_used := last_used b + 1\<rparr>, m3))"
proof -
  have "add_ovf p (io_base b) REG_QUEUE_NOTIFY = Some (io_base b + 16)"
    using assms(2) add_ovf_exact(1) [of "io_base b" REG_QUEUE_NOTIFY p]
    by (simp add: REG_QUEUE_NOTIFY_def)
  then show ?thesis
    using assms(1)
    by (simp add: do_io_def stage_ring_def stage_hdr_def data_flags_def blk_consts Let_def
        split: prod.splits)
qed

text \<open>The poll stops at the first sync after which the used index has moved.\<close>

lemma poll_used_stops:
  "k < n \<Longrightarrow> \<forall>i. 0 < i \<and> i \<le> k \<longrightarrow> rd16 a ((sync hw ^^ i) m) = lu \<Longrightarrow>
   rd16 a ((sync hw ^^ Suc k) m) \<noteq> lu \<Longrightarrow>
   poll_used hw n a lu m = (True, (sync hw ^^ Suc k) m)"
proof (induction k arbitrary: n m)
  case 0
  then show ?case by (cases n) simp_all
next
  case (Suc k)
  obtain n' where n: "n = Suc n'" using Suc.prems(1) by (cases n) auto
  have step: "(sync hw ^^ i) (sync hw m) = (sync hw ^^ Suc i) m" for i
    by (simp add: funpow_swap1)
  have "rd16 a (sync hw m) = lu" using Suc.prems(2) [rule_format, of 1] by simp
  moreover have "poll_used hw n' a lu (sync hw m) = (True, (sync hw ^^ Suc k) (sync hw m))"
    using Suc.prems n by (intro Suc.IH) (auto simp only: step)
  ultimately show ?case by (simp only: n poll_used.simps step Let_def if_False not_True_eq_False simp_thms)
qed

section \<open>What the device finds in memory\<close>

text \<open>Where the queue and a request live: apart from each other, below \<open>2 ^ 64\<close>.\<close>

definition placed :: "frame \<Rightarrow> usize \<Rightarrow> nat \<Rightarrow> u16 \<Rightarrow> bool" where
  "placed f qs q io \<longleftrightarrow>
     3 \<le> unat qs \<and> unat qs < 65536 \<and> unat io + 16 < 65536
     \<and> apart (hdr_at f) 16 (sts_at f) 1 \<and> apart (hdr_at f) 16 (buf_at f) 512
     \<and> apart (sts_at f) 1 (buf_at f) 512
     \<and> apart (hdr_at f) 16 q (unat (queue_mem_size qs))
     \<and> apart (sts_at f) 1 q (unat (queue_mem_size qs))
     \<and> apart (buf_at f) 512 q (unat (queue_mem_size qs))
     \<and> hdr_at f < 2 ^ 64 \<and> sts_at f < 2 ^ 64 \<and> buf_at f < 2 ^ 64"

lemma slot_less: "unat (qs :: usize) < 65536 \<Longrightarrow> 0 < unat qs \<Longrightarrow>
    unat (i mod (ucast qs :: u16)) = unat i mod unat qs"
  by (simp add: unat_mod_distrib unsigned_ucast_eq take_bit_eq_mod)

text \<open>The three descriptors, the ring entry and the index, as the device reads them.\<close>

lemma desc_write_here:
  "desc_at (ram (desc_write q i addr len flags next m)) q i =
     \<lparr>d_addr = unat addr, d_len = unat len, d_flags = flags, d_next = unat next\<rparr>"
  by (simp add: desc_at_def desc_write_def Let_def mem_simps mult.commute)

lemma desc_write_outside:
  assumes "x < q + 16 * i \<or> q + 16 * i + 16 \<le> x"
  shows "ram (desc_write q i addr len flags next m) x = ram m x"
  using assms by (elim disjE) (simp_all add: desc_write_def Let_def mem_write_outside mult.commute)

lemma desc_write_elsewhere:
  assumes "i \<noteq> j"
  shows "desc_at (ram (desc_write q i addr len flags next m)) q j = desc_at (ram m) q j"
proof (rule desc_at_cong)
  fix x assume "q + 16 * j \<le> x" "x < q + 16 * j + 16"
  then have "x < q + 16 * i \<or> q + 16 * i + 16 \<le> x" using assms by linarith
  then show "ram (desc_write q i addr len flags next m) x = ram m x" by (rule desc_write_outside)
qed

definition stage_descs :: "frame \<Rightarrow> u32 \<Rightarrow> nat \<Rightarrow> nat \<Rightarrow> nat \<Rightarrow> 'd machine \<Rightarrow> 'd machine" where
  "stage_descs f req ptr len q m =
     desc_write q 2 (of_nat (sts_at f)) 1 2 0
       (desc_write q 1 (of_nat ptr) (of_nat len) (data_flags req) 2
         (desc_write q 0 (of_nat (hdr_at f)) 16 1 1 m))"

lemma stage_ring_descs:
  assumes "3 \<le> unat (queue_size b)" and "unat (queue_size b) < 65536"
  shows "\<exists>slot < unat (queue_size b). slot = unat (next_avail b) mod unat (queue_size b) \<and>
    stage_ring f req ptr len b m =
      wr16 (q_mem b + 16 * unat (queue_size b) + 2) (next_avail b + 1)
        (wr16 (q_mem b + 16 * unat (queue_size b) + 4 + slot * 2) 0
          (stage_descs f req ptr len (q_mem b) m))"
  using assms by (simp add: stage_ring_def stage_descs_def slot_less vq.avail_at Let_def)

lemma stage_descs_outside:
  "x < q \<or> q + 48 \<le> x \<Longrightarrow> ram (stage_descs f req ptr len q m) x = ram m x"
  by (elim disjE) (simp_all add: stage_descs_def desc_write_outside)

lemma stage_ring_outside:
  assumes "3 \<le> unat (queue_size b)" and "unat (queue_size b) < 65536"
    and "x < q_mem b \<or> q_mem b + unat (queue_mem_size (queue_size b)) \<le> x"
  shows "ram (stage_ring f req ptr len b m) x = ram m x"
proof -
  obtain slot where slot: "slot < unat (queue_size b)"
    and ring: "stage_ring f req ptr len b m =
      wr16 (q_mem b + 16 * unat (queue_size b) + 2) (next_avail b + 1)
        (wr16 (q_mem b + 16 * unat (queue_size b) + 4 + slot * 2) 0
          (stage_descs f req ptr len (q_mem b) m))"
    using stage_ring_descs [OF assms(1,2)] by blast
  have "18 * unat (queue_size b) + 6 \<le> unat (queue_mem_size (queue_size b))"
    using vq.avail_below_used [OF assms(2)] vq.used_below_end [OF assms(2)] vq.avail_at [OF assms(2)]
    by linarith
  with slot assms(1,3) show ?thesis
    by (elim disjE) (simp_all add: ring mem_write_outside stage_descs_outside)
qed

lemma staged_ring:
  assumes "3 \<le> unat (queue_size b)" and "unat (queue_size b) < 65536"
    and "hdr_at f < 2 ^ 64" and "sts_at f < 2 ^ 64" and "ptr < 2 ^ 64" and "len < 2 ^ 32"
    and r_def: "r = ram (stage_ring f req ptr len b m)"
  shows "desc_at r (q_mem b) 0 = \<lparr>d_addr = hdr_at f, d_len = 16, d_flags = 1, d_next = 1\<rparr>" (is ?d0)
    and "desc_at r (q_mem b) 1
      = \<lparr>d_addr = ptr, d_len = len, d_flags = data_flags req, d_next = 2\<rparr>" (is ?d1)
    and "desc_at r (q_mem b) 2 = \<lparr>d_addr = sts_at f, d_len = 1, d_flags = 2, d_next = 0\<rparr>" (is ?d2)
    and "from_le16 (mem_read r (q_mem b + 16 * unat (queue_size b) + 2) 2) = next_avail b + 1" (is ?idx)
    and "from_le16 (mem_read r (q_mem b + 16 * unat (queue_size b) + 4
        + 2 * (unat (next_avail b) mod unat (queue_size b))) 2) = 0" (is ?ring)
    and "mem_read r (q_mem b + unat (used_offset (queue_size b)) + 2) 2
      = mem_read (ram m) (q_mem b + unat (used_offset (queue_size b)) + 2) 2" (is ?used)
proof -
  obtain slot where slot: "slot < unat (queue_size b)"
    "slot = unat (next_avail b) mod unat (queue_size b)"
    and ring: "stage_ring f req ptr len b m =
      wr16 (q_mem b + 16 * unat (queue_size b) + 2) (next_avail b + 1)
        (wr16 (q_mem b + 16 * unat (queue_size b) + 4 + slot * 2) 0
          (stage_descs f req ptr len (q_mem b) m))"
    using stage_ring_descs [OF assms(1,2)] by blast
  have "desc_at r (q_mem b) i = desc_at (ram (stage_descs f req ptr len (q_mem b) m)) (q_mem b) i"
    if "i < 3" for i
    unfolding r_def by (rule desc_at_cong) (use that assms(1) in \<open>simp add: ring mem_write_outside\<close>)
  then show ?d0 ?d1 ?d2
    using assms(3-6)
    by (simp_all add: stage_descs_def desc_write_here desc_write_elsewhere unat_of_nat)
  have "mem_read (ram (stage_descs f req ptr len (q_mem b) m))
      (q_mem b + unat (used_offset (queue_size b)) + 2) 2
      = mem_read (ram m) (q_mem b + unat (used_offset (queue_size b)) + 2) 2"
    using assms(1) vq.avail_below_used [OF assms(2)]
    by (intro mem_read_cong stage_descs_outside) (simp add: vq.avail_at [OF assms(2)])
  then show ?idx ?ring ?used
    using slot(1) vq.avail_below_used [OF assms(2)] vq.avail_at [OF assms(2)]
    by (simp_all add: r_def ring mem_simps slot(2) [symmetric])
qed

lemma staged_hdr:
  assumes "apart (hdr_at f) 16 (sts_at f) 1"
  shows "from_le32 (mem_read (ram (stage_hdr f req lba m)) (hdr_at f) 4) = req"
    and "from_le64 (mem_read (ram (stage_hdr f req lba m)) (hdr_at f + 8) 8) = lba"
  using assms by (auto simp add: stage_hdr_def mem_simps apart_def)

lemma stage_hdr_outside:
  assumes "apart a n (hdr_at f) 16" and "apart a n (sts_at f) 1"
  shows "mem_read (ram (stage_hdr f req lba m)) a n = mem_read (ram m) a n"
  using assms apart_inside [OF assms(1), of 0 4] apart_inside [OF assms(1), of 4 4]
    apart_inside [OF assms(1), of 8 8]
  by (simp add: stage_hdr_def mem_read_apart)

lemma stage_ring_apart:
  assumes "3 \<le> unat (queue_size b)" and "unat (queue_size b) < 65536"
    and "apart a n (q_mem b) (unat (queue_mem_size (queue_size b)))"
  shows "mem_read (ram (stage_ring f req ptr len b m)) a n = mem_read (ram m) a n"
  by (rule mem_read_cong, rule stage_ring_outside [OF assms(1,2)])
     (use assms(3) in \<open>auto simp: apart_def\<close>)

lemma spec_used: "unat qs < 65536 \<Longrightarrow> spec_used (unat qs) = unat (used_offset qs)"
  by (simp add: spec_used_def vq.used_at)

text \<open>The device's completion touches the used ring only.\<close>

definition complete :: "nat \<Rightarrow> nat \<Rightarrow> nat \<Rightarrow> ram \<Rightarrow> ram" where
  "complete qs q len r =
     (let u = q + spec_used qs; idx = from_le16 (mem_read r (u + 2) 2);
          r = mem_write r (u + 4 + 8 * (unat idx mod qs)) (to_le32 0);
          r = mem_write r (u + 8 + 8 * (unat idx mod qs)) (to_le32 (of_nat len))
      in mem_write r (u + 2) (to_le16 (idx + 1)))"

lemma complete_idx:
  "from_le16 (mem_read (complete qs q len r) (q + spec_used qs + 2) 2)
     = from_le16 (mem_read r (q + spec_used qs + 2) 2) + 1"
  by (simp add: complete_def Let_def mem_simps)

lemma complete_outside:
  assumes "0 < unat qs" and "unat (qs :: usize) < 65536" and "apart a n q (unat (queue_mem_size qs))"
  shows "mem_read (complete (unat qs) q len r) a n = mem_read r a n"
proof -
  define slot where "slot = unat (from_le16 (mem_read r (q + spec_used (unat qs) + 2) 2)) mod unat qs"
  have "slot < unat qs" using assms(1) by (simp add: slot_def)
  then have "spec_used (unat qs) + (4 + 8 * slot) + 4 \<le> unat (queue_mem_size qs)"
    and "spec_used (unat qs) + (8 + 8 * slot) + 4 \<le> unat (queue_mem_size qs)"
    and "spec_used (unat qs) + 2 + 2 \<le> unat (queue_mem_size qs)"
    using vq.used_below_end [OF assms(2)] by (simp_all add: spec_used assms(2))
  from this [THEN apart_inside [OF assms(3)]] show ?thesis
    by (simp add: complete_def Let_def mem_read_apart add.assoc slot_def)
qed

section \<open>One request end to end\<close>

text \<open>What a request for one sector must do to the disk and to the caller's buffer.\<close>

definition in_range :: "host \<Rightarrow> u64 \<Rightarrow> bool" where
  "in_range h lba \<longleftrightarrow> unat lba < capacity h"

lemma data_flags_bits:
  "data_flags 0 = 3" "data_flags 1 = 1" "data_flags req AND 1 \<noteq> 0"
  by (simp_all add: data_flags_def blk_consts)

lemma serve_chain:
  assumes "from_le16 (mem_read r (q + 16 * qs + 2) 2) \<noteq> seen h"
    and "from_le16 (mem_read r (q + 16 * qs + 4 + 2 * (unat (seen h) mod qs)) 2) = 0"
    and "chain r q qs 0 = [d0, d1, d2]" and "seen h' = seen h"
    and "transfer (from_le32 (mem_read r (d_addr d0) 4)) (unat (from_le64 (mem_read r (d_addr d0 + 8) 8))) d1 (h, r)
      = (ok, h', r')"
  shows "serve qs q (h, r) = (h'\<lparr>seen := seen h + 1\<rparr>,
    complete qs q (d_len d1) (mem_write r' (d_addr d2) [if ok then 0 else 1]))"
  using assms by (simp add: serve_def complete_def Let_def)

lemma sector_transfer:
  assumes "d_addr d = buf" and "d_len d = 512" and "d_flags d = data_flags req"
    and "mem_read r buf 512 = data" and "req = 0 \<or> req = 1"
  shows "transfer req (unat lba) d (h, r) =
    (in_range h lba,
     if req = 1 \<and> in_range h lba then h\<lparr>image := (image h)(unat lba := data)\<rparr> else h,
     if req = 0 \<and> in_range h lba then mem_write r buf (image h (unat lba)) else r)"
proof -
  have "(\<lambda>i. if unat lba \<le> i \<and> i < unat lba + 1
      then mem_read r (d_addr d + 512 * (i - unat lba)) 512 else image h i) = (image h)(unat lba := data)"
    by (auto simp: fun_eq_iff assms(1,4))
  with assms show ?thesis by (auto simp: transfer_def in_range_def Let_def data_flags_bits)
qed

text \<open>The staged request as the device finds it.\<close>

lemma staged_request:
  assumes pl: "placed f qs q io" and b: "queue_size b = qs" "q_mem b = q"
    and r: "r = ram (stage_ring f req (buf_at f) 512 b (stage_hdr f req lba m))"
  shows "chain r q (unat qs) 0 = [\<lparr>d_addr = hdr_at f, d_len = 16, d_flags = 1, d_next = 1\<rparr>,
      \<lparr>d_addr = buf_at f, d_len = 512, d_flags = data_flags req, d_next = 2\<rparr>,
      \<lparr>d_addr = sts_at f, d_len = 1, d_flags = 2, d_next = 0\<rparr>]"
    and "from_le16 (mem_read r (q + 16 * unat qs + 2) 2) = next_avail b + 1"
    and "from_le16 (mem_read r (q + 16 * unat qs + 4 + 2 * (unat (next_avail b) mod unat qs)) 2) = 0"
    and "from_le32 (mem_read r (hdr_at f) 4) = req"
    and "from_le64 (mem_read r (hdr_at f + 8) 8) = lba"
    and "mem_read r (buf_at f) 512 = mem_read (ram m) (buf_at f) 512"
    and "mem_read r (q + unat (used_offset qs) + 2) 2 = mem_read (ram m) (q + unat (used_offset qs) + 2) 2"
proof -
  have qs: "3 \<le> unat (queue_size b)" "unat (queue_size b) < 65536"
    and lims: "hdr_at f < 2 ^ 64" "sts_at f < 2 ^ 64" "buf_at f < 2 ^ 64" "(512::nat) < 2 ^ 32"
    and hs: "apart (hdr_at f) 16 (sts_at f) 1" and hb: "apart (buf_at f) 512 (hdr_at f) 16"
    and bs: "apart (buf_at f) 512 (sts_at f) 1"
    and hq: "apart (hdr_at f) 16 q (unat (queue_mem_size qs))"
    and sq: "apart (sts_at f) 1 q (unat (queue_mem_size qs))"
    and bq: "apart (buf_at f) 512 q (unat (queue_mem_size qs))"
    using pl b by (auto simp: placed_def apart_sym)
  note ring = staged_ring [OF qs lims r, unfolded b]
  note out = stage_ring_apart [OF qs, unfolded b]
  show "from_le16 (mem_read r (q + 16 * unat qs + 2) 2) = next_avail b + 1"
    and "from_le16 (mem_read r (q + 16 * unat qs + 4 + 2 * (unat (next_avail b) mod unat qs)) 2) = 0"
    by (rule ring)+
  show "from_le32 (mem_read r (hdr_at f) 4) = req" and "from_le64 (mem_read r (hdr_at f + 8) 8) = lba"
    unfolding r using apart_part [OF hq, of 0 4] apart_part [OF hq, of 8 8]
    by (simp_all add: out staged_hdr [OF hs])
  show "mem_read r (buf_at f) 512 = mem_read (ram m) (buf_at f) 512"
    unfolding r by (simp add: out [OF bq] stage_hdr_outside [OF hb bs])
  have "unat (used_offset qs) + 2 + 2 \<le> unat (queue_mem_size qs)"
    using vq.used_below_end [of qs] qs(2) b by simp
  then show "mem_read r (q + unat (used_offset qs) + 2) 2 = mem_read (ram m) (q + unat (used_offset qs) + 2) 2"
    using ring(6) stage_hdr_outside [OF apart_part [OF hq [unfolded apart_sym [of "hdr_at f"]]]
        apart_part [OF sq [unfolded apart_sym [of "sts_at f"]]], of "unat (used_offset qs) + 2" 2 req lba m]
    by (simp only: add.assoc)
  obtain k where k: "unat qs = Suc (Suc (Suc k))"
    using le_Suc_ex [OF qs(1)] b by (auto simp: numeral_3_eq_3)
  show "chain r q (unat qs) 0 = [\<lparr>d_addr = hdr_at f, d_len = 16, d_flags = 1, d_next = 1\<rparr>,
      \<lparr>d_addr = buf_at f, d_len = 512, d_flags = data_flags req, d_next = 2\<rparr>,
      \<lparr>d_addr = sts_at f, d_len = 1, d_flags = 2, d_next = 0\<rparr>]"
    using ring(1-3) data_flags_bits(3) by (simp add: k Let_def)
qed

lemma serve_staged:
  assumes pl: "placed f qs q io" and b: "queue_size b = qs" "q_mem b = q"
    and seen: "next_avail b = seen h" and img: "\<And>n. length (image h n) = 512"
    and buf: "mem_read (ram m) (buf_at f) 512 = data"
    and r: "r = ram (stage_ring f req (buf_at f) 512 b (stage_hdr f req lba m))"
    and req: "req = 0 \<or> req = 1"
  defines "served \<equiv> serve (unat qs) q (h, r)"
  shows "fst served = (if req = 1 \<and> in_range h lba then h\<lparr>image := (image h)(unat lba := data)\<rparr> else h)
      \<lparr>seen := seen h + 1\<rparr>" (is ?host)
    and "snd served (sts_at f) = 0 \<longleftrightarrow> in_range h lba" (is ?sts)
    and "mem_read (snd served) (buf_at f) 512 =
      (if req = 0 \<and> in_range h lba then image h (unat lba) else data)" (is ?buf)
    and "from_le16 (mem_read (snd served) (q + unat (used_offset qs) + 2) 2)
      = from_le16 (mem_read (ram m) (q + unat (used_offset qs) + 2) 2) + 1" (is ?idx)
    and "mem_read r (q + unat (used_offset qs) + 2) 2
      = mem_read (ram m) (q + unat (used_offset qs) + 2) 2" (is ?used)
proof -
  have qs: "0 < unat qs" "unat qs < 65536" and bs: "apart (buf_at f) 512 (sts_at f) 1"
    and sq: "apart (sts_at f) 1 q (unat (queue_mem_size qs))"
    and bq: "apart (buf_at f) 512 q (unat (queue_mem_size qs))"
    using pl b by (auto simp: placed_def apart_sym)
  note found = staged_request [OF pl b r, unfolded seen]
  show ?used by (rule found(7))
  define r' where "r' = (if req = 0 \<and> in_range h lba then mem_write r (buf_at f) (image h (unat lba)) else r)"
  define r'' where "r'' = mem_write r' (sts_at f) [if in_range h lba then 0 else 1]"
  have tr: "transfer (from_le32 (mem_read r (hdr_at f) 4)) (unat (from_le64 (mem_read r (hdr_at f + 8) 8)))
      \<lparr>d_addr = buf_at f, d_len = 512, d_flags = data_flags req, d_next = 2\<rparr> (h, r) = (in_range h lba,
      if req = 1 \<and> in_range h lba then h\<lparr>image := (image h)(unat lba := data)\<rparr> else h, r')"
    unfolding found(4,5) r'_def by (rule sector_transfer) (use found(6) buf req in simp_all)
  have new: "from_le16 (mem_read r (q + 16 * unat qs + 2) 2) \<noteq> seen h"
    by (subst found(2)) simp
  have served: "served = ((if req = 1 \<and> in_range h lba then h\<lparr>image := (image h)(unat lba := data)\<rparr> else h)
      \<lparr>seen := seen h + 1\<rparr>, complete (unat qs) q 512 r'')"
    unfolding served_def r''_def by (subst serve_chain [OF new found(3,1)]) (simp_all add: tr)
  then show ?host by simp
  have "mem_read (snd served) (sts_at f) 1 = [if in_range h lba then 0 else 1]"
    using complete_outside [OF qs sq] by (simp add: served r''_def mem_simps)
  then show ?sts by (simp add: mem_read_def split: if_splits)
  have "mem_read (snd served) (buf_at f) 512 = mem_read r' (buf_at f) 512"
    using complete_outside [OF qs bq] bs by (simp add: served r''_def mem_read_apart)
  then show ?buf using found(6) buf img by (simp add: r'_def mem_simps)
  have used_in: "unat (used_offset qs) + 2 + 2 \<le> unat (queue_mem_size qs)"
    using vq.used_below_end [OF qs(2)] by simp
  have "mem_read r'' (q + (unat (used_offset qs) + 2)) 2 = mem_read r (q + (unat (used_offset qs) + 2)) 2"
    using apart_part [OF bq [unfolded apart_sym [of "buf_at f"]] used_in]
      apart_part [OF sq [unfolded apart_sym [of "sts_at f"]] used_in] img
    by (simp add: r''_def r'_def mem_read_apart apart_sym)
  then show ?idx
    using \<open>?used\<close> complete_idx [of "unat qs" q 512 r'']
    by (simp only: served snd_conv spec_used [OF qs(2)] add.assoc)
qed

text \<open>The driver's invariant: in step with the device, every sector 512 bytes.\<close>

definition blk_inv :: "('d \<Rightarrow> host) \<Rightarrow> usize \<Rightarrow> nat \<Rightarrow> u16 \<Rightarrow> blk \<times> 'd machine \<Rightarrow> bool" where
  "blk_inv view qs q io = (\<lambda>(b, m).
     queue_size b = qs \<and> q_mem b = q \<and> io_base b = io
     \<and> next_avail b = seen (view (dev m))
     \<and> last_used b = rd16 (q + unat (used_offset qs) + 2) m
     \<and> (\<forall>n. length (image (view (dev m)) n) = 512))"

definition disk :: "('d \<Rightarrow> host) \<Rightarrow> blk \<times> 'd machine \<Rightarrow> nat \<Rightarrow> bytes" where
  "disk view s = image (view (dev (snd s)))"

definition disk_sectors :: "('d \<Rightarrow> host) \<Rightarrow> blk \<times> 'd machine \<Rightarrow> nat" where
  "disk_sectors view s = capacity (view (dev (snd s)))"

lemma do_io_sector:
  assumes conf: "blk_conforming hw view (io + 16) (unat qs) q" and pl: "placed f qs q io"
    and inv: "blk_inv view qs q io (b, m)" and req: "req = 0 \<or> req = 1"
    and buf: "mem_read (ram m) (buf_at f) 512 = data" and data: "length data = 512"
  defines "h \<equiv> view (dev m)"
  shows "\<exists>b' m'. do_io p hw f req lba (buf_at f) 512 (b, m) = Some (in_range h lba, b', m')
    \<and> blk_inv view qs q io (b', m') \<and> capacity (view (dev m')) = capacity h
    \<and> image (view (dev m')) = (if req = 1 \<and> in_range h lba then (image h)(unat lba := data) else image h)
    \<and> mem_read (ram m') (buf_at f) 512 = (if req = 0 \<and> in_range h lba then image h (unat lba) else data)"
proof -
  have b: "queue_size b = qs" "q_mem b = q" "io_base b = io" "next_avail b = seen h"
    "last_used b = rd16 (q + unat (used_offset qs) + 2) m" "\<And>n. length (image h n) = 512"
    using inv by (auto simp: blk_inv_def h_def)
  have qs: "3 \<le> unat qs" "unat qs < 65536" "unat io + 16 < 65536" using pl by (auto simp: placed_def)
  have nz: "(ucast (queue_size b) :: u16) \<noteq> 0"
  proof
    assume "(ucast (queue_size b) :: u16) = 0"
    then have "unat (ucast qs :: u16) = 0" using b by simp
    then show False using qs by (simp add: unsigned_ucast_eq take_bit_eq_mod)
  qed
  define m1 where "m1 = stage_ring f req (buf_at f) 512 b (stage_hdr f req lba m)"
  define m0 where "m0 = outw hw (io + 16) 0 m1"
  note served = serve_staged [OF pl b(1,2,4,6) buf _ req, of "ram m1" lba, unfolded m1_def, OF refl,
      folded m1_def]
  obtain k where k: "k < POLL_LIMIT"
    and quiet: "\<And>i. i \<le> k \<Longrightarrow> ram ((sync hw ^^ i) m0) = ram m1"
    and finished: "view (dev ((sync hw ^^ Suc k) m0)) = fst (serve (unat qs) q (view (dev m1), ram m1))"
      "ram ((sync hw ^^ Suc k) m0) = snd (serve (unat qs) q (view (dev m1), ram m1))"
    using conf unfolding blk_conforming_def m0_def Let_def by (metis fst_conv snd_conv)
  have dev1: "view (dev m1) = h"
    by (simp add: m1_def h_def stage_ring_def stage_hdr_def desc_write_def Let_def)
  define m3 where "m3 = (sync hw ^^ Suc k) m0"
  have m3: "view (dev m3) = fst (serve (unat qs) q (h, ram m1))" "ram m3 = snd (serve (unat qs) q (h, ram m1))"
    using finished unfolding m3_def dev1 .
  have idx0: "rd16 (q + unat (used_offset qs) + 2) ((sync hw ^^ i) m0) = last_used b" if "i \<le> k" for i
    using quiet [OF that] served(5) by (simp add: rd16_def b(5))
  have idx1: "rd16 (q + unat (used_offset qs) + 2) m3 = last_used b + 1"
    using served(4) by (simp add: rd16_def b(5) m3)
  have poll: "poll_used hw POLL_LIMIT (q + unat (used_offset qs) + 2) (last_used b) m0 = (True, m3)"
    unfolding m3_def by (rule poll_used_stops [OF k]) (use idx0 idx1 in \<open>auto simp: m3_def\<close>)
  define b' where "b' = b\<lparr>next_avail := next_avail b + 1, last_used := last_used b + 1\<rparr>"
  have "do_io p hw f req lba (buf_at f) 512 (b, m) = Some (in_range h lba, b', m3)"
    using do_io_staged [OF nz, of p hw f req lba "buf_at f" 512 m] qs(3) b(1-3) poll served(2)
    by (simp add: m0_def [symmetric] m1_def [symmetric] b'_def m3 Let_def)
  moreover have "blk_inv view qs q io (b', m3)"
    using b idx1 served(1) data by (auto simp: blk_inv_def b'_def m3)
  moreover have "capacity (view (dev m3)) = capacity h"
    using served(1) by (simp add: m3)
  moreover have "image (view (dev m3)) = (if req = 1 \<and> in_range h lba then (image h)(unat lba := data) else image h)"
    using served(1) by (simp add: m3)
  moreover have "mem_read (ram m3) (buf_at f) 512 = (if req = 0 \<and> in_range h lba then image h (unat lba) else data)"
    using served(3) by (simp add: m3)
  ultimately show ?thesis by blast
qed

lemma blk_inv_buffer:
  assumes "placed f qs q io" and "blk_inv view qs q io (b, m)" and "length bs = 512"
  shows "blk_inv view qs q io (b, wr_bytes (buf_at f) bs m)"
proof -
  have "unat (used_offset qs) + 2 + 2 \<le> unat (queue_mem_size qs)"
    using assms(1) vq.used_below_end [of qs] by (simp add: placed_def)
  then have "apart (q + (unat (used_offset qs) + 2)) 2 (buf_at f) 512"
    using assms(1) apart_part [of q "unat (queue_mem_size qs)" "buf_at f" 512 "unat (used_offset qs) + 2" 2]
    by (simp add: placed_def apart_sym)
  then show ?thesis
    using assms(2,3) by (simp add: blk_inv_def rd16_def mem_read_apart add.assoc)
qed

text \<open>The placement, the device and the invariant bundled: what a mounted disk is.\<close>

locale virtio_disk =
  fixes p :: profile and hw :: "'d hw" and view :: "'d \<Rightarrow> host" and f :: frame
    and qs :: usize and q :: nat and io :: u16
  assumes conforming: "blk_conforming hw view (io + 16) (unat qs) q"
    and placed: "placed f qs q io"
begin

lemma read_one:
  assumes inv: "blk_inv view qs q io s" and buf: "length buf = 512"
  shows "\<exists>buf' s'. read_sectors p hw f s lba buf = Some (unat lba < disk_sectors view s, buf', s')
    \<and> blk_inv view qs q io s' \<and> length buf' = 512
    \<and> (unat lba < disk_sectors view s \<longrightarrow> buf' = disk view s (unat lba))
    \<and> disk view s' = disk view s \<and> disk_sectors view s' = disk_sectors view s"
proof -
  obtain b m where s: "s = (b, m)" by (cases s)
  have "mem_read (ram (wr_bytes (buf_at f) buf m)) (buf_at f) 512 = buf"
    using buf by (simp add: mem_simps)
  from do_io_sector [OF conforming placed blk_inv_buffer [OF placed inv [unfolded s] buf] _ this buf, of 0 p lba]
  show ?thesis
    using buf inv by (auto simp: s blk_inv_def read_sectors_def blk_consts disk_def disk_sectors_def in_range_def)
qed

lemma write_one:
  assumes inv: "blk_inv view qs q io s" and data: "length data = 512"
  shows "\<exists>s'. write_sectors p hw f s lba data = Some (unat lba < disk_sectors view s, s')
    \<and> blk_inv view qs q io s' \<and> disk_sectors view s' = disk_sectors view s
    \<and> disk view s' = (if unat lba < disk_sectors view s
        then (disk view s)(unat lba := data) else disk view s)"
proof -
  obtain b m where s: "s = (b, m)" by (cases s)
  have "mem_read (ram (wr_bytes (buf_at f) data m)) (buf_at f) 512 = data"
    using data by (simp add: mem_simps)
  from do_io_sector [OF conforming placed blk_inv_buffer [OF placed inv [unfolded s] data] _ this data, of 1 p lba]
  show ?thesis
    using data by (auto simp: s write_sectors_def blk_consts disk_def disk_sectors_def in_range_def)
qed

end

sublocale virtio_disk \<subseteq> sector_device "read_sectors p hw f" "write_sectors p hw f"
  "disk view" "disk_sectors view" "blk_inv view qs q io"
proof
  show "length (disk view s n) = 512" if "blk_inv view qs q io s" for s n
    using that by (cases s) (simp add: blk_inv_def disk_def)
qed (fact read_one write_one)+

end
