(* ===== verification/Store.thy ===== *)
theory Store
  imports BlkDevice
begin

text \<open>
  The flat key-value store on the disk (\<^verbatim>\<open>store.rs\<close>). Sector 0 is the superblock, sectors 1 to 4
  the directory of 64 entries of 32 bytes, the data area starts at sector 5. All values are little
  endian.

  The store keeps no state of its own: \<open>KvStore\<close> is the block device. Its two operations on the
  device, \<open>read_sectors\<close> and \<open>write_sectors\<close>, are the arguments \<open>rd\<close> and \<open>wr\<close>, and the lemmas
  about the store are proved once in the context of their contract, \<open>sector_device\<close>.
\<close>

section \<open>Constants\<close>

definition MAGIC :: u32 where "MAGIC = 0x4B494E55"
definition VERSION :: u32 where "VERSION = 1"
definition DIR_ENTRIES :: nat where "DIR_ENTRIES = 64"
definition ENTRY_SIZE :: nat where "ENTRY_SIZE = 32"
definition DIR_SECTORS :: nat where "DIR_SECTORS = 4"
definition DATA_START :: u64 where "DATA_START = 5"
definition SECTOR_SIZE :: nat where "SECTOR_SIZE = 512"
definition NAME_MAX :: nat where "NAME_MAX = 20"
definition FLAG_VALID :: u32 where "FLAG_VALID = 0"
definition FLAG_DELETED :: u32 where "FLAG_DELETED = 1"

lemmas store_consts [simp] =
  DIR_ENTRIES_def ENTRY_SIZE_def DIR_SECTORS_def SECTOR_SIZE_def NAME_MAX_def
  FLAG_VALID_def FLAG_DELETED_def

section \<open>Directory entries\<close>

definition entry :: "bytes \<Rightarrow> nat \<Rightarrow> bytes" where
  "entry dir i = bslice (i * ENTRY_SIZE) ENTRY_SIZE dir"

definition e_flags :: "bytes \<Rightarrow> u32" where "e_flags e = from_le32 (bslice 28 4 e)"
definition e_offset :: "bytes \<Rightarrow> u32" where "e_offset e = from_le32 (bslice 20 4 e)"
definition e_size :: "bytes \<Rightarrow> u32" where "e_size e = from_le32 (bslice 24 4 e)"

definition entry_name_str :: "bytes \<Rightarrow> bytes" where
  "entry_name_str e =
     (let nul = (case position (\<lambda>b. b = 0) (take NAME_MAX e) of None \<Rightarrow> NAME_MAX | Some n \<Rightarrow> n)
      in if utf8_valid (take nul e) then take nul e else [])"

text \<open>The test \<open>flags == FLAG_VALID && entry_name_str(e) == name\<close>.\<close>

definition matches :: "bytes \<Rightarrow> bytes \<Rightarrow> bool" where
  "matches name e \<longleftrightarrow> e_flags e = FLAG_VALID \<and> entry_name_str e = name"

definition sectors_of :: "nat \<Rightarrow> nat" where
  "sectors_of n = (n + SECTOR_SIZE - 1) div SECTOR_SIZE"

section \<open>Sector loops\<close>

text \<open>
  \<open>for i in 0..n { blk.read_sectors(base + i, &mut buf[i * 512..(i + 1) * 512]); }\<close>, the result
  flags ignored as in the source; the same for the directory's writes.
\<close>

definition read_span :: "('s \<Rightarrow> u64 \<Rightarrow> bytes \<Rightarrow> (bool \<times> bytes \<times> 's) option) \<Rightarrow> u64 \<Rightarrow> nat \<Rightarrow> 's \<Rightarrow>
    (bytes \<times> 's) option" where
  "read_span rd base n s =
     foldM (\<lambda>i (buf, s). do {
         (ok, sec, s) \<leftarrow> rd s (base + of_nat i) (bslice (i * SECTOR_SIZE) SECTOR_SIZE buf);
         Some (splice_at (i * SECTOR_SIZE) sec buf, s)
       }) [0..<n] (replicate (n * SECTOR_SIZE) 0, s)"

definition read_dir :: "('s \<Rightarrow> u64 \<Rightarrow> bytes \<Rightarrow> (bool \<times> bytes \<times> 's) option) \<Rightarrow> 's \<Rightarrow>
    (bytes \<times> 's) option" where
  "read_dir rd s = read_span rd 1 DIR_SECTORS s"

definition write_dir :: "('s \<Rightarrow> u64 \<Rightarrow> bytes \<Rightarrow> (bool \<times> 's) option) \<Rightarrow> bytes \<Rightarrow> 's \<Rightarrow> 's option" where
  "write_dir wr dir s =
     foldM (\<lambda>i s. do {
         (ok, s) \<leftarrow> wr s (1 + of_nat i) (bslice (i * SECTOR_SIZE) SECTOR_SIZE dir);
         Some s
       }) [0..<DIR_SECTORS] s"

text \<open>The data loop of \<open>write\<close> stops with \<open>false\<close> at the first failed sector.\<close>

fun write_data :: "('s \<Rightarrow> u64 \<Rightarrow> bytes \<Rightarrow> (bool \<times> 's) option) \<Rightarrow> u64 \<Rightarrow> bytes \<Rightarrow> nat list \<Rightarrow> 's \<Rightarrow>
    (bool \<times> 's) option" where
  "write_data wr base buf [] s = Some (True, s)"
| "write_data wr base buf (i # is) s = do {
     (ok, s) \<leftarrow> wr s (base + of_nat i) (bslice (i * SECTOR_SIZE) SECTOR_SIZE buf);
     if \<not> ok then Some (False, s) else write_data wr base buf is s
   }"

section \<open>Operations\<close>

definition kv_open :: "('s \<Rightarrow> u64 \<Rightarrow> bytes \<Rightarrow> (bool \<times> bytes \<times> 's) option) \<Rightarrow>
    ('s \<Rightarrow> u64 \<Rightarrow> bytes \<Rightarrow> (bool \<times> 's) option) \<Rightarrow> 's \<Rightarrow> 's option" where
  "kv_open rd wr s = do {
     (ok, sb, s) \<leftarrow> rd s 0 (replicate SECTOR_SIZE 0);
     if from_le32 (bslice 0 4 sb) \<noteq> MAGIC then do {
       let sb2 = replicate SECTOR_SIZE 0;
       let sb2 = splice_at 0 (to_le32 MAGIC) sb2;
       let sb2 = splice_at 4 (to_le32 VERSION) sb2;
       let sb2 = splice_at 8 (to_le32 0) sb2;
       (ok, s) \<leftarrow> wr s 0 sb2;
       foldM (\<lambda>i s. do { (ok, s) \<leftarrow> wr s (1 + of_nat i) (replicate SECTOR_SIZE 0); Some s })
         [0..<DIR_SECTORS] s
     }
     else Some s
   }"

text \<open>The last matching valid entry.\<close>

definition best_entry :: "bytes \<Rightarrow> bytes \<Rightarrow> (u32 \<times> u32) option" where
  "best_entry name dir =
     fold (\<lambda>i best. if matches name (entry dir i)
                     then Some (e_offset (entry dir i), e_size (entry dir i)) else best)
       [0..<DIR_ENTRIES] None"

definition kv_read :: "('s \<Rightarrow> u64 \<Rightarrow> bytes \<Rightarrow> (bool \<times> bytes \<times> 's) option) \<Rightarrow> 's \<Rightarrow> bytes \<Rightarrow>
    (bytes option \<times> 's) option" where
  "kv_read rd s name = do {
     (dir, s) \<leftarrow> read_dir rd s;
     (case best_entry name dir of
        None \<Rightarrow> Some (None, s)
      | Some (offset, sz) \<Rightarrow> do {
          (buf, s) \<leftarrow> read_span rd (DATA_START + ucast offset) (sectors_of (unat sz)) s;
          Some (Some (take (unat sz) buf), s)
        })
   }"

text \<open>Mark every valid entry of that name as deleted.\<close>

definition mark_deleted :: "bytes \<Rightarrow> bytes \<Rightarrow> bytes" where
  "mark_deleted name dir =
     fold (\<lambda>i dir. if matches name (entry dir i)
                    then splice_at (i * ENTRY_SIZE + 28) (to_le32 FLAG_DELETED) dir else dir)
       [0..<DIR_ENTRIES] dir"

definition free_entry :: "bytes \<Rightarrow> bool" where
  "free_entry e \<longleftrightarrow> e_flags e = FLAG_DELETED \<or> e ! 0 = 0"

definition find_slot :: "bytes \<Rightarrow> nat option" where
  "find_slot dir = find (\<lambda>i. free_entry (entry dir i)) [0..<DIR_ENTRIES]"

text \<open>
  \<open>offset + ((size + SECTOR_SIZE as u32 - 1) / SECTOR_SIZE as u32)\<close> in \<open>u32\<close>: either addition can
  overflow on a corrupt directory.
\<close>

definition find_next_free_sector :: "profile \<Rightarrow> bytes \<Rightarrow> u32 option" where
  "find_next_free_sector p dir =
     foldM (\<lambda>i mx.
         let e = entry dir i in
         if e_flags e = FLAG_VALID then do {
           up \<leftarrow> add_ovf p (e_size e) (of_nat SECTOR_SIZE);
           fin \<leftarrow> add_ovf p (e_offset e) ((up - 1) div of_nat SECTOR_SIZE);
           Some (if fin > mx then fin else mx)
         }
         else Some mx) [0..<DIR_ENTRIES] 0"

text \<open>The directory entry that \<open>write\<close> puts into its slot.\<close>

definition fill_entry :: "bytes \<Rightarrow> u32 \<Rightarrow> u32 \<Rightarrow> bytes \<Rightarrow> bytes" where
  "fill_entry name offset sz e =
     (let name_len = min (length name) (NAME_MAX - 1);
          e = splice_at 0 (replicate NAME_MAX 0) e;
          e = splice_at 0 (take name_len name) e;
          e = splice_at 20 (to_le32 offset) e;
          e = splice_at 24 (to_le32 sz) e
      in splice_at 28 (to_le32 FLAG_VALID) e)"

definition named_valid :: "bytes \<Rightarrow> bool" where
  "named_valid e \<longleftrightarrow> e_flags e = FLAG_VALID \<and> e ! 0 \<noteq> 0"

definition update_superblock :: "('s \<Rightarrow> u64 \<Rightarrow> bytes \<Rightarrow> (bool \<times> bytes \<times> 's) option) \<Rightarrow>
    ('s \<Rightarrow> u64 \<Rightarrow> bytes \<Rightarrow> (bool \<times> 's) option) \<Rightarrow> bytes \<Rightarrow> 's \<Rightarrow> 's option" where
  "update_superblock rd wr dir s = do {
     let count = (of_nat (length (filter (\<lambda>i. named_valid (entry dir i)) [0..<DIR_ENTRIES])) :: u32);
     (ok, sb, s) \<leftarrow> rd s 0 (replicate SECTOR_SIZE 0);
     (ok, s) \<leftarrow> wr s 0 (splice_at 8 (to_le32 count) sb);
     Some s
   }"

definition kv_write :: "profile \<Rightarrow> ('s \<Rightarrow> u64 \<Rightarrow> bytes \<Rightarrow> (bool \<times> bytes \<times> 's) option) \<Rightarrow>
    ('s \<Rightarrow> u64 \<Rightarrow> bytes \<Rightarrow> (bool \<times> 's) option) \<Rightarrow> 's \<Rightarrow> bytes \<Rightarrow> bytes \<Rightarrow> (bool \<times> 's) option" where
  "kv_write p rd wr s name data = do {
     (dir, s) \<leftarrow> read_dir rd s;
     let dir = mark_deleted name dir;
     (case find_slot dir of
        None \<Rightarrow> Some (False, s)
      | Some slot \<Rightarrow> do {
          next_sector \<leftarrow> find_next_free_sector p dir;
          let sectors = sectors_of (length data);
          let buf = splice_at 0 data (replicate (sectors * SECTOR_SIZE) 0);
          (ok, s) \<leftarrow> write_data wr (DATA_START + ucast next_sector) buf [0..<sectors] s;
          if \<not> ok then Some (False, s)
          else do {
            let e = fill_entry name next_sector (of_nat (length data)) (entry dir slot);
            let dir = splice_at (slot * ENTRY_SIZE) e dir;
            s \<leftarrow> write_dir wr dir s;
            s \<leftarrow> update_superblock rd wr dir s;
            Some (True, s)
          }
        })
   }"

definition kv_list :: "('s \<Rightarrow> u64 \<Rightarrow> bytes \<Rightarrow> (bool \<times> bytes \<times> 's) option) \<Rightarrow> 's \<Rightarrow>
    (bytes list \<times> 's) option" where
  "kv_list rd s = do {
     (dir, s) \<leftarrow> read_dir rd s;
     Some (map (\<lambda>i. entry_name_str (entry dir i))
             (filter (\<lambda>i. named_valid (entry dir i)) [0..<DIR_ENTRIES]), s)
   }"

definition kv_delete :: "('s \<Rightarrow> u64 \<Rightarrow> bytes \<Rightarrow> (bool \<times> bytes \<times> 's) option) \<Rightarrow>
    ('s \<Rightarrow> u64 \<Rightarrow> bytes \<Rightarrow> (bool \<times> 's) option) \<Rightarrow> 's \<Rightarrow> bytes \<Rightarrow> (bool \<times> 's) option" where
  "kv_delete rd wr s name = do {
     (dir, s) \<leftarrow> read_dir rd s;
     let found = (\<exists>i \<in> set [0..<DIR_ENTRIES]. matches name (entry dir i));
     let dir = mark_deleted name dir;
     if found then do {
       s \<leftarrow> write_dir wr dir s;
       s \<leftarrow> update_superblock rd wr dir s;
       Some (True, s)
     }
     else Some (False, s)
   }"

end
