(* ===== verification/StoreDir.thy ===== *)
theory StoreDir
  imports Store
begin

text \<open>
  The directory as data: what the byte-level edits of the store's operations do to the entries.
  Nothing here touches the device.
\<close>

definition is_dir :: "bytes \<Rightarrow> bool" where
  "is_dir dir \<longleftrightarrow> length dir = 2048"

text \<open>Names the store can hold: what fits the field with its terminator and reads back.\<close>

definition key :: "bytes \<Rightarrow> bool" where
  "key name \<longleftrightarrow> name \<noteq> [] \<and> length name \<le> 19 \<and> 0 \<notin> set name \<and> utf8_valid name"

lemma length_entry [simp]: "is_dir dir \<Longrightarrow> i < 64 \<Longrightarrow> length (entry dir i) = 32"
  by (simp add: entry_def is_dir_def)

lemma entry_splice:
  assumes "is_dir dir" and "i < 64" and "j < 64" and "k + length x \<le> 32"
  shows "entry (splice_at (i * 32 + k) x dir) j =
    (if i = j then splice_at k x (entry dir i) else entry dir j)"
proof -
  have len: "i * 32 + k + length x \<le> length dir" "length dir = 2048"
    using assms by (simp_all add: is_dir_def)
  show ?thesis
  proof (cases "i = j")
    case True
    show ?thesis
    proof (rule nth_equalityI)
      fix m assume "m < length (entry (splice_at (i * 32 + k) x dir) j)"
      then have "m < 32" by (simp add: entry_def bslice_def)
      with True assms len show "entry (splice_at (i * 32 + k) x dir) j ! m =
          (if i = j then splice_at k x (entry dir i) else entry dir j) ! m"
        by (simp add: entry_def nth_slice nth_splice_at algebra_simps)
    qed (use True assms len in \<open>simp add: entry_def\<close>)
  next
    case False
    then have "j * 32 + 32 \<le> i * 32 \<or> i * 32 + 32 \<le> j * 32" by linarith
    with False assms len show ?thesis
      by (auto simp: entry_def slice_splice_disjoint)
  qed
qed

lemma is_dir_splice: "is_dir dir \<Longrightarrow> k + length x \<le> 2048 \<Longrightarrow> is_dir (splice_at k x dir)"
  by (simp add: is_dir_def)

section \<open>Fields\<close>

lemma fields_splice_flags:
  assumes "length e = 32"
  shows "e_flags (splice_at 28 (to_le32 v) e) = v"
    and "e_offset (splice_at 28 (to_le32 v) e) = e_offset e"
    and "e_size (splice_at 28 (to_le32 v) e) = e_size e"
    and "entry_name_str (splice_at 28 (to_le32 v) e) = entry_name_str e"
    and "splice_at 28 (to_le32 v) e ! 0 = e ! 0"
proof -
  have "take n (splice_at 28 (to_le32 v) e) = take n e" if "n \<le> 20" for n
    using assms that by (simp add: splice_at_def min_def)
  moreover have "(case position P (take 20 e) of None \<Rightarrow> 20 | Some n \<Rightarrow> n) \<le> 20" for P
    by (auto simp: position_Some split: option.splits)
  ultimately have "take (case position P (take 20 e) of None \<Rightarrow> 20 | Some n \<Rightarrow> n) (splice_at 28 (to_le32 v) e)
      = take (case position P (take 20 e) of None \<Rightarrow> 20 | Some n \<Rightarrow> n) e"
    and "take 20 (splice_at 28 (to_le32 v) e) = take 20 e" for P by blast+
  then show "entry_name_str (splice_at 28 (to_le32 v) e) = entry_name_str e"
    by (simp add: entry_name_str_def Let_def cong: option.case_cong)
qed (use assms in \<open>simp_all add: e_flags_def e_offset_def e_size_def slice_simps nth_splice_at\<close>)

lemma entry_name_Nil: "e ! 0 = 0 \<Longrightarrow> length e = 32 \<Longrightarrow> entry_name_str e = []"
  by (cases e) (simp_all add: entry_name_str_def Let_def)

lemma short_name:
  assumes "length e = 32" and "e ! 19 = 0"
  shows "length (entry_name_str e) \<le> 19"
proof -
  have "e ! 19 \<in> set (take 20 e)" using assms(1) by (auto simp: in_set_conv_nth intro: exI [of _ 19])
  then have "\<not> (\<forall>x\<in>set (take 20 e). x \<noteq> 0)" using assms(2) by auto
  then obtain n where n: "position (\<lambda>b. b = 0) (take 20 e) = Some n"
    using position_None [of "\<lambda>b. b = 0" "take 20 e"] by (cases "position (\<lambda>b. b = 0) (take 20 e)") auto
  then have "\<not> 19 < n" using assms by (auto simp: position_Some)
  then show ?thesis using n by (simp add: entry_name_str_def min_def)
qed

lemma key_matches: "key name \<Longrightarrow> length e = 32 \<Longrightarrow> matches name e \<Longrightarrow> \<not> free_entry e"
  by (auto simp: key_def matches_def free_entry_def entry_name_Nil)

lemma take_splice_after:
  "n \<le> off \<Longrightarrow> off + length ys \<le> length xs \<Longrightarrow> take n (splice_at off ys xs) = take n xs"
  by (simp add: splice_at_def min_def)

lemma take_splice_front:
  "length ys \<le> n \<Longrightarrow> n \<le> length xs \<Longrightarrow>
   take n (splice_at 0 ys xs) = ys @ drop (length ys) (take n xs)"
  by (simp add: splice_at_def drop_take)

lemma fill_entry_fields:
  assumes "length e = 32"
  shows "length (fill_entry name off sz e) = 32"
    and "e_flags (fill_entry name off sz e) = 0"
    and "e_offset (fill_entry name off sz e) = off"
    and "e_size (fill_entry name off sz e) = sz"
    and "take 20 (fill_entry name off sz e) =
      take 19 name @ replicate (20 - length (take 19 name)) 0"
proof -
  define e0 where "e0 = splice_at 0 (take (min (length name) 19) name)
    (splice_at 0 (replicate 20 0) e)"
  have e0: "length e0 = 32" using assms by (simp add: e0_def)
  have fill: "fill_entry name off sz e =
      splice_at 28 (to_le32 0) (splice_at 24 (to_le32 sz) (splice_at 20 (to_le32 off) e0))"
    by (simp add: fill_entry_def Let_def e0_def)
  have cut: "take (min (length name) 19) name = take 19 name" by (simp add: min_def)
  have "take 20 e0 = take 19 name @ replicate (20 - length (take 19 name)) 0"
    using assms by (simp add: e0_def cut take_splice_front)
  then show "take 20 (fill_entry name off sz e) =
      take 19 name @ replicate (20 - length (take 19 name)) 0"
    using e0 by (simp add: fill take_splice_after)
  show "length (fill_entry name off sz e) = 32"
    and "e_flags (fill_entry name off sz e) = 0"
    and "e_offset (fill_entry name off sz e) = off"
    and "e_size (fill_entry name off sz e) = sz"
    using e0 by (simp_all add: fill e_flags_def e_offset_def e_size_def slice_simps)
qed

lemma fill_entry_name:
  assumes "length e = 32" and "0 \<notin> set name"
  shows "entry_name_str (fill_entry name off sz e) =
    (if utf8_valid (take 19 name) then take 19 name else [])"
proof -
  let ?e = "fill_entry name off sz e"
  have cut: "take (min (length name) 19) name = take 19 name" by (simp add: min_def)
  have z: "replicate (20 - length (take 19 name)) 0 = (0::u8) # replicate (19 - length (take 19 name)) 0"
    by (simp add: Suc_diff_le flip: replicate_Suc)
  have "\<forall>b\<in>set (take 19 name). b \<noteq> 0"
    using assms(2) by (auto dest: in_set_takeD)
  then have "position (\<lambda>b. b = 0) (take 20 ?e) = Some (length (take 19 name))"
    using fill_entry_fields(5) [OF assms(1), of name off sz] z
      position_append_hit [of "take 19 name" "\<lambda>b. b = 0" 0] by simp
  moreover have "take (length (take 19 name)) ?e = take 19 name"
  proof -
    have "take (length (take 19 name)) ?e = take (length (take 19 name)) (take 20 ?e)"
      by (simp add: min_def)
    also have "\<dots> = take 19 name"
      by (simp add: fill_entry_fields(5) [OF assms(1)] cut)
    finally show ?thesis .
  qed
  ultimately show ?thesis by (simp add: entry_name_str_def)
qed

lemma fill_entry_key:
  assumes "length e = 32" and "key name"
  shows "matches name (fill_entry name off sz e)"
    and "matches n (fill_entry name off sz e) \<Longrightarrow> n = name"
    and "\<not> free_entry (fill_entry name off sz e)"
proof -
  show m: "matches name (fill_entry name off sz e)"
    and "matches n (fill_entry name off sz e) \<Longrightarrow> n = name"
    using assms fill_entry_name [OF assms(1), of name off sz]
    by (auto simp: matches_def fill_entry_fields key_def)
  show "\<not> free_entry (fill_entry name off sz e)"
    using key_matches [OF assms(2) _ m] fill_entry_fields(1) [OF assms(1)] by simp
qed

section \<open>Marking entries deleted\<close>

lemma mark_deleted_upto:
  fixes name dir :: bytes
  assumes "is_dir dir" and "n \<le> 64"
  defines "step \<equiv> (\<lambda>i d. if matches name (entry d i)
      then splice_at (i * ENTRY_SIZE + 28) (to_le32 FLAG_DELETED) d else d)"
  shows "is_dir (fold step [0..<n] dir) \<and>
    (\<forall>j<64. entry (fold step [0..<n] dir) j =
      (if j < n \<and> matches name (entry dir j)
       then splice_at 28 (to_le32 1) (entry dir j) else entry dir j))"
  using assms(2)
proof (induction n)
  case 0
  then show ?case using assms(1) by simp
next
  case (Suc n)
  then have d: "is_dir (fold step [0..<n] dir)" by simp
  show ?case
    using Suc d by (auto simp: step_def is_dir_splice entry_splice less_Suc_eq)
qed

lemma is_dir_mark [simp]: "is_dir dir \<Longrightarrow> is_dir (mark_deleted name dir)"
  using mark_deleted_upto [where dir = dir and name = name and n = 64] by (simp add: mark_deleted_def)

lemma entry_mark:
  "is_dir dir \<Longrightarrow> j < 64 \<Longrightarrow> entry (mark_deleted name dir) j =
     (if matches name (entry dir j) then splice_at 28 (to_le32 1) (entry dir j) else entry dir j)"
  using mark_deleted_upto [where dir = dir and name = name and n = 64] by (simp add: mark_deleted_def)

lemma matches_mark:
  "is_dir dir \<Longrightarrow> j < 64 \<Longrightarrow>
   matches n (entry (mark_deleted name dir) j) \<longleftrightarrow> matches n (entry dir j) \<and> n \<noteq> name"
  by (auto simp: entry_mark matches_def fields_splice_flags)

lemma fields_mark:
  assumes "is_dir dir" and "j < 64"
  shows "e_offset (entry (mark_deleted name dir) j) = e_offset (entry dir j)"
    and "e_size (entry (mark_deleted name dir) j) = e_size (entry dir j)"
    and "e_flags (entry (mark_deleted name dir) j) = 0 \<longleftrightarrow>
      e_flags (entry dir j) = 0 \<and> \<not> matches name (entry dir j)"
    and "entry_name_str (entry (mark_deleted name dir) j) = entry_name_str (entry dir j)"
    and "entry (mark_deleted name dir) j ! 0 = entry dir j ! 0"
  using assms by (simp_all add: entry_mark fields_splice_flags)

section \<open>The slot and the next free sector\<close>

lemma find_slot_Some:
  "find_slot dir = Some slot \<Longrightarrow> slot < 64 \<and> free_entry (entry dir slot)"
  by (auto simp: find_slot_def find_Some_iff)

lemma find_slot_None: "find_slot dir = None \<longleftrightarrow> (\<forall>i<64. \<not> free_entry (entry dir i))"
  by (auto simp: find_slot_def find_None_iff)

definition extent_end :: "bytes \<Rightarrow> nat" where
  "extent_end e = unat (e_offset e) + sectors_of (unat (e_size e))"

text \<open>Every valid entry ends within \<open>lim\<close> sectors of data area.\<close>

definition extents_within :: "nat \<Rightarrow> bytes \<Rightarrow> bool" where
  "extents_within lim dir \<longleftrightarrow>
     (\<forall>i<64. e_flags (entry dir i) = 0 \<longrightarrow> extent_end (entry dir i) \<le> lim)"

lemma entry_end_exact:
  assumes "extent_end e \<le> lim" and "lim + 1 < 2 ^ 23"
  shows "\<exists>up fin. add_ovf p (e_size e) (of_nat SECTOR_SIZE) = Some up \<and>
    add_ovf p (e_offset e) ((up - 1) div of_nat SECTOR_SIZE) = Some fin \<and> unat fin = extent_end e"
proof -
  let ?up = "e_size e + 512" let ?q = "(?up - 1) div (512 :: u32)"
  have sz: "unat (e_size e) + 512 < 2 ^ 32" "unat (e_offset e) \<le> lim"
    using assms by (auto simp: extent_end_def sectors_of_def)
  have up: "add_ovf p (e_size e) 512 = Some ?up" "unat ?up = unat (e_size e) + 512"
    using sz add_ovf_exact [of "e_size e" 512] by simp_all
  then have "?up \<noteq> 0" by (intro notI) simp
  then have "unat (?up - 1) = unat ?up - 1" by (rule unat_minus_one)
  also have "\<dots> = unat (e_size e) + 511" by (simp add: up(2))
  finally have up1: "unat (?up - 1) = unat (e_size e) + 511" .
  then have q: "unat ?q = sectors_of (unat (e_size e))"
    by (simp add: unat_div_distrib up1 sectors_of_def del: diff_add_cancel)
  then have "unat (e_offset e) + unat ?q < 2 ^ 32"
    using assms by (simp add: extent_end_def)
  then have "add_ovf p (e_offset e) ?q = Some (e_offset e + ?q)"
    "unat (e_offset e + ?q) = extent_end e"
    using add_ovf_exact [of "e_offset e" ?q] q by (simp_all add: extent_end_def)
  with up show ?thesis by simp
qed

text \<open>The end of the last valid extent, in sectors of the data area.\<close>

definition alloc_top :: "bytes \<Rightarrow> nat" where
  "alloc_top dir = fold (\<lambda>i t. if e_flags (entry dir i) = 0 then max t (extent_end (entry dir i)) else t)
     [0..<64] 0"

lemma fold_top:
  "fold (\<lambda>i t. if P i then max t (f i) else t) xs (t :: nat) \<le> lim \<longleftrightarrow>
   t \<le> lim \<and> (\<forall>i\<in>set xs. P i \<longrightarrow> f i \<le> lim)"
  by (induction xs arbitrary: t) auto

lemma alloc_top_le: "alloc_top dir \<le> lim \<longleftrightarrow> extents_within lim dir"
  by (auto simp: alloc_top_def fold_top extents_within_def)

lemma find_next_free_sector_top:
  assumes "extents_within lim dir" and "lim + 1 < 2 ^ 23"
  shows "\<exists>mx. find_next_free_sector p dir = Some mx \<and> unat mx = alloc_top dir"
proof -
  let ?f = "\<lambda>i mx. let e = entry dir i in
         if e_flags e = FLAG_VALID then do {
           up \<leftarrow> add_ovf p (e_size e) (of_nat SECTOR_SIZE);
           fin \<leftarrow> add_ovf p (e_offset e) ((up - 1) div of_nat SECTOR_SIZE);
           Some (if fin > mx then fin else mx)
         }
         else Some mx"
  let ?g = "\<lambda>i t. if e_flags (entry dir i) = 0 then max t (extent_end (entry dir i)) else t"
  have "\<exists>mx. foldM ?f [0..<n] 0 = Some mx \<and> unat mx = fold ?g [0..<n] 0" if "n \<le> 64" for n
    using that
  proof (induction n)
    case (Suc n)
    then obtain mx where mx: "foldM ?f [0..<n] 0 = Some mx" "unat mx = fold ?g [0..<n] 0" by auto
    show ?case
    proof (cases "e_flags (entry dir n) = 0")
      case True
      then have e: "extent_end (entry dir n) \<le> lim" using assms(1) Suc.prems by (simp add: extents_within_def)
      obtain up fin where "add_ovf p (e_size (entry dir n)) (of_nat SECTOR_SIZE) = Some up"
        "add_ovf p (e_offset (entry dir n)) ((up - 1) div of_nat SECTOR_SIZE) = Some fin"
        "unat fin = extent_end (entry dir n)"
        using entry_end_exact [OF e assms(2)] by blast
      with mx True show ?thesis
        by (simp add: foldM_append word_less_nat_alt max_def)
    next
      case False
      with mx show ?thesis by (simp add: foldM_append)
    qed
  qed simp
  from this [of 64] show ?thesis by (simp add: find_next_free_sector_def alloc_top_def)
qed

end
