(* ===== verification/StoreLaws.thy ===== *)
theory StoreLaws
  imports StoreDir
begin

text \<open>
  The store over a disk. \<open>kv_map\<close> reads the map from names to contents out of a disk image, and
  \<open>kv_wf\<close> is the well-formedness of an image: formatted, the directory's extents inside the disk,
  no name twice, the superblock's count right. In the context of \<open>sector_device\<close> every operation of
  \<^verbatim>\<open>store.rs\<close> is proved to keep \<open>kv_wf\<close> and to act on \<open>kv_map\<close> as the operation of a finite map.
\<close>

section \<open>The disk image as a map\<close>

definition dir_of :: "(nat \<Rightarrow> bytes) \<Rightarrow> bytes" where
  "dir_of img = concat (map img [1..<5])"

definition span :: "(nat \<Rightarrow> bytes) \<Rightarrow> nat \<Rightarrow> nat \<Rightarrow> bytes" where
  "span img base n = concat (map img [base..<base + n])"

definition kv_lookup :: "(nat \<Rightarrow> bytes) \<Rightarrow> bytes \<Rightarrow> bytes option" where
  "kv_lookup img name =
     map_option (\<lambda>(off, sz). take (unat sz) (span img (5 + unat off) (sectors_of (unat sz))))
       (best_entry name (dir_of img))"

definition kv_map :: "(nat \<Rightarrow> bytes) \<Rightarrow> bytes \<Rightarrow> bytes option" where
  "kv_map img = (\<lambda>name. if key name then kv_lookup img name else None)"

definition unique_names :: "bytes \<Rightarrow> bool" where
  "unique_names dir \<longleftrightarrow> (\<forall>i<64. \<forall>j<64. named_valid (entry dir i) \<longrightarrow> named_valid (entry dir j) \<longrightarrow>
     entry_name_str (entry dir i) = entry_name_str (entry dir j) \<longrightarrow> i = j)"

definition live_entries :: "bytes \<Rightarrow> nat" where
  "live_entries dir = length (filter (\<lambda>i. named_valid (entry dir i)) [0..<64])"

definition kv_wf :: "(nat \<Rightarrow> bytes) \<Rightarrow> nat \<Rightarrow> bool" where
  "kv_wf img cap \<longleftrightarrow>
     5 \<le> cap \<and> cap < 2 ^ 23
     \<and> from_le32 (bslice 0 4 (img 0)) = MAGIC
     \<and> unat (from_le32 (bslice 8 4 (img 0))) = live_entries (dir_of img)
     \<and> extents_within (cap - 5) (dir_of img)
     \<and> unique_names (dir_of img)"

lemma upt_1_5: "[1..<5] = [1, 2, 3, 4 :: nat]"
  by (simp add: upt_rec)

lemma is_dir_dir_of: "(\<And>n. length (img n) = 512) \<Longrightarrow> is_dir (dir_of img)"
  unfolding dir_of_def is_dir_def upt_1_5 by simp

lemma dir_of_cong: "(\<And>k. 1 \<le> k \<Longrightarrow> k < 5 \<Longrightarrow> img k = img' k) \<Longrightarrow> dir_of img = dir_of img'"
  unfolding dir_of_def upt_1_5 by simp

lemma length_span [simp]: "(\<And>n. length (img n) = 512) \<Longrightarrow> length (span img b n) = 512 * n"
  by (induction n) (simp_all add: span_def)

lemma span_Suc: "span img b (Suc n) = span img b n @ img (b + n)"
  by (simp add: span_def)

lemma span_cong: "(\<And>k. b \<le> k \<Longrightarrow> k < b + n \<Longrightarrow> img k = img' k) \<Longrightarrow> span img b n = span img' b n"
  unfolding span_def by (rule arg_cong [where f = concat], rule map_cong) auto

lemma span_slices:
  "length buf = 512 * n \<Longrightarrow> span (\<lambda>k. bslice (512 * (k - b)) 512 buf) b n = buf"
proof (induction n arbitrary: buf)
  case (Suc n)
  have "span (\<lambda>k. bslice (512 * (k - b)) 512 buf) b n
      = span (\<lambda>k. bslice (512 * (k - b)) 512 (take (512 * n) buf)) b n"
    by (rule span_cong) (auto simp: bslice_def min_def drop_take)
  also have "\<dots> = take (512 * n) buf" using Suc.prems by (intro Suc.IH) simp
  finally show ?case
    using Suc.prems by (simp add: span_Suc bslice_def)
qed (simp add: span_def)

lemma dir_of_slices:
  "is_dir dir \<Longrightarrow> (\<And>k. 1 \<le> k \<Longrightarrow> k < 5 \<Longrightarrow> img k = bslice (512 * (k - 1)) 512 dir) \<Longrightarrow> dir_of img = dir"
  using span_slices [of dir 4 1] span_cong [of 1 4 img "\<lambda>k. bslice (512 * (k - 1)) 512 dir"]
  by (simp add: is_dir_def dir_of_def span_def)

section \<open>Lookups after an edit of the directory\<close>

lemma best_entry_extent:
  assumes "best_entry name dir = Some (off, sz)" and "extents_within lim dir"
  shows "unat off + sectors_of (unat sz) \<le> lim"
proof -
  obtain i where "i < 64" "matches name (entry dir i)"
    "off = e_offset (entry dir i)" "sz = e_size (entry dir i)"
    using fold_last_Some [OF assms(1) [unfolded best_entry_def]] by auto
  then show ?thesis
    using assms(2) by (auto simp: extents_within_def extent_end_def matches_def)
qed

lemma best_entry_cong:
  assumes "\<And>i. i < 64 \<Longrightarrow> matches n (entry dir i) \<longleftrightarrow> matches n (entry dir' i)"
    and "\<And>i. i < 64 \<Longrightarrow> matches n (entry dir i) \<Longrightarrow>
      e_offset (entry dir i) = e_offset (entry dir' i) \<and> e_size (entry dir i) = e_size (entry dir' i)"
  shows "best_entry n dir = best_entry n dir'"
  unfolding best_entry_def by (rule fold_last_cong) (use assms in auto)

lemma best_entry_single:
  assumes "slot < 64" and "matches n (entry dir slot)"
    and "\<And>i. i < 64 \<Longrightarrow> matches n (entry dir i) \<Longrightarrow> i = slot"
  shows "best_entry n dir = Some (e_offset (entry dir slot), e_size (entry dir slot))"
  unfolding best_entry_def
  by (rule fold_last_single [of slot _ "\<lambda>i. matches n (entry dir i)"]) (simp_all add: assms)

lemma best_entry_None:
  "best_entry n dir = None \<longleftrightarrow> (\<forall>i<64. \<not> matches n (entry dir i))"
proof
  assume none: "best_entry n dir = None"
  show "\<forall>i<64. \<not> matches n (entry dir i)"
  proof (intro allI impI notI)
    fix i assume "i < (64::nat)" "matches n (entry dir i)"
    then show False
      using none fold_last_hit [of i "[0..<64]" "\<lambda>i. matches n (entry dir i)"
          "\<lambda>i. (e_offset (entry dir i), e_size (entry dir i))" None]
      by (simp add: best_entry_def)
  qed
next
  assume "\<forall>i<64. \<not> matches n (entry dir i)"
  then show "best_entry n dir = None"
    unfolding best_entry_def by (intro fold_last_None) simp
qed

lemma best_entry_mark:
  assumes "is_dir dir"
  shows "best_entry n (mark_deleted name dir) = (if n = name then None else best_entry n dir)"
proof (cases "n = name")
  case True
  then show ?thesis using assms by (simp add: best_entry_None matches_mark)
next
  case False
  then have "best_entry n (mark_deleted name dir) = best_entry n dir"
    using assms by (intro best_entry_cong) (simp_all add: matches_mark fields_mark)
  with False show ?thesis by simp
qed

text \<open>The entry put into a free slot of a directory without that name.\<close>

lemma entry_fill:
  assumes "is_dir dir" and "slot < 64" and "i < 64"
  shows "entry (splice_at (slot * 32) (fill_entry name off sz (entry dir slot)) dir) i =
    (if i = slot then fill_entry name off sz (entry dir slot) else entry dir i)"
  using entry_splice [of dir slot i 0 "fill_entry name off sz (entry dir slot)"] assms
  by (auto simp: fill_entry_fields splice_at_def)

lemma best_entry_fill:
  fixes off sz :: u32
  assumes dir: "is_dir dir" and slot: "slot < 64" "free_entry (entry dir slot)"
    and names: "key name" "key n" and absent: "best_entry name dir = None"
  defines "dir' \<equiv> splice_at (slot * 32) (fill_entry name off sz (entry dir slot)) dir"
  shows "best_entry n dir' = (if n = name then Some (off, sz) else best_entry n dir)"
proof -
  have e: "entry dir' i = (if i = slot then fill_entry name off sz (entry dir slot) else entry dir i)"
    if "i < 64" for i unfolding dir'_def by (rule entry_fill [OF dir slot(1) that])
  note fill = fill_entry_key [OF length_entry [OF dir slot(1)] names(1), where off = off and sz = sz]
    fill_entry_fields [OF length_entry [OF dir slot(1)], of name off sz]
  show ?thesis
  proof (cases "n = name")
    case True
    then have "best_entry n dir' = Some (e_offset (entry dir' slot), e_size (entry dir' slot))"
      using absent slot(1) fill(1) by (intro best_entry_single) (auto simp: e best_entry_None split: if_splits)
    with True show ?thesis using slot(1) fill by (simp add: e)
  next
    case False
    moreover have "\<not> matches n (entry dir slot)"
      using key_matches [OF names(2) length_entry [OF dir slot(1)]] slot(2) by blast
    ultimately have "best_entry n dir' = best_entry n dir"
      using fill(2) [of n] by (intro best_entry_cong) (auto simp: e)
    with False show ?thesis by simp
  qed
qed

section \<open>Well-formedness after an edit of the directory\<close>

lemma extents_mark: "is_dir dir \<Longrightarrow> extents_within lim dir \<Longrightarrow> extents_within lim (mark_deleted name dir)"
  by (simp add: extents_within_def extent_end_def fields_mark)

lemma unique_mark: "is_dir dir \<Longrightarrow> unique_names dir \<Longrightarrow> unique_names (mark_deleted name dir)"
  by (simp add: unique_names_def named_valid_def fields_mark)

lemma extents_fill:
  assumes dir: "is_dir dir" "slot < 64" and lim: "extents_within lim dir"
    and new: "unat off + sectors_of (unat sz) \<le> lim"
  shows "extents_within lim (splice_at (slot * 32) (fill_entry name off sz (entry dir slot)) dir)"
  using lim new fill_entry_fields [OF length_entry [OF dir], of name off sz]
  by (auto simp: extents_within_def extent_end_def entry_fill [OF dir])

lemma named_valid_matches: "named_valid e \<Longrightarrow> matches (entry_name_str e) e"
  by (simp add: named_valid_def matches_def)

lemma unique_fill:
  assumes dir: "is_dir dir" "slot < 64" and u: "unique_names dir"
    and name: "key name" and absent: "best_entry name dir = None"
  shows "unique_names (splice_at (slot * 32) (fill_entry name off sz (entry dir slot)) dir)"
proof -
  note fill = fill_entry_key [OF length_entry [OF dir] name, where off = off and sz = sz]
  have new: "entry_name_str (fill_entry name off sz (entry dir slot)) = name"
    using fill(1) by (simp add: matches_def)
  have old: "entry_name_str (entry dir i) \<noteq> name" if "i < 64" "named_valid (entry dir i)" for i
    using absent that named_valid_matches [of "entry dir i"] by (auto simp: best_entry_None)
  show ?thesis
    unfolding unique_names_def
  proof (intro allI impI)
    fix i j assume ij: "i < (64::nat)" "j < (64::nat)"
      and "named_valid (entry (splice_at (slot * 32) (fill_entry name off sz (entry dir slot)) dir) i)"
        "named_valid (entry (splice_at (slot * 32) (fill_entry name off sz (entry dir slot)) dir) j)"
        "entry_name_str (entry (splice_at (slot * 32) (fill_entry name off sz (entry dir slot)) dir) i) =
         entry_name_str (entry (splice_at (slot * 32) (fill_entry name off sz (entry dir slot)) dir) j)"
    then show "i = j"
      unfolding entry_fill [OF dir ij(1)] entry_fill [OF dir ij(2)]
      using old u ij new by (auto simp: unique_names_def split: if_splits)
  qed
qed

section \<open>The operations on a sector device\<close>

lemma unat_sector: "unat (base :: u64) + i < 2 ^ 64 \<Longrightarrow> unat (base + of_nat i) = unat base + i"
  by (simp add: unat_word_ariths unat_of_nat)

context sector_device
begin

lemma span_length: "inv s \<Longrightarrow> length (span (img s) b n) = 512 * n"
  by (simp add: img_len)

lemma read_span_ok:
  assumes "inv s" and "unat base + n \<le> cap s" and "cap s < 2 ^ 64"
  shows "\<exists>s'. read_span rd base n s = Some (span (img s) (unat base) n, s')
    \<and> inv s' \<and> img s' = img s \<and> cap s' = cap s"
proof -
  let ?body = "\<lambda>i (buf, s). do {
         (ok, sec, s) \<leftarrow> rd s (base + of_nat i) (bslice (i * SECTOR_SIZE) SECTOR_SIZE buf);
         Some (splice_at (i * SECTOR_SIZE) sec buf, s)
       }"
  have "\<exists>s'. foldM ?body [0..<k] (replicate (n * SECTOR_SIZE) 0, s)
      = Some (span (img s) (unat base) k @ replicate (512 * (n - k)) 0, s')
    \<and> inv s' \<and> img s' = img s \<and> cap s' = cap s" if "k \<le> n" for k
    using that
  proof (induction k)
    case 0
    then show ?case using assms(1) by (simp add: span_def mult.commute)
  next
    case (Suc k)
    then obtain s1 where fold: "foldM ?body [0..<k] (replicate (n * SECTOR_SIZE) 0, s)
        = Some (span (img s) (unat base) k @ replicate (512 * (n - k)) 0, s1)"
      and s1: "inv s1" "img s1 = img s" "cap s1 = cap s" by auto
    let ?buf = "span (img s) (unat base) k @ replicate (512 * (n - k)) (0::u8)"
    have len: "length (span (img s) (unat base) k) = 512 * k"
      using assms(1) by (rule span_length)
    then have "length (bslice (k * 512) 512 ?buf) = 512"
      using Suc.prems by simp
    moreover have "unat (base + of_nat k) = unat base + k"
      using Suc.prems assms by (intro unat_sector) simp
    ultimately obtain s2 where
      rd: "rd s1 (base + of_nat k) (bslice (k * 512) 512 ?buf) = Some (True, img s (unat base + k), s2)"
      and s2: "inv s2" "img s2 = img s" "cap s2 = cap s"
      using rd_sector [OF s1(1), of "bslice (k * 512) 512 ?buf" "base + of_nat k"] Suc.prems assms s1
      by auto
    have "512 * (n - k) = 512 + 512 * (n - Suc k)" using Suc.prems by simp
    then have "replicate (512 * (n - k)) (0::u8) = replicate 512 0 @ replicate (512 * (n - Suc k)) 0"
      by (simp only: replicate_add)
    then have "splice_at (k * 512) (img s (unat base + k)) ?buf
        = span (img s) (unat base) (Suc k) @ replicate (512 * (n - Suc k)) 0"
      using len img_len [OF assms(1)] by (simp add: splice_at_def span_Suc mult.commute)
    then show ?case using fold rd s2 by (simp add: foldM_append)
  qed
  from this [of n] show ?thesis by (simp add: read_span_def)
qed

lemma read_dir_ok:
  assumes "inv s" and "5 \<le> cap s" and "cap s < 2 ^ 64"
  shows "\<exists>s'. read_dir rd s = Some (dir_of (img s), s') \<and> inv s' \<and> img s' = img s \<and> cap s' = cap s"
  using read_span_ok [of s 1 4] assms by (simp add: read_dir_def dir_of_def span_def)

text \<open>A run of sector writes that all succeed.\<close>

lemma write_run:
  assumes "inv s" and "unat base + n \<le> cap s" and "cap s < 2 ^ 64" and "\<And>i. i < n \<Longrightarrow> length (sec i) = 512"
  shows "\<exists>s'. foldM (\<lambda>i s. do { (ok, s) \<leftarrow> wr s (base + of_nat i) (sec i); Some s }) [0..<n] s = Some s'
    \<and> inv s' \<and> cap s' = cap s
    \<and> img s' = (\<lambda>k. if unat base \<le> k \<and> k < unat base + n then sec (k - unat base) else img s k)"
  using assms(2,4)
proof (induction n)
  case 0
  then show ?case using assms(1) by (auto simp: fun_eq_iff)
next
  case (Suc n)
  then obtain s1 where fold: "foldM (\<lambda>i s. do { (ok, s) \<leftarrow> wr s (base + of_nat i) (sec i); Some s }) [0..<n] s
      = Some s1" and s1: "inv s1" "cap s1 = cap s"
    "img s1 = (\<lambda>k. if unat base \<le> k \<and> k < unat base + n then sec (k - unat base) else img s k)" by auto
  have addr: "unat (base + of_nat n) = unat base + n"
    using Suc.prems(1) assms(3) by (intro unat_sector) simp
  obtain s2 where wr: "wr s1 (base + of_nat n) (sec n) = Some (True, s2)" and
    s2: "inv s2" "cap s2 = cap s" "img s2 = (img s1)(unat base + n := sec n)"
    using wr_sector [OF s1(1), of "sec n" "base + of_nat n"] Suc.prems addr s1(2) by auto
  have "img s2 = (\<lambda>k. if unat base \<le> k \<and> k < unat base + Suc n then sec (k - unat base) else img s k)"
    using s1(3) s2(3) by (auto simp: fun_eq_iff)
  then show ?case using fold wr s2 by (simp add: foldM_append)
qed

lemma write_dir_ok:
  assumes "inv s" and "5 \<le> cap s" and "cap s < 2 ^ 64" and "is_dir dir"
  shows "\<exists>s'. write_dir wr dir s = Some s' \<and> inv s' \<and> cap s' = cap s
    \<and> dir_of (img s') = dir \<and> (\<forall>k. k = 0 \<or> 5 \<le> k \<longrightarrow> img s' k = img s k)"
proof -
  have "length (bslice (i * 512) 512 dir) = 512" if "i < 4" for i
    using assms(4) that by (simp add: is_dir_def)
  moreover have one: "unat (1 :: u64) = 1" by simp
  ultimately obtain s' where "write_dir wr dir s = Some s'" "inv s'" "cap s' = cap s"
    and img: "img s' = (\<lambda>k. if 1 \<le> k \<and> k < 5 then bslice ((k - 1) * 512) 512 dir else img s k)"
    using write_run [of s 1 4 "\<lambda>i. bslice (i * 512) 512 dir", unfolded one] assms
    by (auto simp: write_dir_def)
  moreover have "dir_of (img s') = dir"
    using assms(4) by (rule dir_of_slices) (simp add: img mult.commute)
  moreover have "\<forall>k. k = 0 \<or> 5 \<le> k \<longrightarrow> img s' k = img s k" using img by auto
  ultimately show ?thesis by blast
qed

text \<open>The data loop: the sectors below the end of the disk are written, and the result says whether
  that was all of them.\<close>

lemma write_data_from:
  assumes "inv s" and "i \<le> n" and "unat base + n < 2 ^ 64" and "length buf = 512 * n"
  shows "\<exists>s'. write_data wr base buf [i..<n] s = Some (i = n \<or> unat base + n \<le> cap s, s')
    \<and> inv s' \<and> cap s' = cap s
    \<and> img s' = (\<lambda>k. if unat base + i \<le> k \<and> k < unat base + n \<and> k < cap s
        then bslice (512 * (k - unat base)) 512 buf else img s k)"
  using assms(1,2)
proof (induction "n - i" arbitrary: i s)
  case 0
  then show ?case by (auto simp: fun_eq_iff)
next
  case (Suc d)
  then have i: "i < n" by simp
  have addr: "unat (base + of_nat i) = unat base + i"
    using i assms(3) by (intro unat_sector) simp
  have len: "length (bslice (i * 512) 512 buf) = 512" using i assms(4) by simp
  obtain s1 where wr: "wr s (base + of_nat i) (bslice (i * 512) 512 buf) = Some (unat base + i < cap s, s1)"
    and s1: "inv s1" "cap s1 = cap s"
      "img s1 = (if unat base + i < cap s then (img s)(unat base + i := bslice (i * 512) 512 buf) else img s)"
    using wr_sector [OF Suc.prems(1) len, of "base + of_nat i"] addr by auto
  show ?case
  proof (cases "unat base + i < cap s")
    case False
    then have "img s1 = (\<lambda>k. if unat base + i \<le> k \<and> k < unat base + n \<and> k < cap s
        then bslice (512 * (k - unat base)) 512 buf else img s k)"
      using s1(3) by (auto simp: fun_eq_iff)
    then show ?thesis using False i wr s1 by (simp add: upt_conv_Cons)
  next
    case True
    obtain s2 where "write_data wr base buf [Suc i..<n] s1 = Some (Suc i = n \<or> unat base + n \<le> cap s1, s2)"
      and s2: "inv s2" "cap s2 = cap s1"
        "img s2 = (\<lambda>k. if unat base + Suc i \<le> k \<and> k < unat base + n \<and> k < cap s1
          then bslice (512 * (k - unat base)) 512 buf else img s1 k)"
      using Suc.hyps(1) [of "Suc i" s1] Suc.hyps(2) i s1(1) by fastforce
    moreover have "img s2 = (\<lambda>k. if unat base + i \<le> k \<and> k < unat base + n \<and> k < cap s
        then bslice (512 * (k - unat base)) 512 buf else img s k)"
      using s2(3) s1 True i by (auto simp: fun_eq_iff mult.commute)
    ultimately show ?thesis using True i wr s1 by (auto simp: upt_conv_Cons)
  qed
qed

lemma superblock_ok:
  assumes "inv s" and "5 \<le> cap s"
  shows "\<exists>s'. update_superblock rd wr dir s = Some s' \<and> inv s' \<and> cap s' = cap s
    \<and> img s' = (img s)(0 := splice_at 8 (to_le32 (of_nat (live_entries dir))) (img s 0))"
proof -
  obtain s1 where "rd s 0 (replicate SECTOR_SIZE 0) = Some (True, img s 0, s1)"
    and s1: "inv s1" "img s1 = img s" "cap s1 = cap s"
    using rd_sector [OF assms(1), of "replicate 512 0" 0] assms(2) by auto
  moreover have "length (splice_at 8 (to_le32 (of_nat (live_entries dir))) (img s 0)) = 512"
    using img_len [OF assms(1)] by simp
  ultimately show ?thesis
    using wr_sector [OF s1(1), of "splice_at 8 (to_le32 (of_nat (live_entries dir))) (img s 0)" 0] assms(2)
    by (auto simp: update_superblock_def live_entries_def)
qed

end

end
