(* ===== verification/StoreMap.thy ===== *)
theory StoreMap
  imports StoreLaws
begin

text \<open>
  The operations of the store as operations of a finite map. First what a commit, a failed write
  and a deletion do to a disk image, then the operations themselves over any sector device.
\<close>

section \<open>What a write does to the image\<close>

lemma sectors_of_bounds: "n \<le> 512 * sectors_of n" "sectors_of 0 = 0"
  by (simp_all add: sectors_of_def)

lemma live_entries_le: "live_entries dir \<le> 64"
  unfolding live_entries_def by (rule order.trans [OF length_filter_le]) simp

lemma data_addr: "unat (DATA_START + ucast (off :: u32)) = 5 + unat off"
proof -
  have "unat off < 2 ^ 32" using unsigned_less [of off, where ?'a = nat] by simp
  then show ?thesis by (simp add: DATA_START_def unat_word_ariths unsigned_ucast_eq take_bit_eq_mod)
qed

lemma kv_lookup_keep:
  assumes "best_entry n (dir_of img') = best_entry n (dir_of img)"
    and "extents_within lim (dir_of img) \<or> (\<exists>d. extents_within lim d \<and> best_entry n d = best_entry n (dir_of img))"
    and "\<And>k. 5 \<le> k \<Longrightarrow> k < 5 + lim \<Longrightarrow> img' k = img k"
  shows "kv_lookup img' n = kv_lookup img n"
proof (cases "best_entry n (dir_of img)")
  case None
  then show ?thesis using assms(1) by (simp add: kv_lookup_def)
next
  case (Some x)
  obtain off sz where x: "x = (off, sz)" by (cases x)
  have "unat off + sectors_of (unat sz) \<le> lim"
    using assms(2) Some x best_entry_extent by metis
  then have "span img' (5 + unat off) (sectors_of (unat sz)) = span img (5 + unat off) (sectors_of (unat sz))"
    using assms(3) by (intro span_cong) auto
  then show ?thesis using assms(1) Some x by (simp add: kv_lookup_def)
qed

lemma superblock_fields:
  assumes "length sb = 512"
  shows "from_le32 (bslice 0 4 (splice_at 8 (to_le32 c) sb)) = from_le32 (bslice 0 4 sb)"
    and "from_le32 (bslice 8 4 (splice_at 8 (to_le32 c) sb)) = c"
  using assms by (simp_all add: slice_simps)

lemma live_count [simp]: "unat (of_nat (live_entries dir) :: u32) = live_entries dir"
  using live_entries_le [of dir] by (simp add: unat_of_nat)

text \<open>What an extent of \<open>sz\<close> bytes reads after new data has been written over it.\<close>

lemma overwritten_prefix:
  fixes data :: bytes
  defines "buf \<equiv> splice_at 0 data (replicate (512 * sectors_of (length data)) 0)"
  assumes "sz \<le> length data"
    and img: "\<And>k. a \<le> k \<Longrightarrow> k < a + sectors_of sz \<Longrightarrow> img' k = bslice (512 * (k - a)) 512 buf"
  shows "take sz (span img' a (sectors_of sz)) = take sz data"
proof -
  let ?m = "sectors_of sz"
  have m: "?m \<le> sectors_of (length data)" using assms(2) by (simp add: sectors_of_def div_le_mono)
  have buf: "length buf = 512 * sectors_of (length data)"
    using sectors_of_bounds(1) [of "length data"] by (simp add: buf_def)
  have "span img' a ?m = span (\<lambda>k. bslice (512 * (k - a)) 512 (take (512 * ?m) buf)) a ?m"
  proof (rule span_cong)
    fix k assume k: "a \<le> k" "k < a + ?m"
    then have "512 * (k - a) + 512 \<le> 512 * ?m" by simp
    then have "bslice (512 * (k - a)) 512 (take (512 * ?m) buf) = bslice (512 * (k - a)) 512 buf"
      by (simp add: bslice_def drop_take min_def)
    then show "img' k = bslice (512 * (k - a)) 512 (take (512 * ?m) buf)" using img [OF k] by simp
  qed
  also have "\<dots> = take (512 * ?m) buf" using buf m by (intro span_slices) simp
  finally have "take sz (span img' a ?m) = take sz buf"
    using sectors_of_bounds(1) [of sz] by (simp add: min_def)
  then show ?thesis using assms(2) by (simp add: buf_def splice_at_def)
qed

lemma commit_image:
  assumes len: "\<And>n. length (img n) = 512" and wf: "kv_wf img cap" and name: "key name"
    and slot: "find_slot (mark_deleted name (dir_of img)) = Some slot"
    and top: "extents_within (unat mx) (mark_deleted name (dir_of img))"
    and fits: "5 + unat mx + sectors_of (length data) \<le> cap"
    and dir': "dir_of img' = splice_at (slot * 32)
        (fill_entry name mx (of_nat (length data)) (entry (mark_deleted name (dir_of img)) slot))
        (mark_deleted name (dir_of img))"
    and sb': "img' 0 = splice_at 8 (to_le32 (of_nat (live_entries (dir_of img')))) (img 0)"
    and data': "\<And>k. 5 \<le> k \<Longrightarrow> img' k =
      (if 5 + unat mx \<le> k \<and> k < 5 + unat mx + sectors_of (length data)
       then bslice (512 * (k - (5 + unat mx))) 512
         (splice_at 0 data (replicate (512 * sectors_of (length data)) 0)) else img k)"
  shows "kv_wf img' cap" and "key n \<Longrightarrow> kv_lookup img' n = (if n = name then Some data else kv_lookup img n)"
proof -
  let ?d = "mark_deleted name (dir_of img)" and ?n = "sectors_of (length data)"
  let ?buf = "splice_at 0 data (replicate (512 * ?n) (0::u8))"
  have cap: "5 \<le> cap" "cap < 2 ^ 23" using wf by (simp_all add: kv_wf_def)
  have d: "is_dir (dir_of img)" "is_dir ?d" using is_dir_dir_of [OF len] by simp_all
  have free: "slot < 64" "free_entry (entry ?d slot)" using find_slot_Some [OF slot] by simp_all
  have gone: "best_entry name ?d = None" using d by (simp add: best_entry_mark)
  have sz: "unat (of_nat (length data) :: u32) = length data"
    using sectors_of_bounds(1) [of "length data"] fits cap by (simp add: unat_of_nat)
  have wfd: "extents_within (cap - 5) ?d" "unique_names ?d"
    using wf d by (simp_all add: kv_wf_def extents_mark unique_mark)
  show "kv_wf img' cap"
    unfolding kv_wf_def
  proof (intro conjI)
    show "from_le32 (bslice 0 4 (img' 0)) = MAGIC" "unat (from_le32 (bslice 8 4 (img' 0))) = live_entries (dir_of img')"
      using wf len by (simp_all add: kv_wf_def sb' superblock_fields)
    show "extents_within (cap - 5) (dir_of img')"
      unfolding dir' using d free wfd fits sz by (intro extents_fill) simp_all
    show "unique_names (dir_of img')"
      unfolding dir' using d free wfd name gone by (intro unique_fill) simp_all
  qed (use cap in simp_all)
  assume n: "key n"
  have best: "best_entry n (dir_of img') =
      (if n = name then Some (mx, of_nat (length data)) else best_entry n (dir_of img))"
    unfolding dir' using best_entry_fill [OF d(2) free name n gone, of mx "of_nat (length data)"] d(1)
    by (simp add: best_entry_mark)
  show "kv_lookup img' n = (if n = name then Some data else kv_lookup img n)"
  proof (cases "n = name")
    case True
    have "length ?buf = 512 * ?n" using sectors_of_bounds(1) by simp
    then have "span img' (5 + unat mx) ?n = ?buf"
      using span_slices [of ?buf ?n "5 + unat mx"] data'
        span_cong [of "5 + unat mx" ?n img' "\<lambda>k. bslice (512 * (k - (5 + unat mx))) 512 ?buf"] by simp
    then show ?thesis using True best sz by (simp add: kv_lookup_def splice_at_def)
  next
    case False
    then have "best_entry n ?d = best_entry n (dir_of img)" using d by (simp add: best_entry_mark)
    then have "kv_lookup img' n = kv_lookup img n"
      using False best top data' by (intro kv_lookup_keep [where lim = "unat mx"]) auto
    with False show ?thesis by simp
  qed
qed

text \<open>A write that runs out of disk has touched only sectors above the other names' extents.\<close>

lemma aborted_image:
  assumes len: "\<And>n. length (img n) = 512" and wf: "kv_wf img cap"
    and top: "extents_within (unat mx) (mark_deleted name (dir_of img))"
    and same: "\<And>k. k < 5 + unat mx \<Longrightarrow> img' k = img k"
  shows "kv_wf img' cap" and "n \<noteq> name \<Longrightarrow> kv_lookup img' n = kv_lookup img n"
proof -
  have dir: "dir_of img' = dir_of img" by (rule dir_of_cong) (simp add: same)
  then show "kv_wf img' cap" using wf same [of 0] by (simp add: kv_wf_def)
  assume "n \<noteq> name"
  then have "best_entry n (mark_deleted name (dir_of img)) = best_entry n (dir_of img)"
    using is_dir_dir_of [OF len] by (simp add: best_entry_mark)
  with top dir same show "kv_lookup img' n = kv_lookup img n"
    by (intro kv_lookup_keep [where lim = "unat mx"]) auto
qed

lemma delete_image:
  assumes len: "\<And>n. length (img n) = 512" and wf: "kv_wf img cap"
    and dir': "dir_of img' = mark_deleted name (dir_of img)"
    and sb': "img' 0 = splice_at 8 (to_le32 (of_nat (live_entries (dir_of img')))) (img 0)"
    and data': "\<And>k. 5 \<le> k \<Longrightarrow> img' k = img k"
  shows "kv_wf img' cap" and "kv_lookup img' n = (if n = name then None else kv_lookup img n)"
proof -
  have d: "is_dir (dir_of img)" using is_dir_dir_of [OF len] .
  show "kv_wf img' cap"
    using wf len d by (simp add: kv_wf_def sb' superblock_fields)
      (simp add: dir' extents_mark unique_mark)
  show "kv_lookup img' n = (if n = name then None else kv_lookup img n)"
  proof (cases "n = name")
    case True
    then show ?thesis using d by (simp add: kv_lookup_def dir' best_entry_mark)
  next
    case False
    then have "kv_lookup img' n = kv_lookup img n"
      using d wf data' by (intro kv_lookup_keep [where lim = "cap - 5"]) (auto simp: dir' best_entry_mark kv_wf_def)
    with False show ?thesis by simp
  qed
qed

section \<open>The names listed\<close>

definition listed :: "bytes \<Rightarrow> bytes list" where
  "listed dir = map (\<lambda>i. entry_name_str (entry dir i)) (filter (\<lambda>i. named_valid (entry dir i)) [0..<64])"

lemma distinct_listed: "unique_names dir \<Longrightarrow> distinct (listed dir)"
  unfolding listed_def distinct_map
  by (auto simp: inj_on_def unique_names_def)

lemma length_listed: "length (listed dir) = live_entries dir"
  by (simp add: listed_def live_entries_def)

lemma matches_named: "is_dir dir \<Longrightarrow> i < 64 \<Longrightarrow> n \<noteq> [] \<Longrightarrow>
   matches n (entry dir i) \<longleftrightarrow> named_valid (entry dir i) \<and> entry_name_str (entry dir i) = n"
  by (auto simp: matches_def named_valid_def entry_name_Nil)

lemma mem_listed:
  "is_dir (dir_of img) \<Longrightarrow> n \<noteq> [] \<Longrightarrow> n \<in> set (listed (dir_of img)) \<longleftrightarrow> kv_lookup img n \<noteq> None"
  by (auto simp: listed_def kv_lookup_def best_entry_None matches_named)

section \<open>The operations\<close>

text \<open>There is a slot for the entry, and the data fits behind the last valid extent.\<close>

definition kv_room :: "(nat \<Rightarrow> bytes) \<Rightarrow> nat \<Rightarrow> bytes \<Rightarrow> bytes \<Rightarrow> bool" where
  "kv_room img cap name data \<longleftrightarrow>
     find_slot (mark_deleted name (dir_of img)) \<noteq> None
     \<and> 5 + alloc_top (mark_deleted name (dir_of img)) + sectors_of (length data) \<le> cap"

context sector_device
begin

lemma kv_read_map:
  assumes "inv s" and "kv_wf (img s) (cap s)"
  shows "\<exists>s'. kv_read rd s name = Some (kv_lookup (img s) name, s')
    \<and> inv s' \<and> img s' = img s \<and> cap s' = cap s"
proof -
  have cap: "5 \<le> cap s" "cap s < 2 ^ 23" "extents_within (cap s - 5) (dir_of (img s))"
    using assms(2) by (simp_all add: kv_wf_def)
  then obtain s1 where dir: "read_dir rd s = Some (dir_of (img s), s1)"
    and s1: "inv s1" "img s1 = img s" "cap s1 = cap s"
    using read_dir_ok [OF assms(1)] by auto
  show ?thesis
  proof (cases "best_entry name (dir_of (img s))")
    case None
    then show ?thesis using dir s1 by (simp add: kv_read_def kv_lookup_def)
  next
    case (Some x)
    obtain off sz where x: "x = (off, sz)" by (cases x)
    have "unat off + sectors_of (unat sz) \<le> cap s - 5"
      using best_entry_extent [OF _ cap(3)] Some x by simp
    then have "5 + unat off + sectors_of (unat sz) \<le> cap s" using cap(1) by simp
    then obtain s2 where "read_span rd (DATA_START + ucast off) (sectors_of (unat sz)) s1 =
        Some (span (img s) (5 + unat off) (sectors_of (unat sz)), s2)"
      "inv s2" "img s2 = img s" "cap s2 = cap s"
      using read_span_ok [OF s1(1), of "DATA_START + ucast off" "sectors_of (unat sz)"] cap s1
      by (auto simp: data_addr)
    then show ?thesis using dir Some x by (simp add: kv_read_def kv_lookup_def)
  qed
qed

lemma kv_list_map:
  assumes "inv s" and "kv_wf (img s) (cap s)"
  shows "\<exists>s'. kv_list rd s = Some (listed (dir_of (img s)), s')
    \<and> inv s' \<and> img s' = img s \<and> cap s' = cap s"
  using read_dir_ok [OF assms(1)] assms(2) by (auto simp: kv_wf_def kv_list_def listed_def)

text \<open>The directory and superblock update that ends a write or a deletion.\<close>

lemma commit_ok:
  assumes "inv s" and "5 \<le> cap s" and "cap s < 2 ^ 64" and "is_dir dir"
  shows "\<exists>s1 s2. write_dir wr dir s = Some s1 \<and> update_superblock rd wr dir s1 = Some s2
    \<and> inv s2 \<and> cap s2 = cap s \<and> dir_of (img s2) = dir
    \<and> img s2 0 = splice_at 8 (to_le32 (of_nat (live_entries (dir_of (img s2))))) (img s 0)
    \<and> (\<forall>k\<ge>5. img s2 k = img s k)"
proof -
  obtain s1 where s1: "write_dir wr dir s = Some s1" "inv s1" "cap s1 = cap s"
    "dir_of (img s1) = dir" "\<forall>k. k = 0 \<or> 5 \<le> k \<longrightarrow> img s1 k = img s k"
    using write_dir_ok [OF assms] by auto
  obtain s2 where s2: "update_superblock rd wr dir s1 = Some s2" "inv s2" "cap s2 = cap s1"
    "img s2 = (img s1)(0 := splice_at 8 (to_le32 (of_nat (live_entries dir))) (img s1 0))"
    using superblock_ok [OF s1(2)] s1(3) assms(2) by auto
  have "dir_of (img s2) = dir_of (img s1)" by (rule dir_of_cong) (simp add: s2)
  then show ?thesis using s1 s2 by auto
qed

lemma kv_delete_map:
  assumes "inv s" and "kv_wf (img s) (cap s)"
  shows "\<exists>s'. kv_delete rd wr s name = Some (kv_lookup (img s) name \<noteq> None, s')
    \<and> inv s' \<and> cap s' = cap s \<and> kv_wf (img s') (cap s)
    \<and> (\<forall>n. kv_lookup (img s') n = (if n = name then None else kv_lookup (img s) n))"
proof -
  have cap: "5 \<le> cap s" "cap s < 2 ^ 64" using assms(2) by (simp_all add: kv_wf_def)
  have d: "is_dir (dir_of (img s))" using is_dir_dir_of [OF img_len [OF assms(1)]] .
  obtain s1 where dir: "read_dir rd s = Some (dir_of (img s), s1)"
    and s1: "inv s1" "img s1 = img s" "cap s1 = cap s"
    using read_dir_ok [OF assms(1) cap] by auto
  have found: "(\<exists>i\<in>set [0..<DIR_ENTRIES]. matches name (entry (dir_of (img s)) i)) \<longleftrightarrow>
      kv_lookup (img s) name \<noteq> None"
    by (auto simp: kv_lookup_def best_entry_None)
  show ?thesis
  proof (cases "kv_lookup (img s) name = None")
    case True
    then show ?thesis using dir s1 found assms(2) by (auto simp: kv_delete_def)
  next
    case False
    obtain s2 s3 where run: "write_dir wr (mark_deleted name (dir_of (img s))) s1 = Some s2"
      "update_superblock rd wr (mark_deleted name (dir_of (img s))) s2 = Some s3"
      and s3: "inv s3" "cap s3 = cap s" "dir_of (img s3) = mark_deleted name (dir_of (img s))"
      "img s3 0 = splice_at 8 (to_le32 (of_nat (live_entries (dir_of (img s3))))) (img s 0)"
      "\<forall>k\<ge>5. img s3 k = img s k"
      using commit_ok [OF s1(1), of "mark_deleted name (dir_of (img s))"] cap d s1 by auto
    note del = delete_image [OF img_len [OF assms(1)] assms(2) s3(3,4) s3(5) [rule_format]]
    have "kv_delete rd wr s name = Some (True, s3)"
      using dir run found False unfolding kv_delete_def by simp
    then show ?thesis using False del s3(1,2) by auto
  qed
qed


text \<open>
  What a write does, whatever the name: it succeeds exactly when there is a free slot and the data
  fits between the last valid extent and the end of the disk. When the data does not fit, the
  sectors that do fit have been written and the directory has not.
\<close>

text \<open>The steps of a write before its data: the directory is read and the first free sector computed.\<close>

lemma allocated:
  fixes name :: bytes
  assumes "inv s" and "kv_wf (img s) (cap s)"
  defines "d \<equiv> mark_deleted name (dir_of (img s))"
  shows "\<exists>mx s1. read_dir rd s = Some (dir_of (img s), s1) \<and> inv s1 \<and> img s1 = img s \<and> cap s1 = cap s
    \<and> find_next_free_sector p d = Some mx \<and> unat mx = alloc_top d \<and> 5 + unat mx \<le> cap s \<and> is_dir d"
proof -
  have cap: "5 \<le> cap s" "cap s < 2 ^ 23" "cap s < 2 ^ 64" "extents_within (cap s - 5) (dir_of (img s))"
    using assms(2) by (simp_all add: kv_wf_def)
  have small: "cap s - 5 + 1 < 2 ^ 23" using cap(1,2) by simp
  have dirs: "is_dir (dir_of (img s))" "is_dir d"
    using is_dir_dir_of [OF img_len [OF assms(1)]] by (simp_all add: d_def)
  have lim: "extents_within (cap s - 5) d" using dirs cap by (simp add: d_def extents_mark)
  obtain mx where mx: "find_next_free_sector p d = Some mx" "unat mx = alloc_top d"
    using find_next_free_sector_top [OF lim _, of p] small by blast
  have "5 + unat mx \<le> cap s" using alloc_top_le [of d "cap s - 5"] lim mx cap(1) by simp
  with mx dirs show ?thesis using read_dir_ok [OF assms(1) cap(1,3)] by auto
qed

text \<open>Its data stage.\<close>

lemma data_written:
  fixes data :: bytes
  assumes "inv s1" and "cap s1 < 2 ^ 23" and "5 + unat (mx :: u32) \<le> cap s1" and "length data < 2 ^ 63"
  defines "n \<equiv> sectors_of (length data)" and "buf \<equiv> splice_at 0 data (replicate (512 * sectors_of (length data)) 0)"
  shows "\<exists>s2. write_data wr (DATA_START + ucast mx) (splice_at 0 data (replicate (n * SECTOR_SIZE) 0)) [0..<n] s1
      = Some (5 + unat mx + n \<le> cap s1, s2)
    \<and> inv s2 \<and> cap s2 = cap s1
    \<and> img s2 = (\<lambda>k. if 5 + unat mx \<le> k \<and> k < 5 + unat mx + n \<and> k < cap s1
        then bslice (512 * (k - (5 + unat mx))) 512 buf else img s1 k)"
proof -
  have n: "n < 2 ^ 62" "length buf = 512 * n" and buf: "splice_at 0 data (replicate (n * SECTOR_SIZE) 0) = buf"
    using assms(4) sectors_of_bounds(1) [of "length data"] by (simp_all add: n_def buf_def sectors_of_def mult.commute)
  have "(0 = n \<or> 5 + unat mx + n \<le> cap s1) = (5 + unat mx + n \<le> cap s1)" using assms(3) by auto
  then show ?thesis
    using write_data_from [OF assms(1), of 0 n "DATA_START + ucast mx" buf, unfolded data_addr] n assms(2,3)
    unfolding buf by auto
qed

lemma kv_write_effect:
  fixes name data :: bytes
  assumes "inv s" and "kv_wf (img s) (cap s)" and "length data < 2 ^ 63"
  defines "d \<equiv> mark_deleted name (dir_of (img s))"
    and "buf \<equiv> splice_at 0 data (replicate (512 * sectors_of (length data)) 0)"
  shows "\<exists>mx s'. kv_write p rd wr s name data = Some (kv_room (img s) (cap s) name data, s')
    \<and> inv s' \<and> cap s' = cap s \<and> unat mx = alloc_top d
    \<and> (if kv_room (img s) (cap s) name data
       then \<exists>slot. find_slot d = Some slot
         \<and> dir_of (img s') = splice_at (slot * 32) (fill_entry name mx (of_nat (length data)) (entry d slot)) d
         \<and> img s' 0 = splice_at 8 (to_le32 (of_nat (live_entries (dir_of (img s'))))) (img s 0)
         \<and> (\<forall>k\<ge>5. img s' k = (if 5 + unat mx \<le> k \<and> k < 5 + unat mx + sectors_of (length data)
             then bslice (512 * (k - (5 + unat mx))) 512 buf else img s k))
       else \<forall>k. img s' k = (if find_slot d \<noteq> None \<and> 5 + unat mx \<le> k
             \<and> k < 5 + unat mx + sectors_of (length data) \<and> k < cap s
             then bslice (512 * (k - (5 + unat mx))) 512 buf else img s k))"
proof -
  let ?room = "kv_room (img s) (cap s) name data" and ?n = "sectors_of (length data)"
  have cap: "5 \<le> cap s" "cap s < 2 ^ 23" "cap s < 2 ^ 64" using assms(2) by (simp_all add: kv_wf_def)
  obtain mx s1 where dir: "read_dir rd s = Some (dir_of (img s), s1)"
    and s1: "inv s1" "img s1 = img s" "cap s1 = cap s"
    and mx: "find_next_free_sector p d = Some mx" "unat mx = alloc_top d" "5 + unat mx \<le> cap s" and d: "is_dir d"
    using allocated [OF assms(1,2), of p name] unfolding d_def by blast
  show ?thesis
  proof (cases "find_slot d")
    case None
    then show ?thesis using dir s1 mx(2) by (auto simp: kv_write_def kv_room_def d_def)
  next
    case (Some slot)
    have room: "?room \<longleftrightarrow> 5 + unat mx + ?n \<le> cap s" using Some mx by (simp add: kv_room_def d_def)
    have c: "cap s1 < 2 ^ 23" "5 + unat mx \<le> cap s1" using s1(3) cap(2) mx(3) by simp_all
    obtain s2 where data: "write_data wr (DATA_START + ucast mx) (splice_at 0 data (replicate (?n * SECTOR_SIZE) 0)) [0..<?n] s1
        = Some (?room, s2)"
      and s2: "inv s2" "cap s2 = cap s" "img s2 = (\<lambda>k. if 5 + unat mx \<le> k \<and> k < 5 + unat mx + ?n \<and> k < cap s
        then bslice (512 * (k - (5 + unat mx))) 512 buf else img s k)"
      using data_written [OF s1(1) c assms(3), unfolded s1(2,3)] unfolding room buf_def by blast
    show ?thesis
    proof (cases ?room)
      case False
      then have "kv_write p rd wr s name data = Some (False, s2)"
        using dir Some mx data unfolding kv_write_def by (simp add: d_def)
      then show ?thesis using False s2 mx(2) Some by auto
    next
      case True
      define dir' where "dir' = splice_at (slot * 32)
        (fill_entry name mx (of_nat (length data)) (entry d slot)) d"
      have slot: "slot < 64" using find_slot_Some [OF Some] by simp
      have "is_dir dir'"
        unfolding dir'_def using d slot fill_entry_fields(1) [OF length_entry [OF d slot]]
        by (intro is_dir_splice) simp_all
      then obtain s3 s4 where run: "write_dir wr dir' s2 = Some s3" "update_superblock rd wr dir' s3 = Some s4"
        and s4: "inv s4" "cap s4 = cap s" "dir_of (img s4) = dir'"
        "img s4 0 = splice_at 8 (to_le32 (of_nat (live_entries (dir_of (img s4))))) (img s2 0)"
        "\<forall>k\<ge>5. img s4 k = img s2 k"
        using commit_ok [OF s2(1), of dir'] cap s2(2) by auto
      have "kv_write p rd wr s name data = Some (True, s4)"
        using dir Some mx data True run unfolding kv_write_def dir'_def by (simp add: d_def)
      moreover have "img s2 0 = img s 0" using s2(3) by simp
      moreover have "\<forall>k\<ge>5. img s4 k = (if 5 + unat mx \<le> k \<and> k < 5 + unat mx + ?n
          then bslice (512 * (k - (5 + unat mx))) 512 buf else img s k)"
        using s4(5) s2(3) True room by auto
      ultimately show ?thesis using True Some mx(2) s4 dir'_def by auto
    qed
  qed
qed

text \<open>
  A write under a storable name updates the map at that name, or fails and keeps the other names.
\<close>

lemma kv_write_map:
  fixes name data :: bytes
  assumes "inv s" and wf: "kv_wf (img s) (cap s)" and name: "key name" and "length data < 2 ^ 63"
  shows "\<exists>s'. kv_write p rd wr s name data = Some (kv_room (img s) (cap s) name data, s')
    \<and> inv s' \<and> cap s' = cap s \<and> kv_wf (img s') (cap s)
    \<and> (\<forall>n. key n \<longrightarrow> n \<noteq> name \<longrightarrow> kv_lookup (img s') n = kv_lookup (img s) n)
    \<and> (kv_room (img s) (cap s) name data \<longrightarrow> kv_lookup (img s') name = Some data)"
proof -
  let ?d = "mark_deleted name (dir_of (img s))"
  have len: "\<And>n. length (img s n) = 512" using img_len [OF assms(1)] .
  obtain mx s' where w: "kv_write p rd wr s name data = Some (kv_room (img s) (cap s) name data, s')"
    "inv s'" "cap s' = cap s" and mx: "unat mx = alloc_top ?d"
    and eff: "if kv_room (img s) (cap s) name data
       then \<exists>slot. find_slot ?d = Some slot
         \<and> dir_of (img s') = splice_at (slot * 32) (fill_entry name mx (of_nat (length data)) (entry ?d slot)) ?d
         \<and> img s' 0 = splice_at 8 (to_le32 (of_nat (live_entries (dir_of (img s'))))) (img s 0)
         \<and> (\<forall>k\<ge>5. img s' k = (if 5 + unat mx \<le> k \<and> k < 5 + unat mx + sectors_of (length data)
             then bslice (512 * (k - (5 + unat mx))) 512
               (splice_at 0 data (replicate (512 * sectors_of (length data)) 0)) else img s k))
       else \<forall>k. img s' k = (if find_slot ?d \<noteq> None \<and> 5 + unat mx \<le> k
             \<and> k < 5 + unat mx + sectors_of (length data) \<and> k < cap s
             then bslice (512 * (k - (5 + unat mx))) 512
               (splice_at 0 data (replicate (512 * sectors_of (length data)) 0)) else img s k)"
    using kv_write_effect [OF assms(1) wf assms(4), of p name] by blast
  have top: "extents_within (unat mx) ?d" using alloc_top_le [of ?d "unat mx"] mx by simp
  show ?thesis
  proof (cases "kv_room (img s) (cap s) name data")
    case False
    then have "img s' k = img s k" if "k < 5 + unat mx" for k using eff that by simp
    from aborted_image [OF len wf top this] show ?thesis using w False by auto
  next
    case True
    then obtain slot where c: "find_slot ?d = Some slot"
      "dir_of (img s') = splice_at (slot * 32) (fill_entry name mx (of_nat (length data)) (entry ?d slot)) ?d"
      "img s' 0 = splice_at 8 (to_le32 (of_nat (live_entries (dir_of (img s'))))) (img s 0)"
      "\<And>k. 5 \<le> k \<Longrightarrow> img s' k = (if 5 + unat mx \<le> k \<and> k < 5 + unat mx + sectors_of (length data)
        then bslice (512 * (k - (5 + unat mx))) 512
          (splice_at 0 data (replicate (512 * sectors_of (length data)) 0)) else img s k)"
      using eff by auto
    have "5 + unat mx + sectors_of (length data) \<le> cap s" using True mx by (simp add: kv_room_def)
    from commit_image [OF len wf name c(1) top this c(2,3,4)] show ?thesis
      using w True name by auto
  qed
qed

text \<open>
  What a failed write leaves: the directory as it was, and every extent below the point where the
  data would have gone, so also the old contents of the name when they lie there or it had none.
\<close>

lemma kv_write_failed:
  fixes name data :: bytes
  assumes inv: "inv s" and wf: "kv_wf (img s) (cap s)" and big: "length data < 2 ^ 63"
    and full: "\<not> kv_room (img s) (cap s) name data" and w: "kv_write p rd wr s name data = Some (ok, s')"
  shows "dir_of (img s') = dir_of (img s)"
    and "(\<And>off sz. best_entry n (dir_of (img s)) = Some (off, sz) \<Longrightarrow>
        unat off + sectors_of (unat sz) \<le> alloc_top (mark_deleted name (dir_of (img s)))) \<Longrightarrow>
      kv_lookup (img s') n = kv_lookup (img s) n"
proof -
  let ?top = "alloc_top (mark_deleted name (dir_of (img s)))"
  have same: "img s' k = img s k" if "k < 5 + ?top" for k
    using kv_write_effect [OF inv wf big, of p name] full w that by auto
  then show dir: "dir_of (img s') = dir_of (img s)" by (intro dir_of_cong) simp
  assume below: "\<And>off sz. best_entry n (dir_of (img s)) = Some (off, sz) \<Longrightarrow> unat off + sectors_of (unat sz) \<le> ?top"
  have "span (img s') (5 + unat off) (sectors_of (unat sz)) = span (img s) (5 + unat off) (sectors_of (unat sz))"
    if "best_entry n (dir_of (img s)) = Some (off, sz)" for off sz
    using below [OF that] same by (intro span_cong) auto
  then show "kv_lookup (img s') n = kv_lookup (img s) n"
    by (cases "best_entry n (dir_of (img s))") (auto simp: kv_lookup_def dir)
qed

text \<open>
  A failed overwrite of the name whose extent is the last one: the new data has gone over the old.
\<close>

lemma kv_write_spoils:
  fixes name data :: bytes
  assumes inv: "inv s" and wf: "kv_wf (img s) (cap s)" and name: "key name" and big: "length data < 2 ^ 63"
    and old: "best_entry name (dir_of (img s)) = Some (off, sz)"
    and last: "alloc_top (mark_deleted name (dir_of (img s))) = unat off"
    and longer: "unat sz \<le> length data" and full: "\<not> kv_room (img s) (cap s) name data"
  shows "\<exists>s'. kv_write p rd wr s name data = Some (False, s')
    \<and> inv s' \<and> cap s' = cap s \<and> kv_lookup (img s') name = Some (take (unat sz) data)"
proof -
  let ?d = "mark_deleted name (dir_of (img s))" and ?n = "sectors_of (length data)"
  let ?buf = "splice_at 0 data (replicate (512 * ?n) (0 :: u8))"
  have len: "\<And>n. length (img s n) = 512" using img_len [OF inv] .
  have dir: "is_dir (dir_of (img s))" using is_dir_dir_of [OF len] .
  obtain i where i: "i < 64" "matches name (entry (dir_of (img s)) i)"
    using old best_entry_None [of name "dir_of (img s)"] by auto
  then have "free_entry (entry ?d i)"
    using dir by (simp add: entry_mark free_entry_def fields_splice_flags)
  then have slot: "find_slot ?d \<noteq> None" using i(1) find_slot_None by auto
  have "\<exists>(mx :: u32) s'. kv_write p rd wr s name data = Some (False, s') \<and> inv s' \<and> cap s' = cap s
    \<and> unat mx = alloc_top ?d
    \<and> (\<forall>k. img s' k = (if 5 + unat mx \<le> k \<and> k < 5 + unat mx + ?n \<and> k < cap s
        then bslice (512 * (k - (5 + unat mx))) 512 ?buf else img s k))"
    using kv_write_effect [OF inv wf big, of p name] full slot by (simp split del: if_split)
  then obtain mx :: u32 and s' where w: "kv_write p rd wr s name data = Some (False, s')" "inv s'" "cap s' = cap s"
    and mx: "unat mx = alloc_top ?d"
    and img: "\<And>k. img s' k = (if 5 + unat mx \<le> k \<and> k < 5 + unat mx + ?n \<and> k < cap s
        then bslice (512 * (k - (5 + unat mx))) 512 ?buf else img s k)"
    by blast
  have dir': "dir_of (img s') = dir_of (img s)" by (rule dir_of_cong) (simp add: img)
  let ?m = "sectors_of (unat sz)"
  have m: "?m \<le> ?n" using longer by (simp add: sectors_of_def div_le_mono)
  have "unat off + ?m \<le> cap s - 5" "5 \<le> cap s" using best_entry_extent [OF old] wf by (simp_all add: kv_wf_def)
  then have end_le: "5 + unat off + ?m \<le> cap s" by linarith
  have "img s' k = bslice (512 * (k - (5 + unat off))) 512 ?buf" if "5 + unat off \<le> k" "k < 5 + unat off + ?m" for k
    using that m end_le by (simp add: img mx last)
  from overwritten_prefix [OF longer this] show ?thesis using w dir' old by (auto simp: kv_lookup_def)
qed

text \<open>A name of 20 bytes or more is cut to 19 on the disk, and is not found again.\<close>

lemma kv_write_long_name:
  fixes name data :: bytes
  assumes inv: "inv s" and wf: "kv_wf (img s) (cap s)" and big: "length data < 2 ^ 63"
    and long: "20 \<le> length name" and w: "kv_write p rd wr s name data = Some (True, s')"
  shows "\<exists>s''. kv_read rd s' name = Some (None, s'')"
proof -
  let ?d = "mark_deleted name (dir_of (img s))"
  have len: "\<And>n. length (img s n) = 512" using img_len [OF inv] .
  have dir: "is_dir (dir_of (img s))" using is_dir_dir_of [OF len] .
  obtain mx slot where s': "inv s'" "cap s' = cap s" and slot: "find_slot ?d = Some slot"
    and dir': "dir_of (img s') = splice_at (slot * 32)
      (fill_entry name mx (of_nat (length data)) (entry ?d slot)) ?d"
    using kv_write_effect [OF inv wf big, of p name] w by (auto split: if_splits)
  have slot64: "slot < 64" using find_slot_Some [OF slot] by simp
  have "\<not> matches name (entry (dir_of (img s')) i)" if i: "i < 64" for i
  proof (cases "i = slot")
    case True
    let ?e = "fill_entry name mx (of_nat (length data)) (entry ?d slot)"
    have l32: "length (entry ?d slot) = 32" using dir slot64 by simp
    have "?e ! 19 = take 20 ?e ! 19" by simp
    also have "\<dots> = 0"
      by (simp only: fill_entry_fields(5) [OF l32]) (use long in \<open>simp add: nth_append min_def\<close>)
    finally have "length (entry_name_str ?e) \<le> 19"
      by (rule short_name [OF fill_entry_fields(1) [OF l32]])
    then show ?thesis using True long dir slot64 by (auto simp: dir' entry_fill matches_def)
  next
    case False
    then show ?thesis using dir slot64 i by (simp add: dir' entry_fill matches_mark)
  qed
  then have "best_entry name (dir_of (img s')) = None" by (simp add: best_entry_None)
  moreover have "5 \<le> cap s'" "cap s' < 2 ^ 64" using wf s'(2) by (simp_all add: kv_wf_def)
  ultimately show ?thesis using read_dir_ok [OF s'(1)] by (auto simp: kv_read_def)
qed

text \<open>Opening a disk: an unformatted one becomes the empty store, a formatted one is left alone.\<close>

lemma kv_open_formatted:
  assumes "inv s" and "0 < cap s" and "from_le32 (bslice 0 4 (img s 0)) = MAGIC"
  shows "\<exists>s'. kv_open rd wr s = Some s' \<and> inv s' \<and> img s' = img s \<and> cap s' = cap s"
  using rd_sector [OF assms(1), of "replicate 512 0" 0] assms(2,3)
  by (auto simp: kv_open_def)

end

definition blank_superblock :: bytes where
  "blank_superblock = splice_at 8 (to_le32 0) (splice_at 4 (to_le32 VERSION)
     (splice_at 0 (to_le32 MAGIC) (replicate 512 0)))"

lemma blank_superblock_fields:
  "length blank_superblock = 512"
  "from_le32 (bslice 0 4 blank_superblock) = MAGIC"
  "from_le32 (bslice 8 4 blank_superblock) = 0"
  by (simp_all add: blank_superblock_def slice_simps)

lemma zero_entry:
  assumes "i < 64"
  shows "entry (replicate 2048 0) i = replicate 32 0"
  using assms by (simp add: entry_def bslice_def)

lemma zero_fields: "e_flags (replicate 32 0) = 0" "e_offset (replicate 32 0) = 0" "e_size (replicate 32 0) = 0"
  "entry_name_str (replicate 32 0) = []" "\<not> named_valid (replicate 32 0)"
  by (simp_all add: e_flags_def e_offset_def e_size_def bslice_def from_le32_def entry_name_str_def
      named_valid_def numeral_eq_Suc)

lemma blank_image:
  assumes "5 \<le> cap" and "cap < 2 ^ 23" and "img 0 = blank_superblock"
    and "\<And>k. 1 \<le> k \<Longrightarrow> k < 5 \<Longrightarrow> img k = replicate 512 0"
  shows "kv_wf img cap" and "n \<noteq> [] \<Longrightarrow> kv_lookup img n = None" and "listed (dir_of img) = []"
proof -
  have "dir_of img = replicate 2048 0"
    unfolding dir_of_def upt_1_5 using assms(4) by (simp flip: replicate_add)
  note dir = this zero_entry zero_fields
  show "kv_wf img cap"
    using assms(1-3) by (simp add: kv_wf_def blank_superblock_fields dir live_entries_def
        extents_within_def extent_end_def unique_names_def sectors_of_bounds)
  show "n \<noteq> [] \<Longrightarrow> kv_lookup img n = None"
    by (simp add: kv_lookup_def best_entry_None dir matches_def)
  show "listed (dir_of img) = []" by (simp add: listed_def dir)
qed

context sector_device
begin

lemma kv_open_blank:
  assumes "inv s" and "5 \<le> cap s" and "cap s < 2 ^ 23" and "from_le32 (bslice 0 4 (img s 0)) \<noteq> MAGIC"
  shows "\<exists>s'. kv_open rd wr s = Some s' \<and> inv s' \<and> cap s' = cap s \<and> kv_wf (img s') (cap s)
    \<and> (\<forall>n. n \<noteq> [] \<longrightarrow> kv_lookup (img s') n = None) \<and> listed (dir_of (img s')) = []"
proof -
  obtain s1 where s1: "rd s 0 (replicate SECTOR_SIZE 0) = Some (True, img s 0, s1)"
    "inv s1" "img s1 = img s" "cap s1 = cap s"
    using rd_sector [OF assms(1), of "replicate 512 0" 0] assms(2) by auto
  obtain s2 where s2: "wr s1 0 blank_superblock = Some (True, s2)"
    "inv s2" "img s2 = (img s)(0 := blank_superblock)" "cap s2 = cap s"
    using wr_sector [OF s1(2) blank_superblock_fields(1), of 0] s1(3,4) assms(2) by auto
  have one: "unat (1 :: u64) = 1" by simp
  obtain s3 where s3: "foldM (\<lambda>i s. do { (ok, s) \<leftarrow> wr s (1 + of_nat i) (replicate SECTOR_SIZE 0); Some s })
      [0..<DIR_SECTORS] s2 = Some s3" "inv s3" "cap s3 = cap s"
    "img s3 = (\<lambda>k. if 1 \<le> k \<and> k < 5 then replicate 512 0 else img s2 k)"
    using write_run [OF s2(2), of 1 4 "\<lambda>_. replicate 512 0", unfolded one] s2(4) assms(2,3) by auto
  have "kv_open rd wr s = Some s3"
    using s1(1) s2(1) s3(1) assms(4) by (simp add: kv_open_def blank_superblock_def Let_def)
  moreover have "kv_wf (img s3) (cap s)" "n \<noteq> [] \<Longrightarrow> kv_lookup (img s3) n = None"
    "listed (dir_of (img s3)) = []" for n
    using blank_image [of "cap s" "img s3"] assms(2,3) s3(4) s2(3) by simp_all
  ultimately show ?thesis using s3(2,3) by auto
qed

end

end
