(* ===== verification/NameStore.thy ===== *)
theory NameStore
  imports StoreMap
begin

text \<open>
  What the store promises its clients (the administration API and the WebAssembly host functions):
  \<open>name_store\<close>, a map from names to contents under four operations, each of which keeps the store
  good. The refinement is proved once for every provider: any sequence of operations answers as
  the same sequence on a finite map, where only a write may fail, and a failed write spares the
  other names. \<open>sector_device\<close> provides it with the operations of \<^verbatim>\<open>store.rs\<close>.
\<close>

section \<open>Sequences of operations\<close>

datatype kv_op = Get bytes | Put bytes bytes | Del bytes | Names

datatype kv_result = Got "bytes option" | Did bool | NameList "bytes list"

definition kv_exec :: "('s \<Rightarrow> bytes \<Rightarrow> (bytes option \<times> 's) option) \<Rightarrow>
    ('s \<Rightarrow> bytes \<Rightarrow> bytes \<Rightarrow> (bool \<times> 's) option) \<Rightarrow> ('s \<Rightarrow> bytes \<Rightarrow> (bool \<times> 's) option) \<Rightarrow>
    ('s \<Rightarrow> (bytes list \<times> 's) option) \<Rightarrow> kv_op \<Rightarrow> 's \<Rightarrow> (kv_result \<times> 's) option" where
  "kv_exec get put del names c s =
     (case c of
        Get n \<Rightarrow> map_option (\<lambda>(r, s). (Got r, s)) (get s n)
      | Put n d \<Rightarrow> map_option (\<lambda>(r, s). (Did r, s)) (put s n d)
      | Del n \<Rightarrow> map_option (\<lambda>(r, s). (Did r, s)) (del s n)
      | Names \<Rightarrow> map_option (\<lambda>(r, s). (NameList r, s)) (names s))"

fun kv_run :: "(kv_op \<Rightarrow> 's \<Rightarrow> (kv_result \<times> 's) option) \<Rightarrow> kv_op list \<Rightarrow> 's \<Rightarrow>
    (kv_result list \<times> 's) option" where
  "kv_run step [] s = Some ([], s)"
| "kv_run step (c # cs) s = do {
     (r, s) \<leftarrow> step c s;
     (rs, s) \<leftarrow> kv_run step cs s;
     Some (r # rs, s)
   }"

text \<open>The operations on the abstract map.\<close>

inductive kv_step :: "(bytes \<Rightarrow> bytes option) \<Rightarrow> kv_op \<Rightarrow> kv_result \<Rightarrow> (bytes \<Rightarrow> bytes option) \<Rightarrow> bool" where
  get: "kv_step m (Get n) (Got (m n)) m"
| put: "kv_step m (Put n d) (Did True) (m(n \<mapsto> d))"
| put_full: "(\<And>k. k \<noteq> n \<Longrightarrow> m' k = m k) \<Longrightarrow> kv_step m (Put n d) (Did False) m'"
| del: "kv_step m (Del n) (Did (m n \<noteq> None)) (m(n := None))"
| names: "distinct ns \<Longrightarrow> {n \<in> set ns. key n} = dom m \<Longrightarrow> kv_step m Names (NameList ns) m"

inductive_cases kv_step_putE: "kv_step m (Put n d) r m'"
inductive_simps kv_step_simps:
  "kv_step m (Get n) r m'" "kv_step m (Put n d) (Did True) m'" "kv_step m (Del n) r m'" "kv_step m Names r m'"

fun kv_steps :: "(bytes \<Rightarrow> bytes option) \<Rightarrow> kv_op list \<Rightarrow> kv_result list \<Rightarrow> (bytes \<Rightarrow> bytes option) \<Rightarrow> bool" where
  "kv_steps m [] rs m' \<longleftrightarrow> rs = [] \<and> m' = m"
| "kv_steps m (c # cs) rs m' \<longleftrightarrow> (\<exists>r rs' m1. rs = r # rs' \<and> kv_step m c r m1 \<and> kv_steps m1 cs rs' m')"

fun op_ok :: "kv_op \<Rightarrow> bool" where
  "op_ok (Get n) \<longleftrightarrow> key n"
| "op_ok (Put n d) \<longleftrightarrow> key n \<and> length d < 2 ^ 63"
| "op_ok (Del n) \<longleftrightarrow> key n"
| "op_ok Names \<longleftrightarrow> True"

section \<open>The contract\<close>

locale name_store =
  fixes get :: "'s \<Rightarrow> bytes \<Rightarrow> (bytes option \<times> 's) option"
    and put :: "'s \<Rightarrow> bytes \<Rightarrow> bytes \<Rightarrow> (bool \<times> 's) option"
    and del :: "'s \<Rightarrow> bytes \<Rightarrow> (bool \<times> 's) option"
    and names :: "'s \<Rightarrow> (bytes list \<times> 's) option"
    and good :: "'s \<Rightarrow> bool"
    and cont :: "'s \<Rightarrow> bytes \<Rightarrow> bytes option"
  assumes get_law: "good s \<Longrightarrow> key n \<Longrightarrow> \<exists>s'. get s n = Some (cont s n, s') \<and> good s' \<and> cont s' = cont s"
    and put_law: "good s \<Longrightarrow> key n \<Longrightarrow> length d < 2 ^ 63 \<Longrightarrow>
      \<exists>ok s'. put s n d = Some (ok, s') \<and> good s' \<and> (\<forall>k. k \<noteq> n \<longrightarrow> cont s' k = cont s k)
        \<and> (ok \<longrightarrow> cont s' n = Some d)"
    and del_law: "good s \<Longrightarrow> key n \<Longrightarrow>
      \<exists>s'. del s n = Some (cont s n \<noteq> None, s') \<and> good s' \<and> cont s' = (cont s)(n := None)"
    and names_law: "good s \<Longrightarrow> \<exists>ns s'. names s = Some (ns, s') \<and> good s' \<and> cont s' = cont s
        \<and> distinct ns \<and> {n \<in> set ns. key n} = dom (cont s)"
begin

lemma exec_refines:
  assumes "good s" and "op_ok c"
  shows "\<exists>r s'. kv_exec get put del names c s = Some (r, s') \<and> good s' \<and> kv_step (cont s) c r (cont s')"
proof (cases c)
  case (Get n)
  then obtain s' where "get s n = Some (cont s n, s')" "good s'" "cont s' = cont s"
    using get_law [OF assms(1), of n] assms(2) by auto
  then show ?thesis using Get kv_step.get by (simp add: kv_exec_def)
next
  case (Put n d)
  then obtain ok s' where put: "put s n d = Some (ok, s')" "good s'"
    "\<And>k. k \<noteq> n \<Longrightarrow> cont s' k = cont s k" "ok \<Longrightarrow> cont s' n = Some d"
    using put_law [OF assms(1), of n d] assms(2) by auto
  have "kv_step (cont s) (Put n d) (Did ok) (cont s')"
  proof (cases ok)
    case True
    then have "cont s' = (cont s)(n \<mapsto> d)" using put(3,4) by (auto simp: fun_eq_iff)
    then show ?thesis using True kv_step.put by simp
  qed (use put(3) kv_step.put_full in simp)
  then show ?thesis using Put put by (auto simp: kv_exec_def)
next
  case (Del n)
  then obtain s' where "del s n = Some (cont s n \<noteq> None, s')" "good s'" "cont s' = (cont s)(n := None)"
    using del_law [OF assms(1), of n] assms(2) by auto
  then show ?thesis using Del kv_step.del by (simp add: kv_exec_def)
next
  case Names
  obtain ns s' where "names s = Some (ns, s')" "good s'" "cont s' = cont s"
    "distinct ns" "{n \<in> set ns. key n} = dom (cont s)"
    using names_law [OF assms(1)] by auto
  then show ?thesis using Names kv_step.names by (simp add: kv_exec_def)
qed

lemma run_refines:
  assumes "good s" and "\<forall>c\<in>set cs. op_ok c"
  shows "\<exists>rs s'. kv_run (kv_exec get put del names) cs s = Some (rs, s') \<and> good s'
    \<and> kv_steps (cont s) cs rs (cont s')"
  using assms
proof (induction cs arbitrary: s)
  case (Cons c cs)
  obtain r s1 where "kv_exec get put del names c s = Some (r, s1)" "good s1" "kv_step (cont s) c r (cont s1)"
    using exec_refines [OF Cons.prems(1), of c] Cons.prems(2) by auto
  moreover obtain rs s' where "kv_run (kv_exec get put del names) cs s1 = Some (rs, s')" "good s'"
    "kv_steps (cont s1) cs rs (cont s')"
    using Cons.IH [OF \<open>good s1\<close>] Cons.prems(2) by auto
  ultimately show ?case by auto
qed simp

lemma put_then_get:
  assumes "good s" and "key n" and "length d < 2 ^ 63" and "put s n d = Some (True, s1)"
  shows "\<exists>s2. get s1 n = Some (Some d, s2) \<and> good s2 \<and> cont s2 = (cont s)(n \<mapsto> d)"
proof -
  have "good s1" "cont s1 = (cont s)(n \<mapsto> d)"
    using put_law [OF assms(1-3)] assms(4) by (auto simp: fun_eq_iff)
  then show ?thesis using get_law [of s1 n] assms(2) by auto
qed

end

section \<open>The store provides it\<close>

lemma key_nonempty: "key n \<Longrightarrow> n \<noteq> []"
  by (simp add: key_def)

sublocale sector_device \<subseteq> name_store "kv_read rd" "kv_write p rd wr" "kv_delete rd wr" "kv_list rd"
  "\<lambda>s. inv s \<and> kv_wf (img s) (cap s)" "\<lambda>s. kv_map (img s)" for p
proof
  fix s n d
  assume good: "inv s \<and> kv_wf (img s) (cap s)"
  then have "inv s" "kv_wf (img s) (cap s)" by simp_all
  note s = this
  show "\<exists>s'. kv_read rd s n = Some (kv_map (img s) n, s') \<and> (inv s' \<and> kv_wf (img s') (cap s'))
      \<and> kv_map (img s') = kv_map (img s)" if "key n"
    using kv_read_map [OF s] that s(2) by (fastforce simp: kv_map_def)
  show "\<exists>ok s'. kv_write p rd wr s n d = Some (ok, s') \<and> (inv s' \<and> kv_wf (img s') (cap s'))
      \<and> (\<forall>k. k \<noteq> n \<longrightarrow> kv_map (img s') k = kv_map (img s) k) \<and> (ok \<longrightarrow> kv_map (img s') n = Some d)"
    if "key n" "length d < 2 ^ 63"
    using kv_write_map [OF s that, of p] that by (fastforce simp: kv_map_def)
  show "\<exists>s'. kv_delete rd wr s n = Some (kv_map (img s) n \<noteq> None, s') \<and> (inv s' \<and> kv_wf (img s') (cap s'))
      \<and> kv_map (img s') = (kv_map (img s))(n := None)" if "key n"
    using kv_delete_map [OF s, of n] that by (fastforce simp: kv_map_def fun_eq_iff)
  have dir: "is_dir (dir_of (img s))" using is_dir_dir_of [OF img_len [OF s(1)]] .
  have "{n \<in> set (listed (dir_of (img s))). key n} = dom (kv_map (img s))"
    using mem_listed [OF dir] key_nonempty by (auto simp: kv_map_def dom_def)
  moreover have "distinct (listed (dir_of (img s)))"
    using s(2) by (intro distinct_listed) (simp add: kv_wf_def)
  ultimately show "\<exists>ns s'. kv_list rd s = Some (ns, s') \<and> (inv s' \<and> kv_wf (img s') (cap s'))
      \<and> kv_map (img s') = kv_map (img s) \<and> distinct ns \<and> {n \<in> set ns. key n} = dom (kv_map (img s))"
    using kv_list_map [OF s] s(2) by fastforce
qed

context sector_device
begin

lemma is_name_store:
  "name_store (kv_read rd) (kv_write p rd wr) (kv_delete rd wr) (kv_list rd)
     (\<lambda>s. inv s \<and> kv_wf (img s) (cap s)) (\<lambda>s. kv_map (img s))"
  by unfold_locales

end

end
