(* ===== verification/Disk.thy ===== *)
theory Disk
  imports NameStore
begin

text \<open>
  The whole storage path: \<^verbatim>\<open>store.rs\<close> over \<^verbatim>\<open>blk.rs\<close> over a conforming device. \<open>mounted\<close> bundles what
  the path relies on; the properties are the contract of the sector device and of the store with
  the driver's own definitions as the device operations. A model device, which serves a request
  at the first chance after the doorbell, shows that the assumptions can be met. A silent device
  shows what happens to the driver when they are not.
\<close>

section \<open>A mounted disk\<close>

definition mounted :: "'d hw \<Rightarrow> ('d \<Rightarrow> host) \<Rightarrow> frame \<Rightarrow> usize \<Rightarrow> nat \<Rightarrow> u16 \<Rightarrow> blk \<times> 'd machine \<Rightarrow> bool" where
  "mounted hw view f qs q io s \<longleftrightarrow>
     blk_conforming hw view (io + 16) (unat qs) q \<and> placed f qs q io \<and> blk_inv view qs q io s"

text \<open>A mounted disk that carries a well-formed store.\<close>

definition store_ready :: "'d hw \<Rightarrow> ('d \<Rightarrow> host) \<Rightarrow> frame \<Rightarrow> usize \<Rightarrow> nat \<Rightarrow> u16 \<Rightarrow> blk \<times> 'd machine \<Rightarrow> bool" where
  "store_ready hw view f qs q io s \<longleftrightarrow>
     mounted hw view f qs q io s \<and> kv_wf (disk view s) (disk_sectors view s)"

context virtio_disk
begin

lemma is_sector_device:
  "sector_device (read_sectors p hw f) (write_sectors p hw f) (disk view) (disk_sectors view) (blk_inv view qs q io)"
  by unfold_locales

end

lemma mounted_disk: "mounted hw view f qs q io s \<Longrightarrow> virtio_disk hw view f qs q io"
  by (simp add: mounted_def virtio_disk_def)

lemma mounted_inv: "mounted hw view f qs q io s \<Longrightarrow> blk_inv view qs q io s"
  by (simp add: mounted_def)

lemma mounted_step: "mounted hw view f qs q io s \<Longrightarrow> blk_inv view qs q io s' \<Longrightarrow> mounted hw view f qs q io s'"
  by (simp add: mounted_def)

lemmas mounted_sectors = virtio_disk.is_sector_device [OF mounted_disk]
lemmas ready_sectors = mounted_sectors [OF conjunct1 [OF store_ready_def [THEN iffD1]]]
lemmas ready_store = sector_device.is_name_store [OF ready_sectors]
lemmas ready_inv = mounted_inv [OF conjunct1 [OF store_ready_def [THEN iffD1]]]
lemmas ready_wf = conjunct2 [OF store_ready_def [THEN iffD1]]

lemma store_ready_step:
  "store_ready hw view f qs q io s \<Longrightarrow> blk_inv view qs q io s' \<Longrightarrow>
   kv_wf (disk view s') (disk_sectors view s') \<Longrightarrow> store_ready hw view f qs q io s'"
  by (simp add: store_ready_def mounted_def)

section \<open>A model device\<close>

definition model_hw :: "u16 \<Rightarrow> nat \<Rightarrow> nat \<Rightarrow> (host \<times> bool) hw" where
  "model_hw notify qs q =
     \<lparr>port_in = (\<lambda>w port m. (0, m)),
      port_out = (\<lambda>w port v m. if port = notify then m\<lparr>dev := (fst (dev m), True)\<rparr> else m),
      mmio_in = (\<lambda>w a m. (0, m)), mmio_out = (\<lambda>w a v m. m),
      sync = (\<lambda>m. if snd (dev m)
        then case serve qs q (fst (dev m), ram m) of (h, r) \<Rightarrow> m\<lparr>ram := r, dev := (h, False)\<rparr>
        else m)\<rparr>"

lemma model_conforming: "blk_conforming (model_hw notify qs q) fst notify qs q"
  unfolding blk_conforming_def
proof
  fix m :: "(host \<times> bool) machine"
  show "\<exists>k<POLL_LIMIT.
        let m0 = outw (model_hw notify qs q) notify 0 m in
        (\<forall>i\<le>k. ram ((sync (model_hw notify qs q) ^^ i) m0) = ram m)
        \<and> (fst (dev ((sync (model_hw notify qs q) ^^ Suc k) m0)), ram ((sync (model_hw notify qs q) ^^ Suc k) m0))
            = serve qs q (fst (dev m), ram m)"
    by (rule exI [of _ 0]) (simp add: POLL_LIMIT_def model_hw_def outw_def split: prod.split)
qed

definition model_frame :: frame where
  "model_frame = \<lparr>hdr_at = 0x100000, sts_at = 0x100010, buf_at = 0x100200\<rparr>"

lemma model_placed: "placed model_frame 128 0x200000 0xC000"
  by (simp add: placed_def model_frame_def apart_def)

interpretation model_disk: virtio_disk Dev "model_hw 0xC010 128 0x200000" fst model_frame 128 "0x200000" "0xC000"
  using model_conforming [of "0xC010" 128 "0x200000"] model_placed by unfold_locales simp_all

definition model_state :: "(nat \<Rightarrow> bytes) \<Rightarrow> nat \<Rightarrow> blk \<times> (host \<times> bool) machine" where
  "model_state img cap =
     (\<lparr>io_base = 0xC000, queue_size = 128, q_mem = 0x200000, next_avail = 0, last_used = 0\<rparr>,
      \<lparr>ram = \<lambda>_. 0, dev = (\<lparr>image = img, capacity = cap, seen = 0\<rparr>, False)\<rparr>)"

lemma zero_le16: "from_le16 (replicate 2 0) = 0"
  by (simp add: from_le16_def numeral_2_eq_2)

lemma mem_read_zero: "mem_read (\<lambda>_. 0) a n = replicate n 0"
  by (intro nth_equalityI) simp_all

lemma model_mounted:
  assumes "\<And>n. length (img n) = 512"
  shows "mounted (model_hw 0xC010 128 0x200000) fst model_frame 128 0x200000 0xC000 (model_state img cap)"
  using model_conforming [of "0xC010" 128 "0x200000"] model_placed assms
  by (simp add: mounted_def blk_inv_def model_state_def rd16_def mem_read_zero zero_le16)

lemma model_disk_image [simp]:
  "disk fst (model_state img cap) = img" "disk_sectors fst (model_state img cap) = cap"
  by (simp_all add: disk_def disk_sectors_def model_state_def)

definition blank_disk :: "nat \<Rightarrow> bytes" where
  "blank_disk = (\<lambda>k. if k = 0 then blank_superblock else replicate 512 0)"

lemma blank_disk_512: "length (blank_disk n) = 512"
  by (simp add: blank_disk_def blank_superblock_fields)

lemma blank_mounted:
  "mounted (model_hw 0xC010 128 0x200000) fst model_frame 128 0x200000 0xC000 (model_state blank_disk cap)"
  by (rule model_mounted) (rule blank_disk_512)

lemma model_ready:
  "store_ready (model_hw 0xC010 128 0x200000) fst model_frame 128 0x200000 0xC000 (model_state blank_disk 64)"
  using blank_mounted blank_image(1) [of 64 blank_disk]
  by (simp add: store_ready_def blank_disk_def)

lemma key_a: "key (str ''a'')"
  by (simp add: key_def str_Cons utf8_valid_ascii)

lemma blank_dir: "dir_of blank_disk = replicate 2048 0" "is_dir (dir_of blank_disk)"
  unfolding dir_of_def upt_1_5 by (simp_all add: blank_disk_def is_dir_def flip: replicate_add)

lemma blank_mark: "i < 64 \<Longrightarrow> name \<noteq> [] \<Longrightarrow> entry (mark_deleted name (dir_of blank_disk)) i = replicate 32 0"
  using entry_mark [OF blank_dir(2)] by (simp add: blank_dir zero_entry matches_def zero_fields)

lemma blank_top: "name \<noteq> [] \<Longrightarrow> alloc_top (mark_deleted name (dir_of blank_disk)) = 0"
  using alloc_top_le [of "mark_deleted name (dir_of blank_disk)" 0]
  by (simp add: extents_within_def extent_end_def blank_mark zero_fields sectors_of_bounds)

lemma blank_slot: "name \<noteq> [] \<Longrightarrow> find_slot (mark_deleted name (dir_of blank_disk)) = Some 0"
  by (simp add: find_slot_def blank_mark upt_conv_Cons free_entry_def)

lemma model_has_room: "name \<noteq> [] \<Longrightarrow> length d \<le> 59 * 512 \<Longrightarrow> kv_room blank_disk 64 name d"
  by (simp add: kv_room_def blank_slot blank_top sectors_of_def)

section \<open>The block driver\<close>

text \<open>
  C3. Reading a sector of a mounted disk: the request reaches the device through the descriptor
  chain in memory, and the call returns true exactly for a sector of the disk, with that sector's
  bytes in the caller's buffer. The disk is unchanged, and the driver is ready for the next request.
\<close>

theorem read_sectors_mounted:
  assumes "mounted hw view f qs q io s" and "length buf = 512"
  shows "\<exists>buf' s'. read_sectors p hw f s lba buf = Some (unat lba < disk_sectors view s, buf', s')
    \<and> (unat lba < disk_sectors view s \<longrightarrow> buf' = disk view s (unat lba))
    \<and> disk view s' = disk view s \<and> mounted hw view f qs q io s'"
  using virtio_disk.read_one [OF mounted_disk [OF assms(1)] mounted_inv [OF assms(1)] assms(2), of p lba]
    mounted_step [OF assms(1)] by blast

theorem read_sectors_mounted_witness:
  "\<exists>buf' s'. read_sectors Dev (model_hw 0xC010 128 0x200000) model_frame (model_state blank_disk 64) 0
     (replicate 512 0) = Some (True, buf', s') \<and> buf' = blank_superblock"
  using read_sectors_mounted [OF blank_mounted [of 64], of "replicate 512 0" Dev 0]
  by (auto simp: blank_disk_def)

text \<open>
  C4. Writing a sector: the call returns true exactly for a sector of the disk, and then that sector
  holds the data and every other sector is what it was; beyond the end nothing is written.
\<close>

theorem write_sectors_mounted:
  assumes "mounted hw view f qs q io s" and "length data = 512"
  shows "\<exists>s'. write_sectors p hw f s lba data = Some (unat lba < disk_sectors view s, s')
    \<and> disk view s' = (if unat lba < disk_sectors view s
        then (disk view s)(unat lba := data) else disk view s)
    \<and> disk_sectors view s' = disk_sectors view s \<and> mounted hw view f qs q io s'"
  using virtio_disk.write_one [OF mounted_disk [OF assms(1)] mounted_inv [OF assms(1)] assms(2), of p lba]
    mounted_step [OF assms(1)] by blast

theorem write_sectors_mounted_witness:
  "\<exists>s'. write_sectors Release (model_hw 0xC010 128 0x200000) model_frame (model_state blank_disk 64) 7
     (replicate 512 9) = Some (True, s') \<and> disk fst s' 7 = replicate 512 9"
  using write_sectors_mounted [OF blank_mounted [of 64], of "replicate 512 9" Release 7]
  by auto

text \<open>A device that does not answer while the driver polls, nor during the next request.\<close>

definition silent :: "'d hw \<Rightarrow> bool" where
  "silent hw \<longleftrightarrow> (\<forall>m. ram (sync hw m) = ram m) \<and> (\<forall>n v m. ram (outw hw n v m) = ram m)"

lemma silent_polls: "silent hw \<Longrightarrow> ram ((sync hw ^^ i) m) = ram m"
  by (induction i) (simp_all add: silent_def)

lemma poll_used_times_out:
  "silent hw \<Longrightarrow> rd16 a m = lu \<Longrightarrow> \<exists>m'. poll_used hw n a lu m = (False, m') \<and> ram m' = ram m"
proof (induction n arbitrary: m)
  case (Suc n)
  have "rd16 a (sync hw m) = lu" using Suc.prems by (simp add: rd16_def silent_def)
  then show ?case using Suc.IH [OF Suc.prems(1), of "sync hw m"] Suc.prems by (simp add: silent_def Let_def)
qed simp

lemma staged_memory:
  assumes pl: "placed f qs q io" and b: "queue_size b = qs" "q_mem b = q"
    and r: "r = ram (stage_ring f req (buf_at f) 512 b (stage_hdr f req lba m))"
  shows "mem_read r (buf_at f) 512 = mem_read (ram m) (buf_at f) 512"
    and "r (sts_at f) = 0"
    and "mem_read r (q + unat (used_offset qs) + 2) 2 = mem_read (ram m) (q + unat (used_offset qs) + 2) 2"
proof -
  have qs: "3 \<le> unat (queue_size b)" "unat (queue_size b) < 65536" "unat qs < 65536"
    and lims: "hdr_at f < 2 ^ 64" "sts_at f < 2 ^ 64" "buf_at f < 2 ^ 64" "(512::nat) < 2 ^ 32"
    and hs: "apart (sts_at f) 1 (hdr_at f) 16" and hb: "apart (buf_at f) 512 (hdr_at f) 16"
    and bs: "apart (buf_at f) 512 (sts_at f) 1"
    and hq: "apart q (unat (queue_mem_size qs)) (hdr_at f) 16"
    and sq: "apart (sts_at f) 1 q (unat (queue_mem_size qs))"
    and bq: "apart (buf_at f) 512 q (unat (queue_mem_size qs))"
    using pl b by (auto simp: placed_def apart_sym)
  note out = stage_ring_apart [OF qs(1,2), unfolded b]
  show "mem_read r (buf_at f) 512 = mem_read (ram m) (buf_at f) 512"
    unfolding r by (simp add: out [OF bq] stage_hdr_outside [OF hb bs])
  have "mem_read (ram (stage_hdr f req lba m)) (sts_at f) 1 = [0]"
    using apart_inside [OF hs, of 0 4] apart_inside [OF hs, of 4 4] apart_inside [OF hs, of 8 8]
    by (simp add: stage_hdr_def mem_read_apart mem_simps)
  then have "mem_read r (sts_at f) 1 = [0]"
    unfolding r by (simp only: out [OF sq])
  then show "r (sts_at f) = 0" by (simp add: mem_read_def)
  have used_in: "unat (used_offset qs) + 2 + 2 \<le> unat (queue_mem_size qs)"
    using vq.used_below_end [OF qs(3)] by simp
  note uq = apart_part [OF hq used_in] apart_part [OF sq [unfolded apart_sym [of "sts_at f"]] used_in]
  show "mem_read r (q + unat (used_offset qs) + 2) 2 = mem_read (ram m) (q + unat (used_offset qs) + 2) 2"
    using staged_ring(6) [OF qs(1,2) lims r, unfolded b] stage_hdr_outside [OF uq, of req lba m]
    by (simp only: add.assoc)
qed

lemma buf_apart_used:
  assumes "placed f qs q io"
  shows "apart (q + unat (used_offset qs) + 2) 2 (buf_at f) 512"
proof -
  have "unat (used_offset qs) + 2 + 2 \<le> unat (queue_mem_size qs)"
    using assms vq.used_below_end [of qs] by (simp add: placed_def)
  then show ?thesis
    using assms apart_part [of q "unat (queue_mem_size qs)" "buf_at f" 512 "unat (used_offset qs) + 2" 2]
    by (simp add: placed_def apart_sym add.assoc)
qed

text \<open>Memory and queue after a read has been staged and the device notified.\<close>

definition read_staged :: "'d hw \<Rightarrow> frame \<Rightarrow> u64 \<Rightarrow> bytes \<Rightarrow> blk \<times> 'd machine \<Rightarrow> 'd machine" where
  "read_staged hw f lba buf = (\<lambda>(b, m). outw hw (io_base b + 16) 0
     (stage_ring f 0 (buf_at f) 512 b (stage_hdr f 0 lba (wr_bytes (buf_at f) buf m))))"

lemma read_sectors_staged:
  assumes "placed f qs (q_mem b) (io_base b)" and "queue_size b = qs" and "length buf = 512"
  shows "read_sectors p hw f (b, m) lba buf =
      (let (fin, m') = poll_used hw POLL_LIMIT (q_mem b + unat (used_offset qs) + 2) (last_used b) (read_staged hw f lba buf (b, m))
       in if \<not> fin then Some (False, mem_read (ram m') (buf_at f) 512, b\<lparr>next_avail := next_avail b + 1\<rparr>, m')
          else Some (ram m' (sts_at f) = 0, mem_read (ram m') (buf_at f) 512,
            b\<lparr>next_avail := next_avail b + 1, last_used := last_used b + 1\<rparr>, m'))"
proof -
  have io: "unat (io_base b) + 16 < 65536" and nz: "(ucast qs :: u16) \<noteq> 0"
    using assms(1) by (auto simp: placed_def dest: arg_cong [where f = unat] simp: unsigned_ucast_eq take_bit_eq_mod)
  show ?thesis
    using assms(2,3) io nz do_io_staged [of b p hw f 0 lba "buf_at f" 512 "wr_bytes (buf_at f) buf m"]
    by (simp add: read_sectors_def read_staged_def blk_consts Let_def split: prod.splits)
qed

lemma read_staged_silent:
  assumes "silent hw" and pl: "placed f qs (q_mem b) (io_base b)" and "queue_size b = qs" and "length buf = 512"
  shows "mem_read (ram (read_staged hw f lba buf (b, m))) (buf_at f) 512 = buf"
    and "ram (read_staged hw f lba buf (b, m)) (sts_at f) = 0"
    and "rd16 (q_mem b + unat (used_offset qs) + 2) (read_staged hw f lba buf (b, m))
      = rd16 (q_mem b + unat (used_offset qs) + 2) m"
  using staged_memory [OF pl assms(3) refl refl, of 0 lba "wr_bytes (buf_at f) buf m"]
    assms(1,4) buf_apart_used [OF pl]
  by (simp_all add: read_staged_def silent_def mem_simps rd16_def mem_read_apart)

text \<open>Nothing in the used ring: the read times out. Something there: it is taken for the answer.\<close>

lemma silent_read_times_out:
  assumes "silent hw" and pl: "placed f qs (q_mem b) (io_base b)" and "queue_size b = qs" and "length buf = 512"
    and "rd16 (q_mem b + unat (used_offset qs) + 2) m = last_used b"
  shows "\<exists>m1. read_sectors p hw f (b, m) lba buf = Some (False, buf, b\<lparr>next_avail := next_avail b + 1\<rparr>, m1)"
proof -
  note mem = read_staged_silent [OF assms(1-4)]
  obtain m1 where "poll_used hw POLL_LIMIT (q_mem b + unat (used_offset qs) + 2) (last_used b) (read_staged hw f lba buf (b, m))
      = (False, m1)" "ram m1 = ram (read_staged hw f lba buf (b, m))"
    using poll_used_times_out [OF assms(1), of "q_mem b + unat (used_offset qs) + 2" "read_staged hw f lba buf (b, m)"
        "last_used b" POLL_LIMIT] mem(3) assms(5) by auto
  then show ?thesis by (simp add: read_sectors_staged [OF pl assms(3,4)] mem(1))
qed

lemma silent_read_accepts:
  assumes "silent hw" and pl: "placed f qs (q_mem b) (io_base b)" and "queue_size b = qs" and "length buf = 512"
    and "rd16 (q_mem b + unat (used_offset qs) + 2) m \<noteq> last_used b"
  shows "\<exists>s'. read_sectors p hw f (b, m) lba buf = Some (True, buf, s')"
proof -
  note mem = read_staged_silent [OF assms(1-4)]
  let ?m = "(sync hw ^^ Suc 0) (read_staged hw f lba buf (b, m))"
  have "rd16 (q_mem b + unat (used_offset qs) + 2) ?m \<noteq> last_used b"
    using mem(3) assms(1,5) by (simp add: rd16_def silent_def)
  then have "poll_used hw POLL_LIMIT (q_mem b + unat (used_offset qs) + 2) (last_used b) (read_staged hw f lba buf (b, m))
      = (True, ?m)"
    by (intro poll_used_stops) (simp_all add: POLL_LIMIT_def)
  then show ?thesis
    using assms(1) by (simp add: read_sectors_staged [OF pl assms(3,4)] mem(1,2) silent_def)
qed

text \<open>
  C6. A completion that comes after the poll has given up is taken for the next request's: the
  timed-out read returns false and leaves \<open>last_used\<close> behind; once the device has published its
  late used element, the next read returns true at once, with the caller's buffer as it was passed
  in, whatever sector it asked for.
\<close>

theorem late_completion:
  assumes "silent hw" and "placed f qs q io" and "queue_size b = qs" "q_mem b = q" "io_base b = io"
    and "length buf = 512" and "length buf2 = 512"
    and "rd16 (q + unat (used_offset qs) + 2) m = last_used b"
  shows "\<exists>m1. read_sectors p hw f (b, m) lba buf = Some (False, buf, b\<lparr>next_avail := next_avail b + 1\<rparr>, m1)
    \<and> (\<forall>m2. rd16 (q + unat (used_offset qs) + 2) m2 = last_used b + 1 \<longrightarrow>
        (\<exists>s3. read_sectors p hw f (b\<lparr>next_avail := next_avail b + 1\<rparr>, m2) lba2 buf2 = Some (True, buf2, s3)))"
proof -
  have pl: "placed f qs (q_mem b) (io_base b)" using assms(2,4,5) by simp
  obtain m1 where "read_sectors p hw f (b, m) lba buf = Some (False, buf, b\<lparr>next_avail := next_avail b + 1\<rparr>, m1)"
    using silent_read_times_out [OF assms(1) pl assms(3,6)] assms(4,8) by blast
  moreover have "\<exists>s3. read_sectors p hw f (b\<lparr>next_avail := next_avail b + 1\<rparr>, m2) lba2 buf2 = Some (True, buf2, s3)"
    if "rd16 (q + unat (used_offset qs) + 2) m2 = last_used b + 1" for m2
    using that silent_read_accepts [OF assms(1), of f qs "b\<lparr>next_avail := next_avail b + 1\<rparr>" buf2 m2] pl assms(3,4,7) by simp
  ultimately show ?thesis by blast
qed

definition silent_hw :: "unit hw" where
  "silent_hw =
     \<lparr>port_in = (\<lambda>w port m. (0, m)), port_out = (\<lambda>w port v m. m),
      mmio_in = (\<lambda>w a m. (0, m)), mmio_out = (\<lambda>w a v m. m), sync = (\<lambda>m. m)\<rparr>"

definition idle_blk :: blk where
  "idle_blk = \<lparr>io_base = 0xC000, queue_size = 128, q_mem = 0x200000, next_avail = 0, last_used = 0\<rparr>"

theorem late_completion_witness:
  "\<exists>m1 s3. read_sectors Dev silent_hw model_frame (idle_blk, \<lparr>ram = \<lambda>_. 0, dev = ()\<rparr>) 3 (replicate 512 1)
       = Some (False, replicate 512 1, idle_blk\<lparr>next_avail := 1\<rparr>, m1)
     \<and> read_sectors Dev silent_hw model_frame
         (idle_blk\<lparr>next_avail := 1\<rparr>, wr16 (0x200000 + unat (used_offset 128) + 2) 1 m1) 4 (replicate 512 2)
       = Some (True, replicate 512 2, s3)"
proof -
  let ?m = "\<lparr>ram = \<lambda>_. 0, dev = ()\<rparr>"
  have silent: "silent silent_hw" by (simp add: silent_def silent_hw_def outw_def)
  have zero: "rd16 (0x200000 + unat (used_offset 128) + 2) ?m = last_used idle_blk"
    by (simp add: rd16_def mem_read_zero zero_le16 idle_blk_def)
  have late: "rd16 (0x200000 + unat (used_offset 128) + 2) (wr16 (0x200000 + unat (used_offset 128) + 2) 1 m1)
      = last_used idle_blk + 1" for m1 :: "unit machine"
    by (simp add: rd16_def mem_simps idle_blk_def)
  have next_idx: "next_avail idle_blk + 1 = 1" by (simp add: idle_blk_def)
  show ?thesis
    using late_completion [OF silent model_placed, of idle_blk "replicate 512 1" "replicate 512 2" ?m Dev 3 4] zero late
    unfolding next_idx by (fastforce simp: idle_blk_def)
qed

end
