(* ===== verification/Storage.thy ===== *)
theory Storage
  imports Disk
begin

text \<open>
  The properties of the key-value store on a mounted disk: the laws of the sector-device context
  with \<open>read_sectors\<close> and \<open>write_sectors\<close> of the driver as the device.
\<close>

abbreviation rds :: "profile \<Rightarrow> 'd hw \<Rightarrow> frame \<Rightarrow> blk \<times> 'd machine \<Rightarrow> u64 \<Rightarrow> bytes \<Rightarrow>
    (bool \<times> bytes \<times> (blk \<times> 'd machine)) option" where
  "rds p hw f \<equiv> read_sectors p hw f"

abbreviation wrs :: "profile \<Rightarrow> 'd hw \<Rightarrow> frame \<Rightarrow> blk \<times> 'd machine \<Rightarrow> u64 \<Rightarrow> bytes \<Rightarrow>
    (bool \<times> (blk \<times> 'd machine)) option" where
  "wrs p hw f \<equiv> write_sectors p hw f"

abbreviation dev_hw :: "(host \<times> bool) hw" where
  "dev_hw \<equiv> model_hw 0xC010 128 0x200000"

lemma zero_magic: "from_le32 (bslice 0 4 (replicate 512 0)) \<noteq> MAGIC"
proof -
  have "bslice 0 4 (replicate 512 (0 :: u8)) = [0, 0, 0, 0]"
    by (simp add: bslice_def numeral_eq_Suc)
  then show ?thesis by (simp add: from_le32_def MAGIC_def)
qed

section \<open>Opening and the operations\<close>

text \<open>
  C5. \<open>KvStore::open\<close> on a disk of at least 5 and fewer than 2^23 sectors: without the magic number the disk is
  formatted, and the result is a well-formed store with no names; with it the disk is left as it is,
  so what was stored before a reboot is there after it.
\<close>

theorem kv_open_disk:
  assumes "mounted hw view f qs q io s" and "5 \<le> disk_sectors view s" and "disk_sectors view s < 2 ^ 23"
  shows "\<exists>s'. kv_open (rds p hw f) (wrs p hw f) s = Some s'
    \<and> (if from_le32 (bslice 0 4 (disk view s 0)) = MAGIC
       then mounted hw view f qs q io s' \<and> disk view s' = disk view s \<and> disk_sectors view s' = disk_sectors view s
       else store_ready hw view f qs q io s' \<and> (\<forall>n. kv_map (disk view s') n = None)
         \<and> listed (dir_of (disk view s')) = [])"
proof -
  note d = mounted_sectors [OF assms(1), of p] mounted_inv [OF assms(1)]
  show ?thesis
    using sector_device.kv_open_formatted [OF d] sector_device.kv_open_blank [OF d]
      assms(2,3) mounted_step [OF assms(1)] key_nonempty
    by (fastforce simp: store_ready_def kv_map_def)
qed

theorem kv_open_disk_witness:
  "\<exists>s'. kv_open (rds Dev dev_hw model_frame) (wrs Dev dev_hw model_frame)
      (model_state (\<lambda>_. replicate 512 0) 64) = Some s' \<and> kv_map (disk fst s') (str ''a'') = None"
proof -
  have "mounted dev_hw fst model_frame 128 0x200000 0xC000 (model_state (\<lambda>_. replicate 512 0) 64)"
    by (rule model_mounted) simp
  moreover have "from_le32 (bslice 0 4 (replicate 512 0)) \<noteq> MAGIC"
    using zero_magic .
  ultimately show ?thesis
    using kv_open_disk [of dev_hw fst model_frame 128 "0x200000" "0xC000" "model_state (\<lambda>_. replicate 512 0) 64" Dev]
    by auto
qed




text \<open>
  \<open>read\<close> on a well-formed store returns the contents the directory's last matching valid entry
  names, whole, and \<open>None\<close> without one; the disk is unchanged.
\<close>

theorem kv_read_ready:
  assumes "store_ready hw view f qs q io s"
  shows "\<exists>s'. kv_read (rds p hw f) s name = Some (kv_lookup (disk view s) name, s')
    \<and> store_ready hw view f qs q io s' \<and> disk view s' = disk view s"
proof -
  obtain s' where "kv_read (rds p hw f) s name = Some (kv_lookup (disk view s) name, s')"
    and s': "blk_inv view qs q io s'" "disk view s' = disk view s" "disk_sectors view s' = disk_sectors view s"
    using sector_device.kv_read_map [OF ready_sectors [OF assms(1), of p] ready_inv [OF assms(1)] ready_wf [OF assms(1)], of name]
    by auto
  moreover have "store_ready hw view f qs q io s'"
    using store_ready_step [OF assms s'(1)] ready_wf [OF assms] s'(2,3) by simp
  ultimately show ?thesis by blast
qed

theorem kv_read_ready_witness:
  "\<exists>s'. kv_read (rds Dev dev_hw model_frame) (model_state blank_disk 64) (str ''a'') = Some (None, s')"
  using kv_read_ready [OF model_ready, of Dev "str ''a''"]
    blank_image(2) [of 64 blank_disk "str ''a''"] by (auto simp: blank_disk_def str_Cons)

text \<open>
  \<open>delete\<close> returns whether the name was there and removes it alone; nothing else changes.
\<close>

theorem kv_delete_ready:
  assumes "store_ready hw view f qs q io s"
  shows "\<exists>s'. kv_delete (rds p hw f) (wrs p hw f) s name = Some (kv_lookup (disk view s) name \<noteq> None, s')
    \<and> store_ready hw view f qs q io s'
    \<and> kv_lookup (disk view s') = (kv_lookup (disk view s))(name := None)"
proof -
  obtain s' where "kv_delete (rds p hw f) (wrs p hw f) s name = Some (kv_lookup (disk view s) name \<noteq> None, s')"
    and s': "blk_inv view qs q io s'" "disk_sectors view s' = disk_sectors view s"
      "kv_wf (disk view s') (disk_sectors view s)"
      "\<forall>n. kv_lookup (disk view s') n = (if n = name then None else kv_lookup (disk view s) n)"
    using sector_device.kv_delete_map [OF ready_sectors [OF assms(1), of p] ready_inv [OF assms(1)] ready_wf [OF assms(1)], of name]
    by auto
  moreover have "store_ready hw view f qs q io s'"
    using store_ready_step [OF assms s'(1)] s'(2,3) by simp
  ultimately show ?thesis by (auto simp: fun_eq_iff)
qed

theorem kv_delete_ready_witness:
  "\<exists>s'. kv_delete (rds Dev dev_hw model_frame) (wrs Dev dev_hw model_frame)
     (model_state blank_disk 64) (str ''a'') = Some (False, s')"
  using kv_delete_ready [OF model_ready, of Dev "str ''a''"]
    blank_image(2) [of 64 blank_disk "str ''a''"] by (auto simp: blank_disk_def str_Cons)

section \<open>Sequences of operations\<close>

abbreviation disk_exec :: "profile \<Rightarrow> 'd hw \<Rightarrow> frame \<Rightarrow> kv_op \<Rightarrow> blk \<times> 'd machine \<Rightarrow>
    (kv_result \<times> (blk \<times> 'd machine)) option" where
  "disk_exec p hw f \<equiv> kv_exec (kv_read (rds p hw f)) (kv_write p (rds p hw f) (wrs p hw f))
     (kv_delete (rds p hw f) (wrs p hw f)) (kv_list (rds p hw f))"

text \<open>
  C1. Refinement: any sequence of reads, writes, deletions and listings with storable names runs
  without a panic, and its answers are those of the same sequence on a finite map from names to
  contents, where only a write may fail and then spares the other names. A listing has each name
  once.
\<close>

theorem kv_sequence:
  assumes "store_ready hw view f qs q io s" and "\<forall>c\<in>set cs. op_ok c"
  shows "\<exists>rs s'. kv_run (disk_exec p hw f) cs s = Some (rs, s') \<and> store_ready hw view f qs q io s'
    \<and> kv_steps (kv_map (disk view s)) cs rs (kv_map (disk view s'))"
proof -
  obtain rs s' where "kv_run (disk_exec p hw f) cs s = Some (rs, s')"
    "blk_inv view qs q io s'" "kv_wf (disk view s') (disk_sectors view s')"
    "kv_steps (kv_map (disk view s)) cs rs (kv_map (disk view s'))"
    using name_store.run_refines [OF ready_store [OF assms(1), of p p] conjI [OF ready_inv [OF assms(1)] ready_wf [OF assms(1)]] assms(2)]
    by auto
  then show ?thesis using store_ready_step [OF assms(1)] by blast
qed

theorem kv_sequence_witness:
  "\<exists>rs s'. kv_run (disk_exec Dev dev_hw model_frame)
       [Put (str ''a'') [1, 2], Get (str ''a''), Del (str ''a''), Names] (model_state blank_disk 64) = Some (rs, s')
     \<and> kv_steps (kv_map blank_disk) [Put (str ''a'') [1, 2], Get (str ''a''), Del (str ''a''), Names] rs
         (kv_map (disk fst s'))"
  using kv_sequence [OF model_ready, of "[Put (str ''a'') [1, 2], Get (str ''a''), Del (str ''a''), Names]" Dev]
    key_a by (simp del: kv_run.simps kv_steps.simps) blast

section \<open>Where the store loses data\<close>

text \<open>
  A failed overwrite is not harmless for the name itself. If the name's extent is the last one
  and the new data does not fit, \<open>write\<close> returns false after it has written over that extent, with
  the directory still naming it: reading the name then gives a prefix of the new data.
\<close>

theorem failed_overwrite_spoils:
  assumes "store_ready hw view f qs q io s" and "key name" and "length data < 2 ^ 63"
    and "best_entry name (dir_of (disk view s)) = Some (off, sz)"
    and "alloc_top (mark_deleted name (dir_of (disk view s))) = unat off"
    and "unat sz \<le> length data" and "\<not> kv_room (disk view s) (disk_sectors view s) name data"
  shows "\<exists>s'. kv_write p (rds p hw f) (wrs p hw f) s name data = Some (False, s')
    \<and> kv_map (disk view s') name = Some (take (unat sz) data)"
  using sector_device.kv_write_spoils [OF ready_sectors [OF assms(1), of p] ready_inv [OF assms(1)] ready_wf [OF assms(1)]
      assms(2-7), of p] assms(2)
  by (auto simp: kv_map_def)

text \<open>
  A disk of 64 sectors that holds one name with the single byte 7, and its overwrite by 60 sectors
  of nines: the call fails and the name now reads as 9.
\<close>

definition one_dir :: bytes where
  "one_dir = splice_at 0 (fill_entry (str ''a'') 0 1 (replicate 32 0)) (mark_deleted (str ''a'') (dir_of blank_disk))"

definition one_disk :: "nat \<Rightarrow> bytes" where
  "one_disk = (\<lambda>k. if k = 0 then splice_at 8 (to_le32 (of_nat (live_entries one_dir))) blank_superblock
     else if k < 5 then bslice (512 * (k - 1)) 512 one_dir
     else if k = 5 then 7 # replicate 511 0 else replicate 512 0)"

lemma one_dir_entries:
  "is_dir one_dir" "i < 64 \<Longrightarrow> entry one_dir i =
     (if i = 0 then fill_entry (str ''a'') 0 1 (replicate 32 0) else replicate 32 0)"
proof -
  have a: "str ''a'' \<noteq> []" by (simp add: str_Cons)
  note e0 = blank_mark [OF _ a, of 0, simplified]
  show "is_dir one_dir"
    unfolding one_dir_def using blank_dir(2) by (intro is_dir_splice) (simp_all add: fill_entry_fields)
  show "entry one_dir i = (if i = 0 then fill_entry (str ''a'') 0 1 (replicate 32 0) else replicate 32 0)"
    if "i < 64"
    using entry_fill [OF is_dir_mark [OF blank_dir(2)], of 0 i "str ''a''" 0 1 "str ''a''"] that
    by (simp add: one_dir_def e0 blank_mark [OF that a])
qed

lemma one_disk_dir: "dir_of one_disk = one_dir"
  by (rule dir_of_slices [OF one_dir_entries(1)]) (simp add: one_disk_def)

lemma one_disk_wf: "kv_wf one_disk 64"
proof (rule commit_image(1))
  show "kv_wf blank_disk 64" using blank_image(1) [of 64 blank_disk] by (simp add: blank_disk_def)
  show "find_slot (mark_deleted (str ''a'') (dir_of blank_disk)) = Some 0"
    using blank_slot [OF key_nonempty [OF key_a]] .
  show "extents_within (unat (0 :: u32)) (mark_deleted (str ''a'') (dir_of blank_disk))"
    using blank_top [OF key_nonempty [OF key_a]] alloc_top_le [of _ 0] by simp
  show "dir_of one_disk = splice_at (0 * 32) (fill_entry (str ''a'') 0 (of_nat (length [7 :: u8]))
      (entry (mark_deleted (str ''a'') (dir_of blank_disk)) 0)) (mark_deleted (str ''a'') (dir_of blank_disk))"
    using blank_mark [of 0, OF _ key_nonempty [OF key_a]] by (simp add: one_disk_dir one_dir_def)
  show "one_disk 0 = splice_at 8 (to_le32 (of_nat (live_entries (dir_of one_disk)))) (blank_disk 0)"
    unfolding one_disk_dir by (simp add: one_disk_def blank_disk_def)
  show "one_disk k = (if 5 + unat (0 :: u32) \<le> k \<and> k < 5 + unat (0 :: u32) + sectors_of (length [7 :: u8])
      then bslice (512 * (k - (5 + unat (0 :: u32)))) 512
        (splice_at 0 [7] (replicate (512 * sectors_of (length [7 :: u8])) 0)) else blank_disk k)" if "5 \<le> k" for k
    using that by (auto simp: one_disk_def blank_disk_def sectors_of_def splice_at_def bslice_def)
qed (simp_all add: blank_disk_512 key_a sectors_of_def)

lemma one_disk_ready: "store_ready dev_hw fst model_frame 128 0x200000 0xC000 (model_state one_disk 64)"
proof -
  have "length (one_disk n) = 512" for n
    using one_dir_entries(1) by (simp add: one_disk_def blank_superblock_fields is_dir_def)
  then show ?thesis
    using model_mounted [of one_disk 64] one_disk_wf by (simp add: store_ready_def)
qed

theorem failed_overwrite_spoils_witness:
  "\<exists>s'. kv_write Dev (rds Dev dev_hw model_frame) (wrs Dev dev_hw model_frame)
     (model_state one_disk 64) (str ''a'') (replicate (60 * 512) 9) = Some (False, s')
   \<and> kv_map (disk fst s') (str ''a'') = Some [9]"
proof -
  let ?d = "mark_deleted (str ''a'') one_dir"
  note a = key_nonempty [OF key_a]
  note fill = fill_entry_fields [of "replicate 32 0" "str ''a''" 0 1]
    fill_entry_key [of "replicate 32 0" "str ''a''", OF _ key_a, where off = 0 and sz = 1]
  have best: "best_entry (str ''a'') one_dir = Some (0, 1)"
  proof -
    have "\<not> matches (str ''a'') (replicate 32 0)" using a by (simp add: matches_def zero_fields)
    then have only: "i = 0" if "i < 64" "matches (str ''a'') (entry one_dir i)" for i
      using that by (simp add: one_dir_entries(2) split: if_splits)
    have hit: "matches (str ''a'') (entry one_dir 0)" using fill(6) by (simp add: one_dir_entries(2))
    show ?thesis
      using best_entry_single [OF _ hit only] fill(3,4) by (simp add: one_dir_entries(2))
  qed
  have "extent_end (entry ?d i) = 0" if i: "i < 64" and flag: "e_flags (entry ?d i) = 0" for i
  proof (cases "i = 0")
    case True
    then show ?thesis using i flag fill(6) fields_mark(3) [OF one_dir_entries(1) i, of "str ''a''"]
      by (simp add: one_dir_entries(2))
  next
    case False
    then have "entry one_dir i = replicate 32 0" using i by (simp add: one_dir_entries(2))
    then show ?thesis
      using fields_mark(1,2) [OF one_dir_entries(1) i, of "str ''a''"]
      by (simp add: extent_end_def zero_fields sectors_of_bounds)
  qed
  then have "extents_within 0 ?d" by (simp add: extents_within_def)
  then have top: "alloc_top ?d = 0" using alloc_top_le [of ?d 0] by simp
  have "\<not> kv_room one_disk 64 (str ''a'') (replicate (60 * 512) 9)"
    unfolding kv_room_def one_disk_dir top by (simp add: sectors_of_def)
  then show ?thesis
    using failed_overwrite_spoils [OF one_disk_ready key_a, of "replicate (60 * 512) 9" 0 1 Dev]
    unfolding model_disk_image one_disk_dir top
    by (simp add: best take_replicate)
qed

text \<open>
  A name of 20 bytes or more: \<open>write\<close> returns true, but the directory holds only its first 19
  bytes, so reading the same name finds nothing.
\<close>

theorem long_name_lost:
  assumes "store_ready hw view f qs q io s" and "20 \<le> length name" and "length data < 2 ^ 63"
    and "kv_write p (rds p hw f) (wrs p hw f) s name data = Some (True, s')"
  shows "\<exists>s''. kv_read (rds p hw f) s' name = Some (None, s'')"
  using sector_device.kv_write_long_name [OF ready_sectors [OF assms(1), of p] ready_inv [OF assms(1)] ready_wf [OF assms(1)]
      assms(3,2,4)] .

theorem long_name_lost_witness:
  "\<exists>s' s''. kv_write Dev (rds Dev dev_hw model_frame) (wrs Dev dev_hw model_frame)
     (model_state blank_disk 64) (replicate 20 0x61) [1] = Some (True, s')
   \<and> kv_read (rds Dev dev_hw model_frame) s' (replicate 20 0x61) = Some (None, s'')"
proof -
  obtain s' where s': "kv_write Dev (rds Dev dev_hw model_frame) (wrs Dev dev_hw model_frame)
     (model_state blank_disk 64) (replicate 20 0x61) [1] = Some (True, s')"
    using sector_device.kv_write_effect [OF ready_sectors [OF model_ready] ready_inv [OF model_ready]
        ready_wf [OF model_ready], of "[1]" Dev Dev "replicate 20 0x61"]
      model_has_room [of "replicate 20 0x61" "[1]"] by auto
  with long_name_lost [OF model_ready _ _ s'] show ?thesis by auto
qed

end
