(* ===== verification/Rtc.thy ===== *)
theory Rtc
  imports Machine
begin

text \<open>
  The CMOS clock (\<^verbatim>\<open>rtc.rs\<close>): reading the registers, decoding BCD, and the conversion to a Unix
  timestamp, with the Gregorian calendar as its reference.

  \<open>read_unix_timestamp\<close> busy-waits on the update flag: an outer \<open>None\<close> is a wait that never ends,
  an inner \<open>None\<close> the panic of an out-of-range month index. The \<open>i64\<close> arithmetic is on \<open>int\<close>: the
  operands are \<open>u8\<close> registers, so no intermediate value comes near \<open>2 ^ 63\<close>.
\<close>

definition CMOS_ADDR :: u16 where "CMOS_ADDR = 0x70"
definition CMOS_DATA :: u16 where "CMOS_DATA = 0x71"

definition cmos_read :: "'d hw \<Rightarrow> u8 \<Rightarrow> 'd machine \<Rightarrow> u8 \<times> 'd machine" where
  "cmos_read hw reg m = inb hw CMOS_DATA (outb hw CMOS_ADDR reg m)"

definition bcd_to_bin :: "u8 \<Rightarrow> u8" where
  "bcd_to_bin v = (v AND 0x0F) + (drop_bit 4 v * 10)"

text \<open>\<open>while cmos_read(0x0A) & 0x80 != 0 {}\<close>\<close>

partial_function (option) wait_update :: "'d hw \<Rightarrow> 'd machine \<Rightarrow> 'd machine option" where
  "wait_update hw m =
     (let (v, m') = cmos_read hw 0x0A m
      in if v AND 0x80 \<noteq> 0 then wait_update hw m' else Some m')"

definition DAYS_IN_MONTH :: "int list" where
  "DAYS_IN_MONTH = [31, 28, 31, 30, 31, 30, 31, 31, 30, 31, 30, 31]"

text \<open>\<open>for m in 0..n { days += DAYS_IN_MONTH[m] }\<close>, the index checked.\<close>

function month_loop :: "nat \<Rightarrow> nat \<Rightarrow> int \<Rightarrow> int option" where
  "month_loop m n days =
     (if m < n then
        if m < length DAYS_IN_MONTH then month_loop (Suc m) n (days + DAYS_IN_MONTH ! m) else None
      else Some days)"
  by pat_completeness auto
termination
  by (relation "measure (\<lambda>(m, n, days). length DAYS_IN_MONTH - m)") auto

declare month_loop.simps [simp del]

definition is_leap :: "int \<Rightarrow> bool" where
  "is_leap y \<longleftrightarrow> (y mod 4 = 0 \<and> y mod 100 \<noteq> 0) \<or> y mod 400 = 0"

text \<open>\<open>(mo - 1) as usize\<close> for an \<open>i64\<close>.\<close>

definition i64_as_usize :: "int \<Rightarrow> nat" where
  "i64_as_usize i = nat (i mod 2 ^ 64)"

definition timestamp :: "int \<Rightarrow> int \<Rightarrow> int \<Rightarrow> int \<Rightarrow> int \<Rightarrow> int \<Rightarrow> int option" where
  "timestamp y mo d h mi s = do {
     let full_year = 2000 + y;
     let yy = full_year - 1970;
     days \<leftarrow> month_loop 0 (i64_as_usize (mo - 1)) (yy * 365 + yy div 4 - yy div 100 + yy div 400);
     let days = (if is_leap full_year \<and> mo > 2 then days + 1 else days);
     let days = days + (d - 1);
     Some (days * 86400 + h * 3600 + mi * 60 + s)
   }"

definition decode_reg :: "u8 \<Rightarrow> u8 \<Rightarrow> int" where
  "decode_reg reg_b v = uint (if reg_b AND 0x04 = 0 then bcd_to_bin v else v)"

definition read_unix_timestamp :: "'d hw \<Rightarrow> 'd machine \<Rightarrow> (int option \<times> 'd machine) option" where
  "read_unix_timestamp hw m = do {
     m \<leftarrow> wait_update hw m;
     let (sec, m) = cmos_read hw 0x00 m;
     let (min, m) = cmos_read hw 0x02 m;
     let (hour, m) = cmos_read hw 0x04 m;
     let (day, m) = cmos_read hw 0x07 m;
     let (mon, m) = cmos_read hw 0x08 m;
     let (year, m) = cmos_read hw 0x09 m;
     let (reg_b, m) = cmos_read hw 0x0B m;
     let dec = decode_reg reg_b;
     Some (timestamp (dec year) (dec mon) (dec day) (dec hour) (dec min) (dec sec), m)
   }"

section \<open>The calendar the timestamp is measured against\<close>

definition year_days :: "int \<Rightarrow> int" where
  "year_days y = (if is_leap y then 366 else 365)"

definition month_days :: "int \<Rightarrow> nat \<Rightarrow> int" where
  "month_days y m = (if m = 2 \<and> is_leap y then 29 else DAYS_IN_MONTH ! (m - 1))"

text \<open>Days from 1970-01-01 to the given date, by adding up whole years and whole months.\<close>

definition civil_days :: "nat \<Rightarrow> nat \<Rightarrow> int \<Rightarrow> int" where
  "civil_days year mo d =
     (\<Sum>y\<in>{1970..<year}. year_days (int y)) + (\<Sum>m\<in>{1..<mo}. month_days (int year) m) + (d - 1)"

definition unix_time :: "nat \<Rightarrow> nat \<Rightarrow> int \<Rightarrow> int \<Rightarrow> int \<Rightarrow> int \<Rightarrow> int" where
  "unix_time year mo d h mi s = civil_days year mo d * 86400 + h * 3600 + mi * 60 + s"

section \<open>BCD\<close>

lemma unat_bcd_to_bin: "unat (bcd_to_bin v) = unat v mod 16 + (unat v div 16) * 10"
proof -
  have lo: "unat (v AND 0x0F) = unat v mod 16"
    by (simp add: unsigned_and_eq nat_and_15)
  have hi: "unat (drop_bit 4 v) = unat v div 16"
    by (simp add: drop_bit_eq_div unat_div_distrib)
  have "unat v < 256" by (rule unat_u8_less)
  then have "unat v mod 16 + (unat v div 16) * 10 < 256" by linarith
  with lo hi show ?thesis
    by (simp add: bcd_to_bin_def unat_word_ariths)
qed

definition to_bcd :: "nat \<Rightarrow> u8" where
  "to_bcd n = of_nat (16 * (n div 10) + n mod 10)"

lemma bcd_roundtrip: "n < 100 \<Longrightarrow> unat (bcd_to_bin (to_bcd n)) = n"
proof -
  assume n: "n < 100"
  then have "16 * (n div 10) + n mod 10 < 256" by linarith
  then have u: "unat (to_bcd n) = 16 * (n div 10) + n mod 10"
    by (simp only: to_bcd_def unat_of_nat) simp
  have "(16 * (n div 10) + n mod 10) mod 16 = n mod 10"
    by simp
  moreover have "(16 * (n div 10) + n mod 10) div 16 = n div 10"
    by simp
  ultimately show ?thesis by (simp add: unat_bcd_to_bin u)
qed

lemma decode_bcd: "reg_b AND 0x04 = 0 \<Longrightarrow> n < 100 \<Longrightarrow> decode_reg reg_b (to_bcd n) = int n"
  using bcd_roundtrip [of n] by (simp add: decode_reg_def uint_nat)

section \<open>Months and years\<close>

lemma month_loop_sum:
  "m \<le> n \<Longrightarrow> n \<le> 12 \<Longrightarrow>
   month_loop m n days = Some (days + (\<Sum>i\<in>{m..<n}. DAYS_IN_MONTH ! i))"
proof (induction m n days rule: month_loop.induct)
  case (1 m n days)
  show ?case
  proof (cases "m < n")
    case True
    then have "m < length DAYS_IN_MONTH" using "1.prems" by (simp add: DAYS_IN_MONTH_def)
    with True "1.IH" "1.prems" show ?thesis
      by (simp add: month_loop.simps [of m n] sum.atLeast_Suc_lessThan)
  next
    case False
    then show ?thesis using "1.prems" by (subst month_loop.simps) simp
  qed
qed

lemma month_loop_panic: "m \<le> 12 \<Longrightarrow> 12 < n \<Longrightarrow> month_loop m n days = None"
proof (induction m n days rule: month_loop.induct)
  case (1 m n days)
  show ?case
    by (subst month_loop.simps) (use 1 in \<open>auto simp: DAYS_IN_MONTH_def\<close>)
qed

lemma month_sum_shift:
  assumes "1 \<le> mo"
  shows "(\<Sum>m\<in>{1..<mo}. month_days y m) =
    (\<Sum>i\<in>{0..<mo - 1}. DAYS_IN_MONTH ! i) + (if is_leap y \<and> mo > 2 then 1 else 0)"
  using assms
proof (induction mo rule: nat_induct_at_least)
  case (Suc mo)
  then have "{1..<Suc mo} = insert mo {1..<mo}" "{0..<mo} = insert (mo - 1) {0..<mo - 1}"
    by auto
  moreover have "DAYS_IN_MONTH ! Suc 0 = 28" by (simp add: DAYS_IN_MONTH_def)
  ultimately show ?case using Suc by (auto simp: month_days_def)
qed simp

lemma is_leap_century: "k < 130 \<Longrightarrow> is_leap (1970 + int k) \<longleftrightarrow> k mod 4 = 2"
proof -
  have "list_all (\<lambda>k. is_leap (1970 + int k) = (k mod 4 = 2)) [0..<130]" by code_simp
  then show "k < 130 \<Longrightarrow> is_leap (1970 + int k) \<longleftrightarrow> k mod 4 = 2"
    by (simp add: list_all_iff)
qed

lemma years_sum:
  "k \<le> 130 \<Longrightarrow> (\<Sum>y\<in>{1970..<1970 + k}. year_days (int y)) = 365 * int k + int ((k + 1) div 4)"
proof (induction k)
  case (Suc k)
  have "{1970..<1970 + Suc k} = insert (1970 + k) {1970..<1970 + k}" by auto
  moreover have "(k + 2) div 4 = (k + 1) div 4 + (if k mod 4 = 2 then 1 else 0)" by presburger
  ultimately show ?case using Suc is_leap_century [of k] by (simp add: year_days_def)
qed simp

section \<open>The timestamp against the calendar\<close>

text \<open>How many days the formula of the code lags behind the calendar.\<close>

definition lag_days :: "nat \<Rightarrow> int" where
  "lag_days y = (if y mod 4 = 1 then 1 else 0) + (if 70 \<le> y then 1 else 0)"

lemma leap_formula:
  "y < 100 \<Longrightarrow> int ((30 + y + 1) div 4) - lag_days y
     = (30 + int y) div 4 - (30 + int y) div 100 + (30 + int y) div 400"
proof -
  have "list_all (\<lambda>y. int ((30 + y + 1) div 4) - lag_days y
     = (30 + int y) div 4 - (30 + int y) div 100 + (30 + int y) div 400) [0..<100]" by code_simp
  then show "y < 100 \<Longrightarrow> ?thesis" by (simp add: list_all_iff)
qed

lemma timestamp_calendar:
  assumes "y < 100" and "1 \<le> mo" and "mo \<le> 12"
  shows "timestamp (int y) (int mo) d h mi s =
    Some (unix_time (2000 + y) mo d h mi s - 86400 * lag_days y)"
proof -
  have n: "i64_as_usize (int mo - 1) = mo - 1"
    using assms by (simp add: i64_as_usize_def nat_diff_distrib)
  have yr: "(\<Sum>y\<in>{1970..<2000 + y}. year_days (int y)) = 365 * int (30 + y) + int ((30 + y + 1) div 4)"
    using years_sum [of "30 + y"] assms by simp
  define months where "months = (\<Sum>i\<in>{0..<mo - 1}. DAYS_IN_MONTH ! i)"
  define base where "base = (30 + int y) * 365 + (30 + int y) div 4 - (30 + int y) div 100
    + (30 + int y) div 400"
  have loop: "month_loop 0 (i64_as_usize (int mo - 1)) base = Some (base + months)"
    using assms by (simp add: n month_loop_sum months_def)
  have "civil_days (2000 + y) mo d =
      base + lag_days y + months + (if is_leap (int (2000 + y)) \<and> mo > 2 then 1 else 0) + (d - 1)"
    using leap_formula [OF assms(1)]
    unfolding civil_days_def yr month_sum_shift [OF assms(2)] base_def months_def by simp
  moreover have "timestamp (int y) (int mo) d h mi s =
      Some ((base + months + (if is_leap (int (2000 + y)) \<and> mo > 2 then 1 else 0) + (d - 1)) * 86400
        + h * 3600 + mi * 60 + s)"
    using loop by (simp add: timestamp_def Let_def base_def)
  ultimately show ?thesis by (simp add: unix_time_def algebra_simps)
qed

lemma timestamp_panics:
  assumes "mo = 0 \<or> 13 < mo" and "mo < 2 ^ 63"
  shows "timestamp y (int mo) d h mi s = None"
proof -
  have "12 < i64_as_usize (int mo - 1)"
    using assms by (auto simp: i64_as_usize_def)
  then show ?thesis by (simp add: timestamp_def month_loop_panic)
qed

section \<open>Waiting for the clock\<close>

definition busy :: "'d hw \<Rightarrow> 'd machine \<Rightarrow> bool" where
  "busy hw m \<longleftrightarrow> fst (cmos_read hw 0x0A m) AND 0x80 \<noteq> 0"

definition polled :: "'d hw \<Rightarrow> nat \<Rightarrow> 'd machine \<Rightarrow> 'd machine" where
  "polled hw k m = ((\<lambda>m. snd (cmos_read hw 0x0A m)) ^^ k) m"

lemma polled_Suc: "polled hw (Suc k) m = polled hw k (snd (cmos_read hw 0x0A m))"
  by (simp only: polled_def funpow_Suc_right o_apply)

lemma polled_0: "polled hw 0 m = m"
  and polled_1: "polled hw (Suc 0) m = snd (cmos_read hw 0x0A m)"
  and polled_2: "polled hw 2 m = snd (cmos_read hw 0x0A (snd (cmos_read hw 0x0A m)))"
  by (simp_all add: polled_def numeral_2_eq_2)

lemma wait_update_unfold:
  "wait_update hw m =
     (if busy hw m then wait_update hw (snd (cmos_read hw 0x0A m))
      else Some (snd (cmos_read hw 0x0A m)))"
  by (subst wait_update.simps) (simp add: busy_def split: prod.splits)

lemma wait_update_returns:
  "\<forall>i<k. busy hw (polled hw i m) \<Longrightarrow> \<not> busy hw (polled hw k m) \<Longrightarrow>
   wait_update hw m = Some (polled hw (Suc k) m)"
proof (induction k arbitrary: m)
  case 0
  then show ?case by (simp add: wait_update_unfold [of hw m] polled_def)
next
  case (Suc k)
  have "busy hw m" using Suc.prems(1) by (auto simp: polled_def)
  moreover have "wait_update hw (snd (cmos_read hw 0x0A m)) = Some (polled hw (Suc (Suc k)) m)"
    using Suc.IH [of "snd (cmos_read hw 0x0A m)"] Suc.prems by (auto simp flip: polled_Suc)
  ultimately show ?case by (simp add: wait_update_unfold [of hw m])
qed

text \<open>The registers of a clock that shows a date in BCD.\<close>

definition shows_bcd :: "(u8 \<Rightarrow> u8) \<Rightarrow> nat \<Rightarrow> nat \<Rightarrow> nat \<Rightarrow> nat \<Rightarrow> nat \<Rightarrow> nat \<Rightarrow> bool" where
  "shows_bcd regs y mo d h mi s \<longleftrightarrow>
     regs 0x0B AND 0x04 = 0 \<and> regs 0x09 = to_bcd y \<and> regs 0x08 = to_bcd mo \<and> regs 0x07 = to_bcd d
     \<and> regs 0x04 = to_bcd h \<and> regs 0x02 = to_bcd mi \<and> regs 0x00 = to_bcd s
     \<and> y < 100 \<and> 1 \<le> mo \<and> mo \<le> 12 \<and> 1 \<le> d \<and> d < 32 \<and> h < 24 \<and> mi < 60 \<and> s < 60"

lemma read_stable:
  assumes "wait_update hw m = Some m0"
    and "\<And>m r. r \<noteq> 0x0A \<Longrightarrow> fst (cmos_read hw r m) = regs r"
  shows "\<exists>m'. read_unix_timestamp hw m =
    Some (timestamp (decode_reg (regs 0x0B) (regs 0x09)) (decode_reg (regs 0x0B) (regs 0x08))
      (decode_reg (regs 0x0B) (regs 0x07)) (decode_reg (regs 0x0B) (regs 0x04))
      (decode_reg (regs 0x0B) (regs 0x02)) (decode_reg (regs 0x0B) (regs 0x00)), m')"
  unfolding read_unix_timestamp_def assms(1) Let_def case_prod_beta
  by (simp add: assms(2))

text \<open>
  C7. The clock as the kernel reads it. Once the update flag clears (after any number \<open>k\<close> of
  polls), a clock that shows a date of the years 2000 to 2099 in BCD is read as the Unix time of
  that date, less \<open>lag_days\<close> whole days: none in the years before 2070 that are not one past a
  multiple of four, one day in 2001, 2005, ..., 2069, one or two days from 2070 on.
\<close>

theorem read_unix_timestamp_lags:
  assumes "\<forall>i<k. busy hw (polled hw i m)" and "\<not> busy hw (polled hw k m)"
    and "\<forall>m r. r \<noteq> 0x0A \<longrightarrow> fst (cmos_read hw r m) = regs r"
    and "shows_bcd regs y mo d h mi s"
  shows "\<exists>m'. read_unix_timestamp hw m =
    Some (Some (unix_time (2000 + y) mo (int d) (int h) (int mi) (int s) - 86400 * lag_days y), m')"
proof -
  obtain m' where "read_unix_timestamp hw m =
      Some (timestamp (int y) (int mo) (int d) (int h) (int mi) (int s), m')"
    using read_stable [OF wait_update_returns [OF assms(1,2)], of regs] assms(3,4)
    by (auto simp: shows_bcd_def decode_bcd)
  then show ?thesis
    using assms(4) by (auto simp: shows_bcd_def timestamp_calendar)
qed

text \<open>
  A clock chip that latches the index port and whose update flag is set for the first polls;
  it shows 2025-01-01 00:00:00 and reads as 2024-12-31 00:00:00.
\<close>

definition clock_2025 :: "u8 \<Rightarrow> u8" where
  "clock_2025 r = (if r = 0x09 then 0x25 else if r = 0x08 \<or> r = 0x07 then 1 else 0)"

definition clock_hw :: "(u8 \<Rightarrow> u8) \<Rightarrow> (u8 \<times> nat) hw" where
  "clock_hw regs =
     \<lparr>port_in = (\<lambda>w port m. case dev m of (i, n) \<Rightarrow>
        if i = 0x0A then (if n = 0 then 0 else 0x80, m\<lparr>dev := (i, n - 1)\<rparr>)
        else (ucast (regs i), m)),
      port_out = (\<lambda>w port v m. if port = 0x70 then m\<lparr>dev := (ucast v, snd (dev m))\<rparr> else m),
      mmio_in = (\<lambda>w a m. (0, m)), mmio_out = (\<lambda>w a v m. m), sync = (\<lambda>m. m)\<rparr>"

lemma clock_hw_read:
  "cmos_read (clock_hw regs) r m =
     (if r = 0x0A then (if snd (dev m) = 0 then 0 else 0x80, m\<lparr>dev := (r, snd (dev m) - 1)\<rparr>)
      else (regs r, m\<lparr>dev := (r, snd (dev m))\<rparr>))"
  by (cases "dev m")
     (auto simp add: cmos_read_def inb_def outb_def clock_hw_def CMOS_ADDR_def CMOS_DATA_def)

theorem read_unix_timestamp_lags_witness:
  "\<exists>m'. read_unix_timestamp (clock_hw clock_2025) \<lparr>ram = \<lambda>_. 0, dev = (0, 2)\<rparr> =
     Some (Some 1735603200, m')"
proof -
  let ?m = "\<lparr>ram = \<lambda>_. 0, dev = (0 :: u8, 2)\<rparr>"
  have "unix_time (2000 + 25) 1 1 0 0 0 - 86400 * lag_days 25 = 1735603200"
    using years_sum [of 55] by (simp add: unix_time_def civil_days_def lag_days_def)
  moreover have "shows_bcd clock_2025 25 1 1 0 0 0"
    by (simp add: shows_bcd_def clock_2025_def to_bcd_def)
  moreover have "\<forall>i<2. busy (clock_hw clock_2025) (polled (clock_hw clock_2025) i ?m)"
    by (auto simp: busy_def polled_0 polled_1 clock_hw_read dest!: less_2_cases)
  moreover have "\<not> busy (clock_hw clock_2025) (polled (clock_hw clock_2025) 2 ?m)"
    by (simp add: busy_def polled_2 clock_hw_read)
  ultimately show ?thesis
    using read_unix_timestamp_lags [of 2 "clock_hw clock_2025" ?m clock_2025 25 1 1 0 0 0]
    by (simp add: clock_hw_read)
qed

end
