(* ===== verification/Server.thy ===== *)
theory Server
  imports Router Storage Rtc
begin

text \<open>
  The main loop of \<^verbatim>\<open>net.rs\<close> (\<open>run_http_server\<close>): one pass of the loop as a function on the loop's
  variables and the world. The parts follow the source: hand out a fetched feed, install an
  uploaded application, poll the stack, advance the background fetch, serve port 80, serve the
  administration port.

  The TCP stack (smoltcp) and the WebAssembly applications are parameters: \<open>tcp_ops\<close> are the calls
  the loop makes on the interface and the sockets, \<open>app_ops\<close> the three entry points of \<open>WasmApp\<close>
  that it uses (their own code is modelled in the theory of the WebAssembly runtime). A socket
  handle is a number. A result that the source discards with \<open>ok()\<close> or \<open>unwrap_or(0)\<close> is absorbed
  by the operation: \<open>tcp_recv\<close> returns no bytes on an error.
\<close>

section \<open>Constants and state\<close>

definition HTTP_FALLBACK :: bytes where
  "HTTP_FALLBACK = str ''HTTP/1.1 200 OK'' @ CRLF @ str ''Content-Type: text/plain'' @ CRLF
     @ str ''Connection: close'' @ CRLF2 @ str ''Hello from unikernel (no WASM)'' @ CRLF"

definition ADMIN_PORT :: u16 where "ADMIN_PORT = 8081"
definition MAX_WASM_SIZE :: nat where "MAX_WASM_SIZE = 512 * 1024"
definition FEED_HOST_IP :: bytes where "FEED_HOST_IP = [10, 0, 2, 2]"
definition FEED_HOST_PORT :: u16 where "FEED_HOST_PORT = 8889"
definition FEED_PATH :: bytes where "FEED_PATH = str ''/quake''"
definition FEED_INTERVAL_SECS :: int where "FEED_INTERVAL_SECS = 60"
definition FEED_MAX_SIZE :: nat where "FEED_MAX_SIZE = 256 * 1024"

datatype admin_state =
    Idle
  | ReceivingHeaders "8 word list"
  | ReceivingBody "8 word list" "8 word list" nat

datatype fetch_state =
    FetchIdle int
  | Connecting nat "32 word"
  | Receiving nat "8 word list" "32 word"

record ('n, 'd) tcp_ops =
  tcp_poll :: "64 word \<Rightarrow> 'n \<times> 'd machine \<Rightarrow> ('n \<times> 'd machine) option"
  tcp_is_open :: "nat \<Rightarrow> 'n \<Rightarrow> bool"
  tcp_may_recv :: "nat \<Rightarrow> 'n \<Rightarrow> bool"
  tcp_can_recv :: "nat \<Rightarrow> 'n \<Rightarrow> bool"
  tcp_may_send :: "nat \<Rightarrow> 'n \<Rightarrow> bool"
  tcp_listen :: "nat \<Rightarrow> 16 word \<Rightarrow> 'n \<Rightarrow> 'n"
  tcp_recv :: "nat \<Rightarrow> nat \<Rightarrow> 'n \<Rightarrow> 8 word list \<times> 'n"
  tcp_send :: "nat \<Rightarrow> 8 word list \<Rightarrow> 'n \<Rightarrow> 'n"
  tcp_close :: "nat \<Rightarrow> 'n \<Rightarrow> 'n"
  tcp_remove :: "nat \<Rightarrow> 'n \<Rightarrow> 'n"
  tcp_connect :: "8 word list \<Rightarrow> 16 word \<Rightarrow> 16 word \<Rightarrow> 'n \<Rightarrow> nat option \<times> 'n"

text \<open>The world: the stack, the machine, the store's block device if there is one.\<close>

record ('n, 'd) world =
  socks :: 'n
  mach :: "'d machine"
  blkdev :: "blk option"

record ('a, 'w) app_ops =
  app_load :: "8 word list \<Rightarrow> 'w \<Rightarrow> ('a option \<times> 'w) option"
  app_feed :: "8 word list \<Rightarrow> 'a \<Rightarrow> 'a"
  app_request :: "8 word list \<Rightarrow> 8 word list \<Rightarrow> 8 word list \<Rightarrow> 'a \<times> 'w \<Rightarrow> (8 word list option \<times> 'a \<times> 'w) option"

record 'a server =
  router :: "(8 word list \<times> 'a) list"
  static_files :: "(8 word list \<times> 8 word list \<times> 8 word list) list"
  sent80 :: bool
  req_buf :: "8 word list"
  admin :: admin_state
  pending_entry :: "(8 word list \<times> 8 word list) option"
  fetch :: fetch_state
  pending_feed :: "8 word list option"
  last_feed :: "8 word list"

section \<open>Feed and hot swap\<close>

definition deliver_feed :: "('a, 'w) app_ops \<Rightarrow> 'a server \<Rightarrow> 'a server" where
  "deliver_feed apps s =
     (case pending_feed s of
        None \<Rightarrow> s
      | Some feed \<Rightarrow> s\<lparr>pending_feed := None, last_feed := feed,
          router := map (\<lambda>(pre, a). (pre, app_feed apps feed a)) (router s)\<rparr>)"

definition install_pending :: "('a, 'w) app_ops \<Rightarrow> 'a server \<times> 'w \<Rightarrow> ('a server \<times> 'w) option" where
  "install_pending apps = (\<lambda>(s, w).
     case pending_entry s of
       None \<Rightarrow> Some (s, w)
     | Some (pre, wasm) \<Rightarrow> do {
         let s = s\<lparr>pending_entry := None\<rparr>;
         (r, w) \<leftarrow> app_load apps wasm w;
         (case r of
            None \<Rightarrow> Some (s, w)
          | Some app \<Rightarrow>
              let app = (if last_feed s \<noteq> [] then app_feed apps (last_feed s) app else app)
              in Some (s\<lparr>router := router_insert pre app (router s)\<rparr>, w))
       })"

section \<open>Background fetch\<close>

text \<open>\<open>GET {} HTTP/1.0\r\nHost: {}.{}.{}.{}\r\nConnection: close\r\n\r\n\<close>, in \<^verbatim>\<open>net.rs\<close> and in \<^verbatim>\<open>registry.rs\<close>.\<close>

fun dotted :: "bytes \<Rightarrow> bytes" where
  "dotted [] = []"
| "dotted [b] = dec (unat b)"
| "dotted (b # bs) = dec (unat b) @ str ''.'' @ dotted bs"

definition get_request :: "bytes \<Rightarrow> bytes \<Rightarrow> bytes" where
  "get_request path ip = str ''GET '' @ path @ str '' HTTP/1.0'' @ CRLF @ str ''Host: '' @ dotted ip @ CRLF
     @ str ''Connection: close'' @ CRLF2"

text \<open>\<open>while s.can_recv() && buf.len() < FEED_MAX_SIZE\<close>; an empty read ends the loop.\<close>

function drain :: "('n, 'd) tcp_ops \<Rightarrow> nat \<Rightarrow> bytes \<Rightarrow> 'n \<Rightarrow> bytes \<times> 'n" where
  "drain tcp h buf n =
     (if tcp_can_recv tcp h n \<and> length buf < FEED_MAX_SIZE then
        (case tcp_recv tcp h 4096 n of (chunk, n') \<Rightarrow>
           if chunk = [] then (buf, n') else drain tcp h (buf @ chunk) n')
      else (buf, n))"
  by auto

termination
  by (relation "measure (\<lambda>(tcp, h, buf, n). FEED_MAX_SIZE - length buf)") (auto intro!: diff_less_mono2)

declare drain.simps [simp del]

definition feed_body :: "bytes \<Rightarrow> bytes option" where
  "feed_body buf =
     (case window_position CRLF2 buf of
        None \<Rightarrow> None
      | Some pos \<Rightarrow> if drop (pos + 4) buf = [] then None else Some (drop (pos + 4) buf))"

text \<open>
  \<open>read_unix_timestamp\<close> for the loop: the machine after the call, \<open>None\<close> when the call panics or
  does not return.
\<close>

definition clock_now :: "'d hw \<Rightarrow> 'd machine \<Rightarrow> (int \<times> 'd machine) option" where
  "clock_now hw m = do { (t, m) \<leftarrow> read_unix_timestamp hw m; t \<leftarrow> t; Some (t, m) }"

text \<open>The new state, the body of a completed fetch, the stack and the machine.\<close>

definition fetch_step :: "profile \<Rightarrow> 'd hw \<Rightarrow> ('n, 'd) tcp_ops \<Rightarrow> fetch_state \<Rightarrow> 'n \<times> 'd machine \<Rightarrow>
    (fetch_state \<times> bytes option \<times> 'n \<times> 'd machine) option" where
  "fetch_step p hw tcp st = (\<lambda>(n, m).
     case st of
       FetchIdle next_ts \<Rightarrow> do {
         (now, m) \<leftarrow> clock_now hw m;
         if next_ts \<le> now then
           (case tcp_connect tcp FEED_HOST_IP FEED_HOST_PORT 49200 n of
              (Some h, n) \<Rightarrow> Some (Connecting h 0, None, n, m)
            | (None, n) \<Rightarrow> Some (FetchIdle (now + FEED_INTERVAL_SECS), None, n, m))
         else Some (FetchIdle next_ts, None, n, m)
       }
     | Connecting h idle \<Rightarrow>
         if tcp_may_send tcp h n then
           Some (Receiving h [] 0, None, tcp_send tcp h (get_request FEED_PATH FEED_HOST_IP) n, m)
         else if \<not> tcp_is_open tcp h n \<or> 200000 < idle then do {
           let n = tcp_remove tcp h n;
           (now, m) \<leftarrow> clock_now hw m;
           Some (FetchIdle (now + FEED_INTERVAL_SECS), None, n, m)
         }
         else do {
           idle \<leftarrow> add_ovf p idle 1;
           Some (Connecting h idle, None, n, m)
         }
     | Receiving h buf stale \<Rightarrow> do {
         let prev_len = length buf;
         let (buf, n) = drain tcp h buf n;
         stale \<leftarrow> (if prev_len < length buf then Some 0 else add_ovf p stale 1);
         if \<not> tcp_may_recv tcp h n \<or> 500000 < stale \<or> FEED_MAX_SIZE \<le> length buf then do {
           let n = tcp_remove tcp h (tcp_close tcp h n);
           (now, m) \<leftarrow> clock_now hw m;
           Some (FetchIdle (now + FEED_INTERVAL_SECS), feed_body buf, n, m)
         }
         else Some (Receiving h buf stale, None, n, m)
       })"

section \<open>Port 80\<close>

definition static_response :: "bytes \<Rightarrow> bytes \<Rightarrow> bytes" where
  "static_response content ctype =
     str ''HTTP/1.1 200 OK'' @ CRLF @ str ''Content-Type: '' @ (if utf8_valid ctype then ctype else str ''text/html'')
     @ CRLF @ str ''Content-Length: '' @ dec (length content) @ CRLF @ str ''Connection: close'' @ CRLF2 @ content"

text \<open>
  The answer to a request: a static file of exactly that path, else the routed application on the
  rest of the path, else the fallback. The applications and the world come back updated.
\<close>

definition respond :: "('a, 'w) app_ops \<Rightarrow> http_request \<Rightarrow> 'a server \<times> 'w \<Rightarrow> (bytes \<times> 'a server \<times> 'w) option" where
  "respond apps req = (\<lambda>(s, w).
     case find (\<lambda>(path, content, ctype). path = h_path req) (static_files s) of
       Some (path, content, ctype) \<Rightarrow> Some (static_response content ctype, s, w)
     | None \<Rightarrow>
         (case route_mut (h_path req) (router s) of
            None \<Rightarrow> Some (HTTP_FALLBACK, s, w)
          | Some (plen, i) \<Rightarrow> do {
              let stripped = drop plen (h_path req);
              let wasm_path = (if stripped = [] then str ''/'' else stripped);
              (r, app, w) \<leftarrow> app_request apps (h_method req) wasm_path (h_body req) (snd (router s ! i), w);
              let s = s\<lparr>router := (router s)[i := (fst (router s ! i), app)]\<rparr>;
              Some (case r of None \<Rightarrow> HTTP_FALLBACK | Some resp \<Rightarrow> resp, s, w)
            }))"

definition listen80 :: "('n, 'd) tcp_ops \<Rightarrow> nat \<Rightarrow> 'a server \<times> ('n, 'd) world \<Rightarrow> 'a server \<times> ('n, 'd) world" where
  "listen80 tcp h = (\<lambda>(s, w).
     if \<not> tcp_is_open tcp h (socks w)
     then (s\<lparr>sent80 := False, req_buf := []\<rparr>, w\<lparr>socks := tcp_listen tcp h 80 (socks w)\<rparr>)
     else (s, w))"

definition receive80 :: "('n, 'd) tcp_ops \<Rightarrow> ('a, ('n, 'd) world) app_ops \<Rightarrow> nat \<Rightarrow>
    'a server \<times> ('n, 'd) world \<Rightarrow> ('a server \<times> ('n, 'd) world) option" where
  "receive80 tcp apps h = (\<lambda>(s, w).
     if tcp_may_recv tcp h (socks w) \<and> \<not> sent80 s then do {
       let (chunk, n) = tcp_recv tcp h 1024 (socks w);
       let s = s\<lparr>req_buf := req_buf s @ chunk\<rparr>;
       let w = w\<lparr>socks := n\<rparr>;
       if window_position CRLF2 (req_buf s) \<noteq> None then do {
         (resp, s, w) \<leftarrow> respond apps (parse_http (req_buf s)) (s, w);
         let w = w\<lparr>socks := tcp_close tcp h (tcp_send tcp h resp (socks w))\<rparr>;
         Some (s\<lparr>sent80 := True\<rparr>, w)
       }
       else Some (s, w)
     }
     else Some (s, w))"

definition serve80 :: "('n, 'd) tcp_ops \<Rightarrow> ('a, ('n, 'd) world) app_ops \<Rightarrow> nat \<Rightarrow>
    'a server \<times> ('n, 'd) world \<Rightarrow> ('a server \<times> ('n, 'd) world) option" where
  "serve80 tcp apps h sw = receive80 tcp apps h (listen80 tcp h sw)"

section \<open>The administration port\<close>

text \<open>The file name an upload is stored under; an empty prefix would be a slice panic.\<close>

definition store_key :: "bytes \<Rightarrow> bytes option" where
  "store_key pre =
     (if pre = str ''/'' then Some (str ''app.wasm'')
      else if pre = [] then None
      else Some ((if utf8_valid (tl pre) then tl pre else str ''app'') @ str ''.wasm''))"

definition persist :: "profile \<Rightarrow> 'd hw \<Rightarrow> frame \<Rightarrow> bytes \<Rightarrow> bytes \<Rightarrow> ('n, 'd) world \<Rightarrow> ('n, 'd) world option" where
  "persist p hw f k wasm w =
     (case blkdev w of
        None \<Rightarrow> Some w
      | Some b \<Rightarrow> do {
          (ok, b, m) \<leftarrow> kv_write p (read_sectors p hw f) (write_sectors p hw f) (b, mach w) k wasm;
          Some (w\<lparr>blkdev := Some b, mach := m\<rparr>)
        })"

definition on_socks :: "('n \<Rightarrow> 'n) \<Rightarrow> ('n, 'd) world \<Rightarrow> ('n, 'd) world" where
  "on_socks g w = w\<lparr>socks := g (socks w)\<rparr>"

definition body_step :: "profile \<Rightarrow> 'd hw \<Rightarrow> frame \<Rightarrow> ('n, 'd) tcp_ops \<Rightarrow> nat \<Rightarrow> bytes \<Rightarrow> bytes \<Rightarrow> nat \<Rightarrow>
    'a server \<times> ('n, 'd) world \<Rightarrow> ('a server \<times> ('n, 'd) world) option" where
  "body_step p hw f tcp h pre buf len = (\<lambda>(s, w). do {
     let (buf, w) = (if tcp_can_recv tcp h (socks w)
        then (case tcp_recv tcp h 4096 (socks w) of (chunk, n) \<Rightarrow> (buf @ chunk, w\<lparr>socks := n\<rparr>))
        else (buf, w));
     let s = s\<lparr>admin := ReceivingBody pre buf len\<rparr>;
     (s, w) \<leftarrow>
       (if len \<le> length buf then do {
          (s, w) \<leftarrow>
            (if MAX_WASM_SIZE < len then
               Some (s, on_socks (tcp_send tcp h (str ''HTTP/1.0 413 Payload Too Large'' @ CRLF2)) w)
             else do {
               let wasm = take len buf;
               k \<leftarrow> store_key pre;
               w \<leftarrow> persist p hw f k wasm w;
               Some (s\<lparr>pending_entry := Some (pre, wasm)\<rparr>,
                 on_socks (tcp_send tcp h (str ''HTTP/1.0 200 OK'' @ CRLF @ str ''Content-Length: 2'' @ CRLF2 @ str ''OK'')) w)
             });
          Some (s\<lparr>admin := Idle\<rparr>, on_socks (tcp_close tcp h) w)
        }
        else Some (s, w));
     Some (if \<not> tcp_is_open tcp h (socks w) then s\<lparr>admin := Idle\<rparr> else s, w)
   })"

definition headers_step :: "('n, 'd) tcp_ops \<Rightarrow> nat \<Rightarrow> bytes \<Rightarrow>
    'a server \<times> ('n, 'd) world \<Rightarrow> ('a server \<times> ('n, 'd) world) option" where
  "headers_step tcp h hdr_buf = (\<lambda>(s, w). do {
     (s, w) \<leftarrow>
       (if tcp_can_recv tcp h (socks w) then do {
          let (chunk, n) = tcp_recv tcp h 1024 (socks w);
          let hdr_buf = hdr_buf @ chunk;
          let w = w\<lparr>socks := n\<rparr>;
          (case find_header_end hdr_buf of
             None \<Rightarrow> Some (s\<lparr>admin := ReceivingHeaders hdr_buf\<rparr>, w)
           | Some pos \<Rightarrow> do {
               content_len \<leftarrow> parse_content_length (take pos hdr_buf);
               let already = drop (pos + 4) hdr_buf;
               let req_path = h_path (parse_http (take pos hdr_buf));
               let pre = parse_route_prefix req_path;
               (case content_len of
                  Some len \<Rightarrow> Some (s\<lparr>admin := ReceivingBody pre already len\<rparr>, w)
                | None \<Rightarrow> Some (s\<lparr>admin := Idle\<rparr>,
                    on_socks (\<lambda>n. tcp_close tcp h (tcp_send tcp h (str ''HTTP/1.0 400 Bad Request'' @ CRLF2) n)) w))
             })
        }
        else Some (s, w));
     Some (if \<not> tcp_is_open tcp h (socks w) then s\<lparr>admin := Idle\<rparr> else s, w)
   })"

definition listen_admin :: "('n, 'd) tcp_ops \<Rightarrow> nat \<Rightarrow> 'a server \<times> ('n, 'd) world \<Rightarrow> 'a server \<times> ('n, 'd) world" where
  "listen_admin tcp h = (\<lambda>(s, w).
     if \<not> tcp_is_open tcp h (socks w)
     then (s\<lparr>admin := Idle\<rparr>, w\<lparr>socks := tcp_listen tcp h ADMIN_PORT (socks w)\<rparr>)
     else (s, w))"

definition admin_step :: "profile \<Rightarrow> 'd hw \<Rightarrow> frame \<Rightarrow> ('n, 'd) tcp_ops \<Rightarrow> nat \<Rightarrow>
    'a server \<times> ('n, 'd) world \<Rightarrow> ('a server \<times> ('n, 'd) world) option" where
  "admin_step p hw f tcp h sw =
     (let (s, w) = listen_admin tcp h sw
      in case admin s of
        Idle \<Rightarrow> Some (if tcp_may_recv tcp h (socks w) then s\<lparr>admin := ReceivingHeaders []\<rparr> else s, w)
      | ReceivingHeaders hdr_buf \<Rightarrow> headers_step tcp h hdr_buf (s, w)
      | ReceivingBody pre buf len \<Rightarrow> body_step p hw f tcp h pre buf len (s, w))"

section \<open>One pass of the loop\<close>

text \<open>\<open>ts\<close> is the value of the millisecond counter in this pass; \<open>h80\<close> and \<open>h81\<close> are the two sockets.\<close>

definition server_step :: "profile \<Rightarrow> 'd hw \<Rightarrow> frame \<Rightarrow> ('n, 'd) tcp_ops \<Rightarrow> ('a, ('n, 'd) world) app_ops \<Rightarrow>
    nat \<Rightarrow> nat \<Rightarrow> u64 \<Rightarrow> 'a server \<times> ('n, 'd) world \<Rightarrow> ('a server \<times> ('n, 'd) world) option" where
  "server_step p hw f tcp apps h80 h81 ts = (\<lambda>(s, w). do {
     let s = deliver_feed apps s;
     (s, w) \<leftarrow> install_pending apps (s, w);
     (n, m) \<leftarrow> tcp_poll tcp ts (socks w, mach w);
     (st, body, n, m) \<leftarrow> fetch_step p hw tcp (fetch s) (n, m);
     let s = s\<lparr>fetch := st, pending_feed := (case body of None \<Rightarrow> pending_feed s | Some b \<Rightarrow> Some b)\<rparr>;
     let w = w\<lparr>socks := n, mach := m\<rparr>;
     (s, w) \<leftarrow> serve80 tcp apps h80 (s, w);
     admin_step p hw f tcp h81 (s, w)
   })"

definition initial_server :: "(bytes \<times> 'a) list \<Rightarrow> (bytes \<times> bytes \<times> bytes) list \<Rightarrow> 'a server" where
  "initial_server routes files =
     \<lparr>router = fold (\<lambda>(route, app) r. router_insert route app r) routes [], static_files = files,
      sent80 = False, req_buf = [], admin = Idle, pending_entry = None, fetch = FetchIdle 0,
      pending_feed = None, last_feed = []\<rparr>"

end
