(* ===== verification/ServerLaws.thy ===== *)
theory ServerLaws
  imports Server
begin

text \<open>
  The server loop's invariant on every reachable state, and the background fetch: no counter overflows
  and no buffer outgrows its limit.
\<close>

section \<open>The invariant\<close>

text \<open>What smoltcp promises of \<open>recv_slice\<close>: no more bytes than the slice holds.\<close>

definition recv_bounded :: "('n, 'd) tcp_ops \<Rightarrow> bool" where
  "recv_bounded tcp \<longleftrightarrow> (\<forall>h k n. length (fst (tcp_recv tcp h k n)) \<le> k)"

fun fetch_inv :: "fetch_state \<Rightarrow> bool" where
  "fetch_inv (FetchIdle t) \<longleftrightarrow> True"
| "fetch_inv (Connecting h idle) \<longleftrightarrow> unat idle \<le> 200001"
| "fetch_inv (Receiving h buf stale) \<longleftrightarrow> unat stale \<le> 500000 \<and> length buf < FEED_MAX_SIZE"

text \<open>
  The administration port: the header buffer holds no complete header, and a body being received has a
  route and is either incomplete or came whole with the header, in one chunk of at most 1024 bytes.
\<close>

fun admin_inv :: "admin_state \<Rightarrow> bool" where
  "admin_inv Idle \<longleftrightarrow> True"
| "admin_inv (ReceivingHeaders buf) \<longleftrightarrow> find_header_end buf = None"
| "admin_inv (ReceivingBody pre buf len) \<longleftrightarrow> pre \<noteq> [] \<and> (length buf < len \<or> length buf \<le> 1024)"

text \<open>The size of a feed: the fetch stops when the limit is reached, at most one read beyond it.\<close>

definition feed_bound :: nat where "feed_bound = FEED_MAX_SIZE + 4095"

definition server_inv :: "'a server \<Rightarrow> bool" where
  "server_inv s \<longleftrightarrow>
     prefixes_distinct (router s) \<and> fetch_inv (fetch s) \<and> admin_inv (admin s)
     \<and> (\<forall>b. pending_feed s = Some b \<longrightarrow> b \<noteq> [] \<and> length b \<le> feed_bound) \<and> length (last_feed s) \<le> feed_bound
     \<and> (\<forall>pre wasm. pending_entry s = Some (pre, wasm) \<longrightarrow> pre \<noteq> [] \<and> length wasm \<le> MAX_WASM_SIZE)
     \<and> (sent80 s \<or> window_position CRLF2 (req_buf s) = None)"

text \<open>A window that appears with a chunk ends in the chunk.\<close>

lemma window_in_chunk:
  assumes "window_position CRLF2 xs = None" and "window_position CRLF2 (xs @ ys) = Some pos"
  shows "length (drop (pos + 4) (xs @ ys)) \<le> length ys"
proof (rule ccontr)
  have n: "CRLF2 \<noteq> []" "length CRLF2 = 4" by (simp_all add: CRLF2_def)
  assume "\<not> ?thesis"
  then have p: "pos + length CRLF2 \<le> length xs" by (simp add: n(2))
  have "bslice pos (length CRLF2) (xs @ ys) = CRLF2" using assms(2) unfolding window_position_Some [OF n(1)] by blast
  moreover have "bslice pos (length CRLF2) (xs @ ys) = bslice pos (length CRLF2) xs" using p by (simp add: bslice_def)
  ultimately show False using assms(1) p unfolding window_position_None [OF n(1)] by metis
qed

lemma drain_bound:
  "recv_bounded tcp \<Longrightarrow> length buf \<le> feed_bound \<Longrightarrow>
   length (fst (drain tcp h buf n)) \<le> feed_bound"
proof (induction tcp h buf n rule: drain.induct)
  case (1 tcp h buf n)
  obtain chunk n' where recv: "tcp_recv tcp h 4096 n = (chunk, n')" by fastforce
  have "length chunk \<le> 4096" using "1.prems"(1) recv unfolding recv_bounded_def by (metis fst_conv)
  then show ?case
    using 1 recv by (subst drain.simps) (simp add: feed_bound_def)
qed

lemma drain_extends: "length buf \<le> length (fst (drain tcp h buf n))"
proof (induction tcp h buf n rule: drain.induct)
  case (1 tcp h buf n)
  obtain chunk n' where recv: "tcp_recv tcp h 4096 n = (chunk, n')" by fastforce
  have "length buf \<le> length (fst (drain tcp h (buf @ chunk) n'))"
    if "tcp_can_recv tcp h n \<and> length buf < FEED_MAX_SIZE" "chunk \<noteq> []"
    using 1 [OF that(1) recv [symmetric] that(2)] by simp
  then show ?case by (subst drain.simps) (simp add: recv)
qed

lemma count_up:
  assumes "unat (c :: u32) \<le> b" and "b < 2 ^ 31"
  shows "add_ovf p c 1 = Some (c + 1)" and "unat (c + 1) = unat c + 1"
  using assms add_ovf_exact [of c 1] by simp_all

lemma fetch_step_receiving:
  assumes "drain tcp h buf n = (buf1, n1)" and "unat stale \<le> 500000"
  defines "stale1 \<equiv> (if length buf < length buf1 then 0 else stale + 1)"
  shows "fetch_step p hw tcp (Receiving h buf stale) (n, m) =
      (if \<not> tcp_may_recv tcp h n1 \<or> 500000 < stale1 \<or> FEED_MAX_SIZE \<le> length buf1 then do {
         (now, m) \<leftarrow> clock_now hw m;
         Some (FetchIdle (now + FEED_INTERVAL_SECS), feed_body buf1, tcp_remove tcp h (tcp_close tcp h n1), m)
       }
       else Some (Receiving h buf1 stale1, None, n1, m))"
proof -
  have "(if length buf < length buf1 then Some 0 else add_ovf p stale 1) = Some stale1"
    using count_up(1) [OF assms(2), of p] by (simp add: stale1_def)
  then show ?thesis by (simp add: fetch_step_def assms(1))
qed

lemma fetch_step_inv:
  assumes "recv_bounded tcp" and "fetch_inv st" and "fetch_step p hw tcp st (n, m) = Some (st', body, n', m')"
  shows "fetch_inv st' \<and> (case body of None \<Rightarrow> True | Some b \<Rightarrow> b \<noteq> [] \<and> length b \<le> feed_bound)"
proof (cases st)
  case (FetchIdle t)
  then show ?thesis using assms(3)
    by (auto simp: fetch_step_def split: option.splits Option.bind_splits if_splits prod.splits)
next
  case (Connecting h idle)
  have idle: "unat idle \<le> 200001" using assms(2) Connecting by simp
  note up = count_up(1) [OF idle, of p] count_up(2) [OF idle]
  have "unat (idle + 1) \<le> 200001" if "\<not> 200000 < idle"
    using that up by (simp add: word_less_nat_alt)
  then show ?thesis
    using Connecting assms(3) up(1)
    by (auto simp: fetch_step_def FEED_MAX_SIZE_def Let_def split: Option.bind_splits if_splits)
next
  case (Receiving h buf stale)
  obtain buf1 n1 where d: "drain tcp h buf n = (buf1, n1)" by fastforce
  have st: "unat stale \<le> 500000" "length buf < FEED_MAX_SIZE" using assms(2) Receiving by simp_all
  have len: "length buf1 \<le> feed_bound"
    using drain_bound [OF assms(1), of buf h n] st(2) d by (simp add: feed_bound_def)
  have "case feed_body buf1 of None \<Rightarrow> True | Some b \<Rightarrow> b \<noteq> [] \<and> length b \<le> feed_bound"
    using len by (auto simp: feed_body_def split: option.splits)
  moreover have "unat c \<le> 500000" if "\<not> 500000 < c" for c :: u32
    using that by (simp add: word_less_nat_alt)
  ultimately show ?thesis
    using assms(3) unfolding Receiving fetch_step_receiving [OF d st(1)]
    by (auto split: Option.bind_splits if_splits)
qed

text \<open>
  The background fetch never overflows a counter and never holds more than the limit plus one
  read: with a clock that answers, a step from a state of the invariant returns, and the new state
  satisfies it; a completed fetch hands over a non-empty body within the bound.
\<close>

theorem fetch_step_safe:
  assumes "recv_bounded tcp" and "\<forall>m. clock_now hw m \<noteq> None" and "fetch_inv st"
  shows "\<exists>st' body n' m'. fetch_step p hw tcp st (n, m) = Some (st', body, n', m') \<and> fetch_inv st'
    \<and> (case body of None \<Rightarrow> True | Some b \<Rightarrow> b \<noteq> [] \<and> length b \<le> feed_bound)"
proof -
  obtain now m1 where clock: "clock_now hw m = Some (now, m1)" using assms(2) by fastforce
  have "fetch_step p hw tcp st (n, m) \<noteq> None"
  proof (cases st)
    case (FetchIdle t)
    then show ?thesis using clock by (simp add: fetch_step_def split: option.splits prod.splits)
  next
    case (Connecting h idle)
    then show ?thesis using clock count_up(1) [of idle 200001 p] assms(3) by (simp add: fetch_step_def)
  next
    case (Receiving h buf stale)
    obtain buf1 n1 where "drain tcp h buf n = (buf1, n1)" by fastforce
    then show ?thesis using clock fetch_step_receiving [of tcp h buf n buf1 n1 stale p hw m] assms(3)
      by (simp add: Receiving)
  qed
  then obtain st' body n' m' where "fetch_step p hw tcp st (n, m) = Some (st', body, n', m')" by auto
  with fetch_step_inv [OF assms(1,3) this] show ?thesis by blast
qed

section \<open>The invariant is kept\<close>

lemma deliver_feed_inv: "server_inv s \<Longrightarrow> server_inv (deliver_feed apps s)"
  by (auto simp: server_inv_def deliver_feed_def prefixes_distinct_def comp_def case_prod_beta
      split: option.splits)

lemma install_pending_inv:
  "server_inv s \<Longrightarrow> install_pending apps (s, w) = Some (s', w') \<Longrightarrow> server_inv s'"
  by (auto simp: install_pending_def server_inv_def prefixes_distinct_insert Let_def
      split: option.splits Option.bind_splits)

lemma map_fst_update: "map fst (es[i := (fst (es ! i), a)]) = map fst es"
  by (cases "i < length es") (simp_all add: map_update list_update_same_conv list_update_beyond)

lemma respond_inv:
  assumes "respond apps req (s, w) = Some (resp, s', w')"
  shows "map fst (router s') = map fst (router s)" and "fetch s' = fetch s" and "admin s' = admin s"
    and "pending_feed s' = pending_feed s" and "pending_entry s' = pending_entry s"
    and "static_files s' = static_files s" and "last_feed s' = last_feed s"
  using assms
  by (auto simp: respond_def map_fst_update Let_def split: option.splits Option.bind_splits)

lemma listen80_inv: "server_inv s \<Longrightarrow> listen80 tcp h (s, w) = (s', w') \<Longrightarrow> server_inv s'"
  by (auto simp: listen80_def server_inv_def CRLF2_def split: if_splits)

lemma receive80_inv:
  assumes "server_inv s" and "receive80 tcp apps h (s, w) = Some (s', w')"
  shows "server_inv s'"
proof (cases "tcp_may_recv tcp h (socks w) \<and> \<not> sent80 s")
  case False
  then show ?thesis using assms by (auto simp: receive80_def)
next
  case active: True
  obtain chunk n where recv: "tcp_recv tcp h 1024 (socks w) = (chunk, n)" by fastforce
  let ?s2 = "s\<lparr>req_buf := req_buf s @ chunk\<rparr>" and ?w2 = "w\<lparr>socks := n\<rparr>"
  show ?thesis
  proof (cases "window_position CRLF2 (req_buf ?s2)")
    case None
    then have "s' = ?s2" using assms(2) active by (simp add: receive80_def recv)
    with assms(1) None show ?thesis by (simp add: server_inv_def)
  next
    case (Some pos)
    then obtain resp s3 w3 where r: "respond apps (parse_http (req_buf ?s2)) (?s2, ?w2) = Some (resp, s3, w3)"
      and s': "s' = s3\<lparr>sent80 := True\<rparr>"
      using assms(2) active by (auto simp: receive80_def recv Let_def split: Option.bind_splits)
    note same = respond_inv [OF r]
    from assms(1) s' same show ?thesis by (simp add: server_inv_def prefixes_distinct_def)
  qed
qed

lemma serve80_inv: "server_inv s \<Longrightarrow> serve80 tcp apps h (s, w) = Some (s', w') \<Longrightarrow> server_inv s'"
  unfolding serve80_def by (cases "listen80 tcp h (s, w)") (auto intro: receive80_inv listen80_inv)

lemma admin_only:
  "server_inv s \<Longrightarrow> admin_inv st \<Longrightarrow> server_inv (s\<lparr>admin := st\<rparr>)"
  by (simp add: server_inv_def)

lemma headers_step_inv:
  assumes "recv_bounded tcp" and "server_inv s" and "find_header_end hdr_buf = None"
    and "headers_step tcp h hdr_buf (s, w) = Some (s', w')"
  shows "server_inv s'"
proof -
  obtain chunk n where recv: "tcp_recv tcp h 1024 (socks w) = (chunk, n)" by fastforce
  have "length chunk \<le> 1024" using assms(1) recv unfolding recv_bounded_def by (metis fst_conv)
  then have whole: "length (drop (pos + 4) (hdr_buf @ chunk)) \<le> 1024" if "find_header_end (hdr_buf @ chunk) = Some pos" for pos
    using window_in_chunk [of hdr_buf chunk pos] assms(3) that by (simp add: find_header_end_def)
  show ?thesis
    using assms(2-4) admin_only [OF assms(2)] whole
    by (auto simp: headers_step_def Let_def parse_route_prefix_nonempty recv
        simp del: drop_append length_drop
        split: option.splits Option.bind_splits if_splits)
qed

lemma body_step_inv:
  assumes "server_inv s" and "pre \<noteq> []" and "body_step p hw f tcp h pre buf len (s, w) = Some (s', w')"
  shows "server_inv s'"
proof -
  have over: "server_inv (s\<lparr>admin := Idle\<rparr>)" "length b < len \<Longrightarrow> server_inv (s\<lparr>admin := ReceivingBody pre b len\<rparr>)" for b
    using assms(1,2) by (simp_all add: server_inv_def)
  have stored: "server_inv (s\<lparr>pending_entry := Some (pre, x), admin := Idle\<rparr>)"
    if "length x \<le> MAX_WASM_SIZE" for x
    using assms(1,2) that by (simp add: server_inv_def)
  show ?thesis
    using assms(3) over
    by (auto intro!: stored simp: body_step_def Let_def
      split: option.splits Option.bind_splits if_splits prod.splits)
qed

lemma listen_admin_inv: "server_inv s \<Longrightarrow> listen_admin tcp h (s, w) = (s', w') \<Longrightarrow> server_inv s'"
  by (auto simp: listen_admin_def server_inv_def split: if_splits)

lemma admin_step_inv:
  assumes "recv_bounded tcp" and "server_inv s" and "admin_step p hw f tcp h (s, w) = Some (s', w')"
  shows "server_inv s'"
proof -
  obtain s1 w1 where l: "listen_admin tcp h (s, w) = (s1, w1)" by fastforce
  note s1 = listen_admin_inv [OF assms(2) l]
  show ?thesis
  proof (cases "admin s1")
    case Idle
    then show ?thesis using assms(3) s1 admin_only [OF s1, of "ReceivingHeaders []"]
      by (auto simp: admin_step_def l find_header_end_def split: if_splits)
  next
    case (ReceivingHeaders hdr_buf)
    then have "find_header_end hdr_buf = None" using s1 by (simp add: server_inv_def)
    then show ?thesis using assms(3) ReceivingHeaders headers_step_inv [OF assms(1) s1] by (simp add: admin_step_def l)
  next
    case (ReceivingBody pre buf len)
    then have "pre \<noteq> []" using s1 by (simp add: server_inv_def)
    then show ?thesis using assms(3) ReceivingBody body_step_inv [OF s1] by (simp add: admin_step_def l)
  qed
qed

section \<open>Reachable states of the loop\<close>

inductive server_reach :: "profile \<Rightarrow> 'd hw \<Rightarrow> frame \<Rightarrow> ('n, 'd) tcp_ops \<Rightarrow> ('a, ('n, 'd) world) app_ops \<Rightarrow>
    nat \<Rightarrow> nat \<Rightarrow> 'a server \<times> ('n, 'd) world \<Rightarrow> bool"
  for p hw f tcp apps h80 h81 where
  start: "server_reach p hw f tcp apps h80 h81 (initial_server routes files, w)"
| pass: "server_reach p hw f tcp apps h80 h81 (s, w) \<Longrightarrow>
    server_step p hw f tcp apps h80 h81 ts (s, w) = Some sw' \<Longrightarrow> server_reach p hw f tcp apps h80 h81 sw'"
| interrupt: "server_reach p hw f tcp apps h80 h81 (s, w) \<Longrightarrow> server_reach p hw f tcp apps h80 h81 (s, w')"

lemma initial_server_inv: "server_inv (initial_server routes files)"
proof -
  have "prefixes_distinct (fold (\<lambda>(route, app) r. router_insert route app r) routes r)"
    if "prefixes_distinct r" for r :: "(bytes \<times> 'a) list"
    using that by (induction routes arbitrary: r) (auto simp: prefixes_distinct_insert)
  then show ?thesis
    by (simp add: server_inv_def initial_server_def CRLF2_def prefixes_distinct_def)
qed

lemma server_step_inv:
  assumes "recv_bounded tcp" and "server_inv s" and "server_step p hw f tcp apps h80 h81 ts (s, w) = Some (s', w')"
  shows "server_inv s'"
proof -
  let ?s0 = "deliver_feed apps s"
  obtain s1 w1 where i: "install_pending apps (?s0, w) = Some (s1, w1)"
    using assms(3) by (auto simp: server_step_def Let_def split: Option.bind_splits)
  have s1: "server_inv s1"
    using install_pending_inv [OF deliver_feed_inv [OF assms(2)] i] .
  obtain n m where poll: "tcp_poll tcp ts (socks w1, mach w1) = Some (n, m)"
    using assms(3) i by (auto simp: server_step_def Let_def split: Option.bind_splits)
  obtain st body n2 m2 where f: "fetch_step p hw tcp (fetch s1) (n, m) = Some (st, body, n2, m2)"
    using assms(3) i poll by (auto simp: server_step_def Let_def split: Option.bind_splits)
  let ?s2 = "s1\<lparr>fetch := st, pending_feed := (case body of None \<Rightarrow> pending_feed s1 | Some b \<Rightarrow> Some b)\<rparr>"
  let ?w2 = "w1\<lparr>socks := n2, mach := m2\<rparr>"
  have "fetch_inv (fetch s1)" using s1 by (simp add: server_inv_def)
  from fetch_step_inv [OF assms(1) this f] s1 have s2: "server_inv ?s2"
    by (cases body) (simp_all add: server_inv_def)
  obtain s3 w3 where 80: "serve80 tcp apps h80 (?s2, ?w2) = Some (s3, w3)"
    and a: "admin_step p hw f tcp h81 (s3, w3) = Some (s', w')"
    using assms(3) i poll f by (auto simp: server_step_def Let_def split: Option.bind_splits)
  show ?thesis by (rule admin_step_inv [OF assms(1) serve80_inv [OF s2 80] a])
qed

text \<open>
  C12. In every reachable state of the loop, however the passes interleave with what the network and
  the interrupts do to the world: the routes are distinct; the counters of the background fetch are at
  most 200001 and 500000 and its buffer is below the limit; a feed waiting to be handed out is not
  empty and, like the last one handed out, at most one read above the limit; an upload waiting to be
  installed has a route and at most the allowed size; an upload being received has a route and is
  incomplete or came whole with its header in at most 1024 bytes; and neither an unanswered request
  nor the header of an upload is complete in its buffer. The request and header buffers, and the body
  of an upload up to the length its header announces, have no bound in the code and none here.
\<close>

theorem server_reach_inv:
  assumes "recv_bounded tcp" and "server_reach p hw f tcp apps h80 h81 (s, w)"
  shows "server_inv s"
proof -
  have "server_inv (fst sw)" if "server_reach p hw f tcp apps h80 h81 sw" for sw
    using that
  proof (induction rule: server_reach.induct)
    case (start routes files w)
    then show ?case by (simp add: initial_server_inv)
  next
    case (pass s w ts sw')
    then show ?case using server_step_inv [OF assms(1), of s p hw f apps h80 h81 ts w] by (cases sw') auto
  qed simp_all
  from this [OF assms(2)] show ?thesis by simp
qed

section \<open>A tape of chunks as a stack\<close>

text \<open>
  Sockets that are always open and hand out a list of chunks; what is sent is appended to a log. The
  applications of the examples answer with their path. The clock's ports read 1, the date
  2001-01-01 01:01:01 in BCD.
\<close>

definition tape_tcp :: "(bytes list \<times> bytes list, 'd) tcp_ops" where
  "tape_tcp =
     \<lparr>tcp_poll = (\<lambda>ts nm. Some nm), tcp_is_open = (\<lambda>h n. True), tcp_may_recv = (\<lambda>h n. True),
      tcp_can_recv = (\<lambda>h n. fst n \<noteq> []), tcp_may_send = (\<lambda>h n. True), tcp_listen = (\<lambda>h p n. n),
      tcp_recv = (\<lambda>h k n. case fst n of [] \<Rightarrow> ([], n)
        | c # cs \<Rightarrow> (take k c, (if length c \<le> k then cs else drop k c # cs, snd n))),
      tcp_send = (\<lambda>h b n. (fst n, snd n @ [b])), tcp_close = (\<lambda>h n. n), tcp_remove = (\<lambda>h n. n),
      tcp_connect = (\<lambda>ip p lp n. (None, n))\<rparr>"

definition echo_apps :: "(bytes, 'w) app_ops" where
  "echo_apps = \<lparr>app_load = (\<lambda>wasm w. Some (Some [], w)), app_feed = (\<lambda>feed a. feed),
     app_request = (\<lambda>m p b (a, w). Some (Some p, a, w))\<rparr>"

definition still_hw :: "unit hw" where
  "still_hw =
     \<lparr>port_in = (\<lambda>w port m. (1, m)), port_out = (\<lambda>w port v m. m),
      mmio_in = (\<lambda>w a m. (0, m)), mmio_out = (\<lambda>w a v m. m), sync = (\<lambda>m. m)\<rparr>"

lemma tape_bounded: "recv_bounded tape_tcp"
  by (auto simp: recv_bounded_def tape_tcp_def split: list.splits)

lemma still_cmos: "cmos_read still_hw r m = (1, m)"
  by (simp add: cmos_read_def inb_def outb_def still_hw_def)

lemma still_clock: "clock_now still_hw m = Some (978224461, m)"
proof -
  have "wait_update still_hw m = Some m"
    by (subst wait_update.simps) (simp add: still_cmos)
  then show ?thesis
    by (simp add: clock_now_def read_unix_timestamp_def still_cmos decode_reg_def bcd_to_bin_def timestamp_def Let_def
        i64_as_usize_def month_loop.simps [of 0 0])
qed

theorem fetch_step_safe_witness:
  "\<exists>st' body n' m'. fetch_step Dev still_hw tape_tcp (Receiving 2 [1] 7)
       (([[13, 10, 13, 10, 5]], []), \<lparr>ram = \<lambda>_. 0, dev = ()\<rparr>) = Some (st', body, n', m') \<and> fetch_inv st'"
  using fetch_step_safe [OF tape_bounded, of still_hw "Receiving 2 [1] 7" Dev "([[13, 10, 13, 10, 5]], [])"
      "\<lparr>ram = \<lambda>_. 0, dev = ()\<rparr>"]
    still_clock by (fastforce simp: FEED_MAX_SIZE_def)

definition quiet_world :: "bytes list \<Rightarrow> (bytes list \<times> bytes list, unit) world" where
  "quiet_world cs = \<lparr>socks = (cs, []), mach = \<lparr>ram = \<lambda>_. 0, dev = ()\<rparr>, blkdev = None\<rparr>"

lemma first_pass:
  "server_step Dev still_hw f tape_tcp echo_apps 0 1 0 (initial_server [(str ''/bbs'', [])] [], quiet_world [[71]])
   = Some (\<lparr>router = [(str ''/bbs'', [])], static_files = [], sent80 = False, req_buf = [71],
       admin = ReceivingHeaders [], pending_entry = None, fetch = FetchIdle 978224521, pending_feed = None,
       last_feed = []\<rparr>, quiet_world [])"
  by (simp add: server_step_def deliver_feed_def install_pending_def initial_server_def quiet_world_def tape_tcp_def
      fetch_step_def still_clock FEED_INTERVAL_SECS_def serve80_def listen80_def receive80_def admin_step_def
      listen_admin_def CRLF2_def)

theorem server_reach_inv_witness:
  "\<exists>s w. server_step Dev still_hw \<lparr>hdr_at = 0, sts_at = 16, buf_at = 4096\<rparr> tape_tcp echo_apps 0 1 0
       (initial_server [(str ''/bbs'', [])] [], quiet_world [[71]]) = Some (s :: bytes server, w)
     \<and> req_buf s = [71] \<and> server_inv s"
proof -
  let ?s = "\<lparr>router = [(str ''/bbs'', [] :: bytes)], static_files = [], sent80 = False, req_buf = [71],
       admin = ReceivingHeaders [], pending_entry = None, fetch = FetchIdle 978224521, pending_feed = None,
       last_feed = []\<rparr>"
  have "server_reach Dev still_hw \<lparr>hdr_at = 0, sts_at = 16, buf_at = 4096\<rparr> tape_tcp echo_apps 0 1
      (?s, quiet_world [])"
    by (rule server_reach.pass [OF server_reach.start first_pass])
  then have "server_inv ?s" by (rule server_reach_inv [OF tape_bounded])
  then show ?thesis using first_pass by (intro exI [of _ ?s] exI [of _ "quiet_world []"] conjI) simp_all
qed

end
