(* ===== verification/Upload.thy ===== *)
theory Upload
  imports ServerLaws
begin

text \<open>
  An upload through the administration port, from its chunks to the disk and into the router; and
  the answers on port 80.
\<close>

lemma no_window_prefix:
  assumes "window_position CRLF2 (xs @ ys) = None"
  shows "window_position CRLF2 xs = None"
  unfolding window_position_None [OF CRLF_nonempty(2)]
proof (intro allI impI)
  fix i assume i: "i + length CRLF2 \<le> length xs"
  then have "bslice i (length CRLF2) (xs @ ys) \<noteq> CRLF2"
    using assms unfolding window_position_None [OF CRLF_nonempty(2)] by simp
  with i show "bslice i (length CRLF2) xs \<noteq> CRLF2" by (simp add: slice_append_left)
qed

section \<open>The stack between the passes\<close>

text \<open>
  The stack changes in two ways: before each pass the network does something to it (a function on its
  state), and a pass may read from a socket. \<open>taken_in\<close> is what a socket hands out over a sequence of
  passes with the reading function \<open>r\<close>, and the stack after them; \<open>stays_open\<close> says that the socket is
  open before and after each read.
\<close>

fun taken_in :: "('n \<Rightarrow> bytes \<times> 'n) \<Rightarrow> ('n \<Rightarrow> 'n) list \<Rightarrow> 'n \<Rightarrow> bytes \<times> 'n" where
  "taken_in r [] n = ([], n)"
| "taken_in r (g # gs) n = (let (c, n) = r (g n); (cs, n) = taken_in r gs n in (c @ cs, n))"

fun stays_open :: "('n \<Rightarrow> bool) \<Rightarrow> ('n \<Rightarrow> bytes \<times> 'n) \<Rightarrow> ('n \<Rightarrow> 'n) list \<Rightarrow> 'n \<Rightarrow> bool" where
  "stays_open op r [] n \<longleftrightarrow> True"
| "stays_open op r (g # gs) n \<longleftrightarrow> op (g n) \<and> op (snd (r (g n))) \<and> stays_open op r gs (snd (r (g n)))"

lemma taken_in_append:
  "taken_in r (gs @ hs) n = (let (c, n) = taken_in r gs n; (cs, n) = taken_in r hs n in (c @ cs, n))"
  by (induction gs arbitrary: n) (simp_all add: Let_def case_prod_beta)

lemma stays_open_append:
  "stays_open op r (gs @ hs) n \<longleftrightarrow> stays_open op r gs n \<and> stays_open op r hs (snd (taken_in r gs n))"
  by (induction gs arbitrary: n) (simp_all add: Let_def case_prod_beta)

section \<open>Receiving and storing an upload\<close>














section \<open>Installing it\<close>

text \<open>
  C9. The pass after an upload installs it: when the runtime accepts the module, the route leads to
  the new application and no other route changes; the application starts with the latest feed, also
  when that feed arrived in the same pass. When the runtime rejects it, the routes stay as they are.
\<close>

theorem hot_swap:
  assumes "pending_entry s = Some (pre, wasm)" and "prefixes_distinct (router s)" and "starts_with path pre"
    and "\<forall>e\<in>set (router s). starts_with path (fst e) \<longrightarrow> length (fst e) \<le> length pre"
    and "app_load apps wasm w = Some (r, w')"
  defines "feed \<equiv> (case pending_feed s of None \<Rightarrow> last_feed s | Some b \<Rightarrow> b)"
    and "s0 \<equiv> deliver_feed apps s"
  shows "\<exists>s'. install_pending apps (s0, w) = Some (s', w') \<and> pending_entry s' = None \<and> last_feed s' = feed
    \<and> (case r of
         None \<Rightarrow> router s' = router s0
       | Some app \<Rightarrow> \<exists>i. route_mut path (router s') = Some (length pre, i)
           \<and> router s' ! i = (pre, if feed = [] then app else app_feed apps feed app)
           \<and> (\<forall>q. q \<noteq> pre \<longrightarrow> map_of (router s') q = map_of (router s0) q))"
proof -
  have s0: "pending_entry s0 = Some (pre, wasm)" "last_feed s0 = feed" "map fst (router s0) = map fst (router s)"
    using assms(1) by (auto simp: s0_def feed_def deliver_feed_def comp_def case_prod_beta split: option.splits)
  have dist: "prefixes_distinct (router s0)" using assms(2) s0(3) by (simp add: prefixes_distinct_def)
  have longest: "\<forall>e\<in>set (router s0). starts_with path (fst e) \<longrightarrow> length (fst e) \<le> length pre"
  proof
    fix e assume "e \<in> set (router s0)"
    then have "fst e \<in> set (map fst (router s))" unfolding s0(3) [symmetric] by simp
    then show "starts_with path (fst e) \<longrightarrow> length (fst e) \<le> length pre" using assms(4) by auto
  qed
  show ?thesis
  proof (cases r)
    case None
    then show ?thesis using s0 assms(5) by (simp add: install_pending_def)
  next
    case (Some app)
    let ?app = "if feed = [] then app else app_feed apps feed app"
    show ?thesis
      using route_insert [OF dist assms(3) longest, of ?app] s0 assms(5) Some
      by (auto simp: install_pending_def Let_def)
  qed
qed

theorem hot_swap_witness:
  "\<exists>s'. install_pending echo_apps
       (deliver_feed (echo_apps :: (bytes, unit) app_ops) ((initial_server [(str ''/'', [])] [])\<lparr>pending_entry := Some (str ''/bbs'', [0]), pending_feed := Some [9]\<rparr>), ())
     = Some (s', ()) \<and> (\<exists>i. route_mut (str ''/bbs'') (router s') = Some (length (str ''/bbs''), i)
         \<and> router s' ! i = (str ''/bbs'', [9]))"
proof -
  let ?s = "(initial_server [(str ''/'', [])] [] :: bytes server)\<lparr>pending_entry := Some (str ''/bbs'', [0]), pending_feed := Some [9]\<rparr>"
  have "prefixes_distinct (router ?s)" "starts_with (str ''/bbs'') (str ''/bbs'')"
    "\<forall>e\<in>set (router ?s). starts_with (str ''/bbs'') (fst e) \<longrightarrow> length (fst e) \<le> length (str ''/bbs'')"
    by (simp_all add: initial_server_def prefixes_distinct_def starts_with_def)
  moreover have "app_load echo_apps [0] () = Some (Some [], ())" by (simp add: echo_apps_def)
  moreover have feed: "app_feed (echo_apps :: (bytes, unit) app_ops) b a = b" for b a by (simp add: echo_apps_def)
  ultimately show ?thesis
    using hot_swap [of ?s "str ''/bbs''" "[0]" "str ''/bbs''" echo_apps "()" "Some []" "()"] feed
    by auto
qed

section \<open>Requests on port 80\<close>

fun run80 :: "('n, 'd) tcp_ops \<Rightarrow> ('a, ('n, 'd) world) app_ops \<Rightarrow> nat \<Rightarrow> ('n \<Rightarrow> 'n) list \<Rightarrow>
    'a server \<times> ('n, 'd) world \<Rightarrow> ('a server \<times> ('n, 'd) world) option" where
  "run80 tcp apps h [] sw = Some sw"
| "run80 tcp apps h (g # gs) sw =
     Option.bind (serve80 tcp apps h (fst sw, on_socks g (snd sw))) (run80 tcp apps h gs)"

lemma run80_append:
  "run80 tcp apps h (gs @ hs) sw = Option.bind (run80 tcp apps h gs sw) (run80 tcp apps h hs)"
  by (induction gs arbitrary: sw) (auto split: Option.bind_splits)

lemma run80_one: "run80 tcp apps h [g] (s, w) = serve80 tcp apps h (s, on_socks g w)"
  by (cases "serve80 tcp apps h (s, on_socks g w)") simp_all

text \<open>A read of port 80, and the requests it is part of.\<close>

definition read80 :: "('n, 'd) tcp_ops \<Rightarrow> nat \<Rightarrow> 'n \<Rightarrow> bytes \<times> 'n" where
  "read80 tcp h n = (if tcp_may_recv tcp h n then tcp_recv tcp h 1024 n else ([], n))"

abbreviation open80 :: "('n, 'd) tcp_ops \<Rightarrow> nat \<Rightarrow> ('n \<Rightarrow> 'n) list \<Rightarrow> 'n \<Rightarrow> bool" where
  "open80 tcp h \<equiv> stays_open (tcp_is_open tcp h) (read80 tcp h)"

abbreviation taken80 :: "('n, 'd) tcp_ops \<Rightarrow> nat \<Rightarrow> ('n \<Rightarrow> 'n) list \<Rightarrow> 'n \<Rightarrow> bytes \<times> 'n" where
  "taken80 tcp h \<equiv> taken_in (read80 tcp h)"

lemma serve80_pass:
  fixes s :: "'a server" and w :: "('n, 'd) world"
  assumes "tcp_is_open tcp h (socks w)" and "read80 tcp h (socks w) = (c, n)" and "\<not> sent80 s"
    and "window_position CRLF2 (req_buf s) = None"
  defines "s1 \<equiv> s\<lparr>req_buf := req_buf s @ c\<rparr>" and "w1 \<equiv> w\<lparr>socks := n\<rparr>"
  shows "serve80 tcp apps h (s, w) =
    (if window_position CRLF2 (req_buf s @ c) \<noteq> None then do {
       (resp, s, w) \<leftarrow> respond apps (parse_http (req_buf s @ c)) (s1, w1);
       Some (s\<lparr>sent80 := True\<rparr>, on_socks (\<lambda>n. tcp_close tcp h (tcp_send tcp h resp n)) w)
     }
     else Some (s1, w1))"
  using assms by (simp add: serve80_def listen80_def receive80_def read80_def on_socks_def Let_def split: if_splits)

lemma serve80_done:
  assumes "tcp_is_open tcp h (socks w)" and "sent80 s"
  shows "serve80 tcp apps h (s, w) = Some (s, w)"
  using assms by (simp add: serve80_def listen80_def receive80_def)

lemma run80_done:
  assumes "stays_open (tcp_is_open tcp h) (Pair []) gs (socks w)" and "sent80 s"
  shows "run80 tcp apps h gs (s, w) = Some (s, w\<lparr>socks := fold (\<lambda>g. g) gs (socks w)\<rparr>)"
  using assms by (induction gs arbitrary: w) (simp_all add: serve80_done on_socks_def)

text \<open>Passes that bring no end of the header.\<close>

lemma run80_collects:
  assumes "open80 tcp h gs (socks w)" and "taken80 tcp h gs (socks w) = (bs, n)" and "\<not> sent80 s"
    and "window_position CRLF2 (req_buf s @ bs) = None"
  shows "run80 tcp apps h gs (s, w) = Some (s\<lparr>req_buf := req_buf s @ bs\<rparr>, w\<lparr>socks := n\<rparr>)"
  using assms
proof (induction gs arbitrary: s w bs)
  case (Cons g gs)
  obtain c n1 where r: "read80 tcp h (g (socks w)) = (c, n1)" by fastforce
  obtain bs1 where bs: "taken80 tcp h gs n1 = (bs1, n)" "bs = c @ bs1"
    using Cons.prems(2) by (auto simp: r Let_def split: prod.splits)
  have none: "window_position CRLF2 (req_buf s @ c) = None" "window_position CRLF2 (req_buf s) = None"
    using Cons.prems(4) no_window_prefix [of "req_buf s @ c" bs1] no_window_prefix [of "req_buf s" "c @ bs1"]
    by (simp_all add: bs(2))
  have "serve80 tcp apps h (s, on_socks g w) = Some (s\<lparr>req_buf := req_buf s @ c\<rparr>, w\<lparr>socks := n1\<rparr>)"
    using serve80_pass [OF _ _ Cons.prems(3) none(2), of tcp h "on_socks g w" c n1 apps] none(1) Cons.prems(1) r
    by (simp add: on_socks_def)
  then show ?case
    using Cons.IH [of "w\<lparr>socks := n1\<rparr>" bs1 "s\<lparr>req_buf := req_buf s @ c\<rparr>"] Cons.prems r bs by simp
qed simp

text \<open>The pass that brings the end of the header.\<close>

lemma run80_answers:
  assumes "open80 tcp h (gs @ [g]) (socks w)" and "\<not> sent80 s"
    and "window_position CRLF2 (req_buf s @ fst (taken80 tcp h gs (socks w))) = None"
    and "taken80 tcp h (gs @ [g]) (socks w) = (bs, n)" and "window_position CRLF2 (req_buf s @ bs) \<noteq> None"
  shows "run80 tcp apps h (gs @ [g]) (s, w) = do {
      (resp, s1, w1) \<leftarrow> respond apps (parse_http (req_buf s @ bs)) (s\<lparr>req_buf := req_buf s @ bs\<rparr>, w\<lparr>socks := n\<rparr>);
      Some (s1\<lparr>sent80 := True\<rparr>, on_socks (\<lambda>n. tcp_close tcp h (tcp_send tcp h resp n)) w1) }"
proof -
  obtain bs0 n0 where t: "taken80 tcp h gs (socks w) = (bs0, n0)" by fastforce
  obtain c where c: "read80 tcp h (g n0) = (c, n)" "bs = bs0 @ c"
    using assms(4) by (auto simp: taken_in_append t Let_def split: prod.splits)
  let ?s = "s\<lparr>req_buf := req_buf s @ bs0\<rparr>" and ?w = "w\<lparr>socks := n0\<rparr>"
  have "run80 tcp apps h gs (s, w) = Some (?s, ?w)"
    using assms(1-3) by (intro run80_collects) (simp_all add: stays_open_append t)
  moreover have "serve80 tcp apps h (?s, on_socks g ?w) = do {
      (resp, s1, w1) \<leftarrow> respond apps (parse_http (req_buf s @ bs)) (s\<lparr>req_buf := req_buf s @ bs\<rparr>, w\<lparr>socks := n\<rparr>);
      Some (s1\<lparr>sent80 := True\<rparr>, on_socks (\<lambda>n. tcp_close tcp h (tcp_send tcp h resp n)) w1) }"
    using serve80_pass [of tcp h "on_socks g ?w" c n ?s apps] assms(1-3,5) c
    by (simp add: on_socks_def stays_open_append t)
  ultimately show ?thesis by (simp only: run80_append run80_one Option.bind.bind_lunit)
qed

text \<open>
  What has been given to the socket for sending: \<open>sent\<close> reads it off the stack's state. A send adds one
  entry; the other operations of port 80, and the network between the passes, add none.
\<close>

definition logs :: "('n, 'd) tcp_ops \<Rightarrow> nat \<Rightarrow> ('n \<Rightarrow> bytes list) \<Rightarrow> bool" where
  "logs tcp h sent \<longleftrightarrow> (\<forall>b n. sent (tcp_send tcp h b n) = sent n @ [b]) \<and> (\<forall>k n. sent (snd (tcp_recv tcp h k n)) = sent n)
     \<and> (\<forall>n. sent (tcp_listen tcp h 80 n) = sent n) \<and> (\<forall>n. sent (tcp_close tcp h n) = sent n)"

definition unsent :: "('n \<Rightarrow> bytes list) \<Rightarrow> ('n \<Rightarrow> 'n) list \<Rightarrow> bool" where
  "unsent sent gs \<longleftrightarrow> (\<forall>g\<in>set gs. \<forall>n. sent (g n) = sent n)"

lemma taken80_sends_nothing:
  "logs tcp h sent \<Longrightarrow> unsent sent gs \<Longrightarrow> sent (snd (taken80 tcp h gs n)) = sent n"
  by (induction gs arbitrary: n) (auto simp: logs_def unsent_def read80_def Let_def case_prod_beta)

lemma fold_sends_nothing: "unsent sent gs \<Longrightarrow> sent (fold (\<lambda>g. g) gs n) = sent n"
  by (induction gs arbitrary: n) (simp_all add: unsent_def)

text \<open>
  C13. A request is answered once and on its whole header. However the bytes are cut over the passes (some
  bringing none), after each pass before the one that brings the empty line nothing has been sent, and the
  bytes so far are kept; that pass answers the request parsed from all bytes of the connection, which is
  one entry more among what was sent, and closes; the passes after it, while the socket stays open, read
  nothing, send nothing and change nothing.
\<close>

theorem request_answered_once:
  assumes "logs tcp h sent" and "unsent sent (gs @ [g])" and "open80 tcp h (gs @ [g]) (socks w)" and "\<not> sent80 s"
    and "window_position CRLF2 (req_buf s @ fst (taken80 tcp h gs (socks w))) = None"
    and "taken80 tcp h (gs @ [g]) (socks w) = (bs, n)" and "window_position CRLF2 (req_buf s @ bs) \<noteq> None"
    and "respond apps (parse_http (req_buf s @ bs)) (s\<lparr>req_buf := req_buf s @ bs\<rparr>, w\<lparr>socks := n\<rparr>) = Some (resp, s1, w1)"
    and "sent (socks w1) = sent n"
  shows "(\<forall>j. \<exists>s' w'. run80 tcp apps h (take j gs) (s, w) = Some (s', w') \<and> \<not> sent80 s'
      \<and> (req_buf s', socks w') = map_prod (append (req_buf s)) id (taken80 tcp h (take j gs) (socks w))
      \<and> sent (socks w') = sent (socks w))
    \<and> (\<exists>s2 w2. run80 tcp apps h (gs @ [g]) (s, w) = Some (s2, w2) \<and> s2 = s1\<lparr>sent80 := True\<rparr>
      \<and> w2 = w1\<lparr>socks := tcp_close tcp h (tcp_send tcp h resp (socks w1))\<rparr>
      \<and> sent (socks w2) = sent (socks w) @ [resp]
      \<and> (\<forall>after. stays_open (tcp_is_open tcp h) (Pair []) after (socks w2) \<and> unsent sent after \<longrightarrow>
          run80 tcp apps h after (s2, w2) = Some (s2, w2\<lparr>socks := fold (\<lambda>g. g) after (socks w2)\<rparr>)
          \<and> sent (fold (\<lambda>g. g) after (socks w2)) = sent (socks w2)))"
proof
  show "\<forall>j. \<exists>s' w'. run80 tcp apps h (take j gs) (s, w) = Some (s', w') \<and> \<not> sent80 s'
      \<and> (req_buf s', socks w') = map_prod (append (req_buf s)) id (taken80 tcp h (take j gs) (socks w))
      \<and> sent (socks w') = sent (socks w)"
  proof
    fix j
    obtain b0 n0 where t: "taken80 tcp h (take j gs) (socks w) = (b0, n0)" by fastforce
    obtain b1 n1 where d: "taken80 tcp h (drop j gs) n0 = (b1, n1)" by fastforce
    have "taken80 tcp h gs (socks w) = (b0 @ b1, n1)"
      using taken_in_append [of "read80 tcp h" "take j gs" "drop j gs" "socks w"] by (simp add: t d)
    then have none: "window_position CRLF2 (req_buf s @ b0) = None"
      using assms(5) no_window_prefix [of "req_buf s @ b0" b1] by simp
    have "open80 tcp h (take j gs) (socks w)"
      using assms(3) by (simp add: stays_open_append stays_open_append [of _ _ "take j gs" "drop j gs", simplified])
    from run80_collects [OF this t assms(4) none, of apps]
    have "run80 tcp apps h (take j gs) (s, w) = Some (s\<lparr>req_buf := req_buf s @ b0\<rparr>, w\<lparr>socks := n0\<rparr>)" .
    moreover have "sent n0 = sent (socks w)"
      using taken80_sends_nothing [OF assms(1), of "take j gs" "socks w"] assms(2) t
      by (auto simp: unsent_def dest: in_set_takeD)
    ultimately show "\<exists>s' w'. run80 tcp apps h (take j gs) (s, w) = Some (s', w') \<and> \<not> sent80 s'
      \<and> (req_buf s', socks w') = map_prod (append (req_buf s)) id (taken80 tcp h (take j gs) (socks w))
      \<and> sent (socks w') = sent (socks w)" using assms(4) t by simp
  qed
  let ?s2 = "s1\<lparr>sent80 := True\<rparr>" and ?w2 = "w1\<lparr>socks := tcp_close tcp h (tcp_send tcp h resp (socks w1))\<rparr>"
  have "sent n = sent (socks w)" using taken80_sends_nothing [OF assms(1,2), of "socks w"] assms(6) by simp
  moreover have "sent (tcp_close tcp h (tcp_send tcp h resp (socks w1))) = sent (socks w1) @ [resp]"
    using assms(1) by (simp add: logs_def)
  moreover have "run80 tcp apps h after (?s2, ?w2) = Some (?s2, ?w2\<lparr>socks := fold (\<lambda>g. g) after (socks ?w2)\<rparr>)
      \<and> sent (fold (\<lambda>g. g) after (socks ?w2)) = sent (socks ?w2)"
    if "stays_open (tcp_is_open tcp h) (Pair []) after (socks ?w2)" "unsent sent after" for after
    using run80_done [OF that(1), of ?s2 apps] fold_sends_nothing [OF that(2)] by simp
  moreover have "run80 tcp apps h (gs @ [g]) (s, w) = Some (?s2, ?w2)"
    using run80_answers [OF assms(3-7), of apps] assms(8) by (simp add: on_socks_def)
  ultimately show "\<exists>s2 w2. run80 tcp apps h (gs @ [g]) (s, w) = Some (s2, w2) \<and> s2 = s1\<lparr>sent80 := True\<rparr>
      \<and> w2 = w1\<lparr>socks := tcp_close tcp h (tcp_send tcp h resp (socks w1))\<rparr>
      \<and> sent (socks w2) = sent (socks w) @ [resp]
      \<and> (\<forall>after. stays_open (tcp_is_open tcp h) (Pair []) after (socks w2) \<and> unsent sent after \<longrightarrow>
          run80 tcp apps h after (s2, w2) = Some (s2, w2\<lparr>socks := fold (\<lambda>g. g) after (socks w2)\<rparr>)
          \<and> sent (fold (\<lambda>g. g) after (socks w2)) = sent (socks w2))"
    using assms(9) by (intro exI [of _ ?s2] exI [of _ ?w2]) simp
qed

theorem request_answered_once_witness:
  "\<exists>s1 s2 w1 w2. run80 tape_tcp echo_apps 0 (take 1 [id]) (initial_server [(str ''/bbs'', [])] [],
        \<lparr>socks = ([str ''GET /bb'', str ''s/x HTTP/1.1'' @ CRLF2], []), mach = \<lparr>ram = \<lambda>_. 0, dev = ()\<rparr>, blkdev = None\<rparr>) = Some (s1, w1)
    \<and> snd (socks w1) = []
    \<and> run80 tape_tcp echo_apps 0 ([id] @ [id]) (initial_server [(str ''/bbs'', [])] [],
        \<lparr>socks = ([str ''GET /bb'', str ''s/x HTTP/1.1'' @ CRLF2], []), mach = \<lparr>ram = \<lambda>_. 0, dev = ()\<rparr>, blkdev = None\<rparr>) = Some (s2, w2)
    \<and> snd (socks w2) = [str ''/x''] \<and> run80 tape_tcp echo_apps 0 [id] (s2, w2) = Some (s2, w2)"
proof -
  let ?tcp = "tape_tcp :: (bytes list \<times> bytes list, unit) tcp_ops"
  let ?c1 = "str ''GET /bb''" and ?c2 = "str ''s/x HTTP/1.1'' @ CRLF2"
  let ?s = "initial_server [(str ''/bbs'', [])] [] :: bytes server"
  let ?w = "\<lparr>socks = ([?c1, ?c2], []), mach = \<lparr>ram = \<lambda>_. 0, dev = ()\<rparr>, blkdev = None\<rparr>"
  have s: "\<not> sent80 ?s" "req_buf ?s = []" by (simp_all add: initial_server_def)
  have log: "logs ?tcp 0 snd" "unsent snd ([id] @ [id])" "unsent snd [id]"
    by (auto simp: logs_def unsent_def tape_tcp_def split: list.splits)
  have so: "stays_open (tcp_is_open ?tcp 0) r gs n" for r gs n
    by (induction gs arbitrary: n) (simp_all add: tape_tcp_def)
  have "length ?c1 \<le> 1024" "length ?c2 \<le> 1024" by (simp_all add: str_def CRLF2_def)
  then have t: "taken80 ?tcp 0 [id] (socks ?w) = (?c1, ([?c2], []))"
    "taken80 ?tcp 0 ([id] @ [id]) (socks ?w) = (?c1 @ ?c2, ([], []))"
    by (simp_all add: read80_def tape_tcp_def)
  have e: "window_position CRLF2 (req_buf ?s @ fst (taken80 ?tcp 0 [id] (socks ?w))) = None"
    "window_position CRLF2 (req_buf ?s @ ?c1 @ ?c2) \<noteq> None"
    unfolding s t by (simp_all add: CRLF2_def str_Cons)
  have p: "parse_http (?c1 @ ?c2) = \<lparr>h_method = str ''GET'', h_path = str ''/bbs/x'', h_body = []\<rparr>"
    by (simp add: parse_http_def str_Cons CRLF_def CRLF2_def numeral_3_eq_3)
  let ?s1 = "?s\<lparr>req_buf := ?c1 @ ?c2\<rparr>" and ?w1 = "?w\<lparr>socks := ([], [])\<rparr>"
  have r: "respond echo_apps (parse_http (req_buf ?s @ ?c1 @ ?c2)) (?s\<lparr>req_buf := req_buf ?s @ ?c1 @ ?c2\<rparr>, ?w\<lparr>socks := ([], [])\<rparr>)
      = Some (str ''/x'', ?s1, ?w1)"
    unfolding s append_Nil p by (simp add: respond_def echo_apps_def initial_server_def route_mut_def starts_with_def str_Cons)
  note once = request_answered_once [OF log(1,2) so s(1) e(1) t(2) e(2) r]
  have "snd (socks ?w1) = snd ([], [] :: bytes list)" by simp
  note once = once [OF this]
  from once obtain s2 w2 where 2: "run80 ?tcp echo_apps 0 ([id] @ [id]) (?s, ?w) = Some (s2, w2)"
    "snd (socks w2) = snd (socks ?w) @ [str ''/x'']"
    "run80 ?tcp echo_apps 0 [id] (s2, w2) = Some (s2, w2\<lparr>socks := fold (\<lambda>g. g) [id] (socks w2)\<rparr>)"
    using so log(3) by blast
  from once obtain s1 w1 where "run80 ?tcp echo_apps 0 (take 1 [id]) (?s, ?w) = Some (s1, w1)" "snd (socks w1) = snd (socks ?w)"
    by blast
  with 2 show ?thesis by (intro exI [of _ s1] exI [of _ s2] exI [of _ w1] exI [of _ w2]) simp
qed

end
