(* ===== verification/Pci.thy ===== *)
theory Pci
  imports Machine
begin

text \<open>
  PCI configuration space through the ports 0xCF8 and 0xCFC (\<^verbatim>\<open>pci.rs\<close>): the address word, the
  reads of 32, 16 and 8 bits, and the search for a device by vendor and device number.
\<close>

definition CONFIG_ADDRESS :: u16 where "CONFIG_ADDRESS = 0xCF8"
definition CONFIG_DATA :: u16 where "CONFIG_DATA = 0xCFC"

definition make_address :: "u8 \<Rightarrow> u8 \<Rightarrow> u8 \<Rightarrow> u8 \<Rightarrow> u32" where
  "make_address bus slot func off =
     0x80000000 OR push_bit 16 (ucast bus) OR push_bit 11 (ucast slot) OR push_bit 8 (ucast func)
     OR (ucast off AND 0xFC)"

definition read32 :: "'d hw \<Rightarrow> u8 \<Rightarrow> u8 \<Rightarrow> u8 \<Rightarrow> u8 \<Rightarrow> 'd machine \<Rightarrow> u32 \<times> 'd machine" where
  "read32 hw bus slot func off m =
     inl hw CONFIG_DATA (outl hw CONFIG_ADDRESS (make_address bus slot func off) m)"

definition read16 :: "'d hw \<Rightarrow> u8 \<Rightarrow> u8 \<Rightarrow> u8 \<Rightarrow> u8 \<Rightarrow> 'd machine \<Rightarrow> u16 \<times> 'd machine" where
  "read16 hw bus slot func off m =
     (let (val, m) = read32 hw bus slot func (off AND NOT 3) m
      in (ucast (drop_bit (unat ((off AND 2) * 8)) val AND 0xFFFF), m))"

definition read8 :: "'d hw \<Rightarrow> u8 \<Rightarrow> u8 \<Rightarrow> u8 \<Rightarrow> u8 \<Rightarrow> 'd machine \<Rightarrow> u8 \<times> 'd machine" where
  "read8 hw bus slot func off m =
     (let (val, m) = read32 hw bus slot func (off AND NOT 3) m
      in (ucast (drop_bit (unat ((off AND 3) * 8)) val AND 0xFF), m))"

record pci_device =
  pd_bus :: "8 word"
  pd_slot :: "8 word"
  pd_func :: "8 word"
  vendor_id :: "16 word"
  device_id :: "16 word"
  bar0 :: "32 word"

text \<open>\<open>for func in 1u8..8\<close>\<close>

fun find_func :: "'d hw \<Rightarrow> u16 \<Rightarrow> u16 \<Rightarrow> u8 \<Rightarrow> u8 \<Rightarrow> u8 list \<Rightarrow> 'd machine \<Rightarrow> pci_device option \<times> 'd machine" where
  "find_func hw vid did bus slot [] m = (None, m)"
| "find_func hw vid did bus slot (func # fs) m =
     (let (v, m) = read16 hw bus slot func 0x00 m in
      if v = 0xFFFF then find_func hw vid did bus slot fs m
      else
        let (d, m) = read16 hw bus slot func 0x02 m in
        if v = vid \<and> d = did then
          (let (b, m) = read32 hw bus slot func 0x10 m
           in (Some \<lparr>pd_bus = bus, pd_slot = slot, pd_func = func, vendor_id = v, device_id = d, bar0 = b\<rparr>, m))
        else find_func hw vid did bus slot fs m)"

text \<open>The body of the two outer loops, over the pairs of a bus and a slot in their order.\<close>

fun find_slots :: "'d hw \<Rightarrow> u16 \<Rightarrow> u16 \<Rightarrow> (u8 \<times> u8) list \<Rightarrow> 'd machine \<Rightarrow> pci_device option \<times> 'd machine" where
  "find_slots hw vid did [] m = (None, m)"
| "find_slots hw vid did ((bus, slot) # ps) m =
     (let (v, m) = read16 hw bus slot 0 0x00 m in
      if v = 0xFFFF then find_slots hw vid did ps m
      else
        let (d, m) = read16 hw bus slot 0 0x02 m in
        if v = vid \<and> d = did then
          (let (b, m) = read32 hw bus slot 0 0x10 m
           in (Some \<lparr>pd_bus = bus, pd_slot = slot, pd_func = 0, vendor_id = v, device_id = d, bar0 = b\<rparr>, m))
        else
          let (header, m) = read8 hw bus slot 0 0x0E m in
          if header AND 0x80 \<noteq> 0 then
            (case find_func hw vid did bus slot (map of_nat [1..<8]) m of
               (Some dv, m) \<Rightarrow> (Some dv, m)
             | (None, m) \<Rightarrow> find_slots hw vid did ps m)
          else find_slots hw vid did ps m)"

definition all_slots :: "(u8 \<times> u8) list" where
  "all_slots = concat (map (\<lambda>b. map (\<lambda>s. (of_nat b, of_nat s)) [0..<32]) [0..<256])"

definition pci_find :: "'d hw \<Rightarrow> u16 \<Rightarrow> u16 \<Rightarrow> 'd machine \<Rightarrow> pci_device option \<times> 'd machine" where
  "pci_find hw vid did m = find_slots hw vid did all_slots m"

section \<open>What the bus holds\<close>

text \<open>
  The bus as the PCI specification has it, in numbers of its own: the word that the host bridge
  gives at an address is what a table holds, in every state of the machine a predicate keeps, and
  the address of register \<open>off\<close> of a function is the enable bit plus 2^16 times the bus, 2^11 times
  the slot (of 32), 2^8 times the function (of 8) and the register's word.
\<close>

definition cfg_reads :: "'d hw \<Rightarrow> ('d machine \<Rightarrow> bool) \<Rightarrow> (u32 \<Rightarrow> u32) \<Rightarrow> bool" where
  "cfg_reads hw ok cfg \<longleftrightarrow>
     (\<forall>m a. ok m \<longrightarrow> (\<exists>m'. inl hw 0xCFC (outl hw 0xCF8 a m) = (cfg a, m') \<and> ok m'))"

definition cfg32 :: "(u32 \<Rightarrow> u32) \<Rightarrow> u8 \<Rightarrow> u8 \<Rightarrow> u8 \<Rightarrow> u8 \<Rightarrow> u32" where
  "cfg32 cfg bus slot func off =
     cfg (of_nat (2 ^ 31 + 2 ^ 16 * unat bus + 2 ^ 11 * unat slot + 2 ^ 8 * unat func + 4 * (unat off div 4)))"

definition cfg16 :: "(u32 \<Rightarrow> u32) \<Rightarrow> u8 \<Rightarrow> u8 \<Rightarrow> u8 \<Rightarrow> u8 \<Rightarrow> u16" where
  "cfg16 cfg bus slot func off = of_nat (unat (cfg32 cfg bus slot func off) div 2 ^ (8 * (unat off mod 4)) mod 2 ^ 16)"

definition cfg8 :: "(u32 \<Rightarrow> u32) \<Rightarrow> u8 \<Rightarrow> u8 \<Rightarrow> u8 \<Rightarrow> u8 \<Rightarrow> u8" where
  "cfg8 cfg bus slot func off = of_nat (unat (cfg32 cfg bus slot func off) div 2 ^ (8 * (unat off mod 4)) mod 2 ^ 8)"

text \<open>
  The functions of the bus in order: 256 buses of 32 slots of 8 functions, where a slot without a
  function 0 (all ones for its vendor) has none, and functions 1 to 7 are there only behind a header
  with the multi-function bit.
\<close>

definition slot_functions :: "(u32 \<Rightarrow> u32) \<Rightarrow> u8 \<times> u8 \<Rightarrow> (u8 \<times> u8 \<times> u8) list" where
  "slot_functions cfg = (\<lambda>(bus, slot).
     if cfg16 cfg bus slot 0 0 = 0xFFFF then []
     else (bus, slot, 0) # (if cfg8 cfg bus slot 0 14 \<ge> 128
       then map (\<lambda>func. (bus, slot, func)) (filter (\<lambda>func. cfg16 cfg bus slot func 0 \<noteq> 0xFFFF) [1, 2, 3, 4, 5, 6, 7])
       else []))"

definition pci_functions :: "(u32 \<Rightarrow> u32) \<Rightarrow> (u8 \<times> u8 \<times> u8) list" where
  "pci_functions cfg =
     concat (map (\<lambda>bus. concat (map (\<lambda>slot. slot_functions cfg (of_nat bus, of_nat slot)) [0..<32])) [0..<256])"

definition is_function :: "(u32 \<Rightarrow> u32) \<Rightarrow> u16 \<Rightarrow> u16 \<Rightarrow> u8 \<times> u8 \<times> u8 \<Rightarrow> bool" where
  "is_function cfg vid did = (\<lambda>(bus, slot, func).
     cfg16 cfg bus slot func 0 = vid \<and> cfg16 cfg bus slot func 2 = did)"

definition described :: "(u32 \<Rightarrow> u32) \<Rightarrow> u8 \<times> u8 \<times> u8 \<Rightarrow> pci_device" where
  "described cfg = (\<lambda>(bus, slot, func). \<lparr>pd_bus = bus, pd_slot = slot, pd_func = func,
     vendor_id = cfg16 cfg bus slot func 0, device_id = cfg16 cfg bus slot func 2,
     bar0 = cfg32 cfg bus slot func 0x10\<rparr>)"

section \<open>The search\<close>

text \<open>The address word: its fields do not overlap for slots below 32 and functions below 8.\<close>

lemma low_bits: "unat x < 2 ^ k \<Longrightarrow> bit (x :: u8) n \<Longrightarrow> n < k"
proof (rule ccontr)
  assume "unat x < 2 ^ k" and "bit x n" and "\<not> n < k"
  then have "bit (take_bit k (unat x)) n" by (simp add: take_bit_nat_eq_self bit_unsigned_iff bit_imp_le_length)
  with \<open>\<not> n < k\<close> show False by (simp add: bit_take_bit_iff)
qed

lemma offset_word: "ucast (off :: u8) AND 0xFC = (of_nat (4 * (unat off div 4)) :: u32)"
proof -
  have m: "(0xFC :: u32) = push_bit 2 (mask 6)" by (simp add: push_bit_eq_mult mask_eq_exp_minus_1)
  have "ucast off AND 0xFC = (push_bit 2 (drop_bit 2 (ucast off)) :: u32)"
    unfolding m by (rule bit_word_eqI) (auto simp: bit_simps simp flip: Suc_diff_le dest: bit_imp_le_length)
  also have "\<dots> = of_nat (push_bit 2 (drop_bit 2 (unat off)))"
    by (rule bit_word_eqI) (auto simp: bit_simps)
  finally show ?thesis by (simp add: push_bit_eq_mult drop_bit_eq_div ac_simps)
qed

lemma address_fields:
  assumes "slot < 32" and "func < 8"
  shows "make_address bus slot func off =
    of_nat (2 ^ 31 + 2 ^ 16 * unat bus + 2 ^ 11 * unat slot + 2 ^ 8 * unat func + 4 * (unat off div 4))"
proof -
  have s: "5 \<le> n \<Longrightarrow> \<not> bit slot n" and f: "3 \<le> n \<Longrightarrow> \<not> bit func n" for n
    using low_bits [of slot 5 n] low_bits [of func 3 n] assms by (auto simp: word_less_nat_alt)
  have top: "bit (0x80000000 :: int) n \<longleftrightarrow> n = 31" for n
  proof -
    have "(0x80000000 :: int) = 2 ^ 31" by simp
    then show ?thesis by (simp only: bit_exp_iff) auto
  qed
  have b: "\<not> bit bus n" if "8 \<le> n" for n
    using that bit_imp_le_length [of bus n] by auto
  have o: "\<not> bit off n" if "8 \<le> n" for n
    using that bit_imp_le_length [of off n] by auto
  have "make_address bus slot func off = 0x80000000 + push_bit 16 (ucast bus) + push_bit 11 (ucast slot)
      + push_bit 8 (ucast func) + (ucast off AND 0xFC)"
  proof -
    have 1: "0x80000000 + push_bit 16 (ucast bus) = 0x80000000 OR (push_bit 16 (ucast bus) :: u32)"
      by (rule disjunctive_add_eq_or) (auto intro!: bit_word_eqI simp: bit_simps top b)
    have 2: "(0x80000000 OR push_bit 16 (ucast bus)) + push_bit 11 (ucast slot)
        = (0x80000000 OR push_bit 16 (ucast bus)) OR (push_bit 11 (ucast slot) :: u32)"
      by (rule disjunctive_add_eq_or) (auto intro!: bit_word_eqI simp: bit_simps top b s)
    have 3: "((0x80000000 OR push_bit 16 (ucast bus)) OR push_bit 11 (ucast slot)) + push_bit 8 (ucast func)
        = ((0x80000000 OR push_bit 16 (ucast bus)) OR push_bit 11 (ucast slot)) OR (push_bit 8 (ucast func) :: u32)"
      by (rule disjunctive_add_eq_or) (auto intro!: bit_word_eqI simp: bit_simps top b s f)
    have 4: "(((0x80000000 OR push_bit 16 (ucast bus)) OR push_bit 11 (ucast slot)) OR push_bit 8 (ucast func)) + (ucast off AND 0xFC)
        = (((0x80000000 OR push_bit 16 (ucast bus)) OR push_bit 11 (ucast slot)) OR push_bit 8 (ucast func)) OR (ucast off AND 0xFC :: u32)"
      by (rule disjunctive_add_eq_or) (auto intro!: bit_word_eqI simp: bit_simps top b s f o)
    show ?thesis unfolding make_address_def 1 2 3 4 by (simp only: or.assoc)
  qed
  also have "\<dots> = of_nat (2 ^ 31 + 2 ^ 16 * unat bus + 2 ^ 11 * unat slot + 2 ^ 8 * unat func + 4 * (unat off div 4))"
    unfolding offset_word by (simp add: push_bit_eq_mult)
  finally show ?thesis .
qed

text \<open>The reads of the driver are those of the bus, at the offsets that the search uses.\<close>

lemma cut_word: "ucast (drop_bit n (v :: u32) AND 0xFFFF) = (of_nat (unat v div 2 ^ n mod 2 ^ 16) :: u16)"
  "ucast (drop_bit n (v :: u32) AND 0xFF) = (of_nat (unat v div 2 ^ n mod 2 ^ 8) :: u8)"
proof -
  have m: "(0xFFFF :: u32) = mask 16" "(0xFF :: u32) = mask 8" by (simp_all add: mask_eq_exp_minus_1)
  show "ucast (drop_bit n (v :: u32) AND 0xFFFF) = (of_nat (unat v div 2 ^ n mod 2 ^ 16) :: u16)"
    unfolding m drop_bit_eq_div [symmetric] take_bit_eq_mod [symmetric]
    by (rule bit_word_eqI) (auto simp: bit_simps)
  show "ucast (drop_bit n (v :: u32) AND 0xFF) = (of_nat (unat v div 2 ^ n mod 2 ^ 8) :: u8)"
    unfolding m drop_bit_eq_div [symmetric] take_bit_eq_mod [symmetric]
    by (rule bit_word_eqI) (auto simp: bit_simps)
qed

lemmas cut_0 = cut_word [of 0, unfolded drop_bit_0 power_0 div_by_1]

text \<open>The multi-function bit is the top bit of the header type.\<close>

lemma multi_function: "header AND 0x80 \<noteq> 0 \<longleftrightarrow> 128 \<le> (header :: u8)"
proof -
  have m: "(0x80 :: u8) = push_bit 7 1" by (simp add: push_bit_eq_mult)
  have "header AND 0x80 \<noteq> 0 \<longleftrightarrow> bit header 7"
    unfolding m by (metis and_exp_eq_0_iff_not_bit push_bit_eq_mult mult_1)
  also have "\<dots> \<longleftrightarrow> odd (unat header div 2 ^ 7)"
    unfolding bit_iff_odd [symmetric] by (simp add: bit_unsigned_iff)
  also have "\<dots> \<longleftrightarrow> 128 \<le> unat header"
  proof -
    have "unat header < 256" using unsigned_less [of header, where ?'a = nat] by simp
    then have "unat header div 128 = 0 \<or> unat header div 128 = 1" by linarith
    then show ?thesis by auto
  qed
  finally show ?thesis by (simp add: word_le_nat_alt)
qed

lemma find_append: "find P (xs @ ys) = (case find P xs of None \<Rightarrow> find P ys | Some x \<Rightarrow> Some x)"
  by (induction xs) auto

lemma concat_twice: "concat (map f (concat (map g xs))) = concat (map (\<lambda>x. concat (map f (g x))) xs)"
  by (induction xs) simp_all

locale config_bus =
  fixes hw :: "'d hw" and ok :: "'d machine \<Rightarrow> bool" and cfg :: "u32 \<Rightarrow> u32"
  assumes bus_reads: "cfg_reads hw ok cfg"
begin

lemma read32_cfg:
  assumes "ok m" and "slot < 32" and "func < 8" and "off AND NOT 3 = off'" and "unat off div 4 = unat off' div 4"
  shows "\<exists>m'. read32 hw bus slot func off' m = (cfg32 cfg bus slot func off, m') \<and> ok m'"
  using bus_reads assms unfolding cfg_reads_def read32_def cfg32_def CONFIG_DATA_def CONFIG_ADDRESS_def
  by (simp add: address_fields)

lemma bus_fields:
  assumes "ok m" and "slot < 32" and "func < 8"
  shows "\<exists>m'. read16 hw bus slot func 0 m = (cfg16 cfg bus slot func 0, m') \<and> ok m'"
    and "\<exists>m'. read16 hw bus slot func 2 m = (cfg16 cfg bus slot func 2, m') \<and> ok m'"
    and "\<exists>m'. read8 hw bus slot func 0x0E m = (cfg8 cfg bus slot func 14, m') \<and> ok m'"
    and "\<exists>m'. read32 hw bus slot func 0x10 m = (cfg32 cfg bus slot func 0x10, m') \<and> ok m'"
proof -
  note r = read32_cfg [OF assms]
  show "\<exists>m'. read16 hw bus slot func 0 m = (cfg16 cfg bus slot func 0, m') \<and> ok m'"
    using r [of 0 0 bus] by (auto simp: read16_def cfg16_def cut_0 [simplified])
  show "\<exists>m'. read16 hw bus slot func 2 m = (cfg16 cfg bus slot func 2, m') \<and> ok m'"
    using r [of 2 0 bus] by (auto simp: read16_def cfg16_def cut_word)
  show "\<exists>m'. read8 hw bus slot func 0x0E m = (cfg8 cfg bus slot func 14, m') \<and> ok m'"
    using r [of "0x0E" "0x0C" bus] by (auto simp: read8_def cfg8_def cut_word)
  show "\<exists>m'. read32 hw bus slot func 0x10 m = (cfg32 cfg bus slot func 0x10, m') \<and> ok m'"
    using r [of "0x10" "0x10" bus] by simp
qed

lemma find_func_first:
  assumes "ok m" and "slot < 32" and "\<forall>f\<in>set fs. f < 8"
  shows "\<exists>m'. find_func hw vid did bus slot fs m =
    (map_option (described cfg) (find (is_function cfg vid did)
      (map (\<lambda>func. (bus, slot, func)) (filter (\<lambda>func. cfg16 cfg bus slot func 0 \<noteq> 0xFFFF) fs))), m') \<and> ok m'"
  using assms(1,3)
proof (induction fs arbitrary: m)
  case (Cons func fs)
  then have f: "func < 8" by simp
  obtain m1 where r1: "read16 hw bus slot func 0 m = (cfg16 cfg bus slot func 0, m1)" "ok m1"
    using bus_fields(1) [OF Cons.prems(1) assms(2) f] by blast
  obtain m2 where r2: "read16 hw bus slot func 2 m1 = (cfg16 cfg bus slot func 2, m2)" "ok m2"
    using bus_fields(2) [OF r1(2) assms(2) f] by blast
  obtain m3 where r3: "read32 hw bus slot func 0x10 m2 = (cfg32 cfg bus slot func 0x10, m3)" "ok m3"
    using bus_fields(4) [OF r2(2) assms(2) f] by blast
  show ?case
    using Cons.IH [OF r1(2)] Cons.IH [OF r2(2)] Cons.prems(2) r1(1) r2(1) r3
    by (simp add: is_function_def described_def)
qed simp

lemma find_slots_first:
  assumes "ok m" and "\<forall>q\<in>set ps. snd q < 32"
  shows "\<exists>m'. find_slots hw vid did ps m =
    (map_option (described cfg) (find (is_function cfg vid did) (concat (map (slot_functions cfg) ps))), m') \<and> ok m'"
  using assms
proof (induction ps arbitrary: m)
  case (Cons q ps)
  obtain bus slot where q: "q = (bus, slot)" by (cases q)
  then have slot: "slot < 32" using Cons.prems(2) by simp
  have z: "(0 :: u8) < 8" by simp
  obtain m1 where r1: "read16 hw bus slot 0 0 m = (cfg16 cfg bus slot 0 0, m1)" "ok m1"
    using bus_fields(1) [OF Cons.prems(1) slot z] by blast
  obtain m2 where r2: "read16 hw bus slot 0 2 m1 = (cfg16 cfg bus slot 0 2, m2)" "ok m2"
    using bus_fields(2) [OF r1(2) slot z] by blast
  obtain m3 where r3: "read32 hw bus slot 0 0x10 m2 = (cfg32 cfg bus slot 0 0x10, m3)" "ok m3"
    using bus_fields(4) [OF r2(2) slot z] by blast
  obtain m4 where r4: "read8 hw bus slot 0 0x0E m2 = (cfg8 cfg bus slot 0 14, m4)" "ok m4"
    using bus_fields(3) [OF r2(2) slot z] by blast
  have seven: "map of_nat [1..<8] = [1, 2, 3, 4, 5, 6, 7 :: u8]" by (simp add: upt_rec)
  have few: "\<forall>f\<in>set [1, 2, 3, 4, 5, 6, 7]. f < (8 :: u8)" by simp
  obtain m5 where r5: "find_func hw vid did bus slot (map of_nat [1..<8]) m4 =
    (map_option (described cfg) (find (is_function cfg vid did)
      (map (\<lambda>func. (bus, slot, func)) (filter (\<lambda>func. cfg16 cfg bus slot func 0 \<noteq> 0xFFFF) [1, 2, 3, 4, 5, 6, 7]))), m5)" "ok m5"
    using find_func_first [OF r4(2) slot few, of vid did bus] unfolding seven by blast
  have "\<forall>q\<in>set ps. snd q < 32" using Cons.prems(2) by simp
  note ih = Cons.IH [OF r1(2) this] Cons.IH [OF r4(2) this] Cons.IH [OF r5(2) this]
  let ?more = "map (\<lambda>func. (bus, slot, func)) (filter (\<lambda>func. cfg16 cfg bus slot func 0 \<noteq> 0xFFFF) [1, 2, 3, 4, 5, 6, 7])"
  define more where "more = ?more"
  have fns: "slot_functions cfg q = (if cfg16 cfg bus slot 0 0 = 0xFFFF then []
      else (bus, slot, 0) # (if cfg8 cfg bus slot 0 14 \<ge> 128 then more else []))"
    unfolding q slot_functions_def more_def by (simp only: prod.case)
  note r5 = r5 [folded more_def]
  have found: "\<exists>m'. r = (map_option (described cfg) (find (is_function cfg vid did)
      (slot_functions cfg q @ concat (map (slot_functions cfg) ps))), m') \<and> ok m'"
    if "r = find_slots hw vid did (q # ps) m" for r
  proof (cases "cfg16 cfg bus slot 0 0 = 0xFFFF")
    case True
    then show ?thesis using that ih(1) by (simp add: q r1(1) fns [unfolded q])
  next
    case here: False
    show ?thesis
    proof (cases "cfg16 cfg bus slot 0 0 = vid \<and> cfg16 cfg bus slot 0 2 = did")
      case True
      then show ?thesis using that here r3(2)
        by (simp add: q r1(1) r2(1) r3(1) fns [unfolded q] is_function_def described_def)
    next
      case other: False
      then have not_it: "\<not> is_function cfg vid did (bus, slot, 0)" by (auto simp: is_function_def)
      show ?thesis
      proof (cases "128 \<le> cfg8 cfg bus slot 0 14")
        case True
        have "r = (case find_func hw vid did bus slot (map of_nat [1..<8]) m4 of
            (Some dv, m) \<Rightarrow> (Some dv, m) | (None, m) \<Rightarrow> find_slots hw vid did ps m)"
          using that here other True
          by (simp only: q find_slots.simps r1(1) r2(1) r4(1) Let_def prod.case multi_function if_False if_True)
        then show ?thesis using here True not_it ih(3) r5
          by (cases "find (is_function cfg vid did) more") (simp_all add: fns find_append)
      next
        case False
        then show ?thesis using that here other not_it ih(2)
          by (simp add: q r1(1) r2(1) r4(1) multi_function fns [unfolded q])
      qed
    qed
  qed
  then show ?case by simp
qed simp

text \<open>The driver's list of slots is the whole bus.\<close>

lemma whole_bus: "concat (map (slot_functions cfg) all_slots) = pci_functions cfg"
  unfolding all_slots_def pci_functions_def concat_twice map_map o_def ..

lemma slots_32: "q \<in> set all_slots \<Longrightarrow> snd q < 32"
  by (auto simp: all_slots_def word_less_nat_alt unat_of_nat)

lemma pci_first:
  assumes "ok m"
  shows "\<exists>m'. pci_find hw vid did m =
    (map_option (described cfg) (find (is_function cfg vid did) (pci_functions cfg)), m') \<and> ok m'"
  using find_slots_first [OF assms, of all_slots vid did] slots_32 unfolding pci_find_def whole_bus by blast

end

text \<open>
  C18. The search looks at the whole bus and at nothing else: it returns the first function of that
  vendor and device in the order of buses 0 to 255, slots 0 to 31 and functions 0 to 7 (1 to 7 only
  behind a header with the multi-function bit), with its place, its numbers and its first base
  address, and \<open>None\<close> exactly when there is none. Buses, slots, functions and the addresses of
  their registers are those of the specification above, not the driver's.
\<close>

theorem pci_find_first:
  assumes "cfg_reads hw ok cfg" and "ok m"
  shows "\<exists>m'. pci_find hw vid did m =
    (map_option (described cfg) (find (is_function cfg vid did) (pci_functions cfg)), m') \<and> ok m'"
  by (rule config_bus.pci_first [OF config_bus.intro [OF assms(1)] assms(2)])

text \<open>A bus with one device, function 0 of slot 3 on bus 0.\<close>

definition one_device :: "u32 \<Rightarrow> u32" where
  "one_device a =
     (if a = 0x80001800 then 0x10011AF4
      else if a = 0x80001810 then 0xC001
      else if a = 0x8000180C then 0
      else 0xFFFFFFFF)"

definition table_hw :: "(u32 \<Rightarrow> u32) \<Rightarrow> u32 hw" where
  "table_hw cfg =
     \<lparr>port_in = (\<lambda>w port m. (if port = 0xCFC then cfg (dev m) else 0, m)),
      port_out = (\<lambda>w port v m. if port = 0xCF8 then m\<lparr>dev := v\<rparr> else m),
      mmio_in = (\<lambda>w a m. (0, m)), mmio_out = (\<lambda>w a v m. m), sync = (\<lambda>m. m)\<rparr>"

lemma table_reads: "cfg_reads (table_hw cfg) (\<lambda>m. True) cfg"
  by (simp add: cfg_reads_def table_hw_def inl_def outl_def)

interpretation table: config_bus "table_hw cfg" "\<lambda>m. True" cfg for cfg
  by unfold_locales (rule table_reads)

theorem pci_find_first_witness:
  "\<exists>m'. pci_find (table_hw one_device) 0x1AF4 0x1001 \<lparr>ram = \<lambda>_. 0, dev = 0\<rparr> =
     (map_option (described one_device) (find (is_function one_device 0x1AF4 0x1001) (pci_functions one_device)), m')"
  using pci_find_first [where cfg = one_device and hw = "table_hw one_device" and ok = "\<lambda>m. True"
      and m = "\<lparr>ram = \<lambda>_. 0, dev = 0\<rparr>" and vid = "0x1AF4" and did = "0x1001", OF table_reads]
  by auto

end
