(* ===== verification/Vsock.thy ===== *)
theory Vsock
  imports Virtq Pci
begin

text \<open>
  The VirtIO socket driver (\<^verbatim>\<open>vsock.rs\<close>): the modern PCI transport (capabilities, BARs, the common
  configuration structure), the receive and transmit rings of eight buffers, the packet header, and
  on top of them the secret client (port 1234) and the file client (port 1235).

  \<open>None\<close> is a panic of the kernel or, for \<open>drain_rx\<close> alone, a loop that does not end. The heap is
  not part of the sources: the addresses its allocations return are the parameter \<open>vs_alloc\<close>, with
  0 for a failed allocation. The lines on the serial port are left out.
\<close>

section \<open>Constants\<close>

definition VIRTIO_VENDOR :: u16 where "VIRTIO_VENDOR = 0x1AF4"
definition VIRTIO_VSOCK_DEVICE :: u16 where "VIRTIO_VSOCK_DEVICE = 0x1053"
definition CAP_COMMON :: u8 where "CAP_COMMON = 1"
definition CAP_NOTIFY :: u8 where "CAP_NOTIFY = 2"

definition OFF_DRV_FEAT_SEL :: u64 where "OFF_DRV_FEAT_SEL = 8"
definition OFF_DRV_FEAT :: u64 where "OFF_DRV_FEAT = 12"
definition OFF_MSIX_VEC :: u64 where "OFF_MSIX_VEC = 16"
definition OFF_DEV_STATUS :: u64 where "OFF_DEV_STATUS = 20"
definition OFF_Q_SELECT :: u64 where "OFF_Q_SELECT = 22"
definition OFF_Q_SIZE :: u64 where "OFF_Q_SIZE = 24"
definition OFF_Q_MSIX :: u64 where "OFF_Q_MSIX = 26"
definition OFF_Q_ENABLE :: u64 where "OFF_Q_ENABLE = 28"
definition OFF_Q_NOTIFY_OFF :: u64 where "OFF_Q_NOTIFY_OFF = 30"
definition OFF_Q_DESC :: u64 where "OFF_Q_DESC = 32"
definition OFF_Q_DRIVER :: u64 where "OFF_Q_DRIVER = 40"
definition OFF_Q_DEVICE :: u64 where "OFF_Q_DEVICE = 48"

definition STATUS_RESET :: u8 where "STATUS_RESET = 0"
definition STATUS_ACKNOWLEDGE :: u8 where "STATUS_ACKNOWLEDGE = 1"
definition STATUS_DRIVER :: u8 where "STATUS_DRIVER = 2"
definition STATUS_DRIVER_OK :: u8 where "STATUS_DRIVER_OK = 4"
definition STATUS_FEATURES_OK :: u8 where "STATUS_FEATURES_OK = 8"
definition VIRTIO_F_VERSION_1 :: u32 where "VIRTIO_F_VERSION_1 = 1"

definition QUEUE_RX :: u16 where "QUEUE_RX = 0"
definition QUEUE_TX :: u16 where "QUEUE_TX = 1"
definition QUEUE_EVENT :: u16 where "QUEUE_EVENT = 2"

definition VS_PAGE_SIZE :: usize where "VS_PAGE_SIZE = 4096"
definition QUEUE_SIZE :: nat where "QUEUE_SIZE = 8"
definition VS_BUF_SIZE :: nat where "VS_BUF_SIZE = 4096"

definition VSOCK_TYPE_STREAM :: u16 where "VSOCK_TYPE_STREAM = 1"
definition VSOCK_OP_REQUEST :: u16 where "VSOCK_OP_REQUEST = 1"
definition VSOCK_OP_RESPONSE :: u16 where "VSOCK_OP_RESPONSE = 2"
definition VSOCK_OP_RST :: u16 where "VSOCK_OP_RST = 3"
definition VSOCK_OP_RW :: u16 where "VSOCK_OP_RW = 5"
definition VSOCK_OP_CREDIT_UPDATE :: u16 where "VSOCK_OP_CREDIT_UPDATE = 6"

definition GUEST_CID :: u64 where "GUEST_CID = 3"
definition HOST_CID :: u64 where "HOST_CID = 2"
definition HOST_PORT :: u32 where "HOST_PORT = 1234"
definition GUEST_PORT :: u32 where "GUEST_PORT = 40000"
definition BUF_ALLOC :: u32 where "BUF_ALLOC = 65536"
definition HDR_SIZE :: nat where "HDR_SIZE = 44"
definition HOST_FILE_PORT :: u32 where "HOST_FILE_PORT = 1235"
definition GUEST_FILE_PORT :: u32 where "GUEST_FILE_PORT = 40001"
definition FILE_OP_READ :: u8 where "FILE_OP_READ = 0x01"
definition FILE_OP_WRITE :: u8 where "FILE_OP_WRITE = 0x02"
definition FILE_OP_LIST :: u8 where "FILE_OP_LIST = 0x03"

text \<open>The bound of every receive loop, \<open>for _ in 0..50_000_000u32\<close>.\<close>

definition POLLS :: nat where "POLLS = 50000000"

lemmas vs_ops =
  VSOCK_OP_REQUEST_def VSOCK_OP_RESPONSE_def VSOCK_OP_RST_def VSOCK_OP_RW_def VSOCK_OP_CREDIT_UPDATE_def

section \<open>Register accesses\<close>

definition mm8r :: "'d hw \<Rightarrow> u64 \<Rightarrow> 'd machine \<Rightarrow> u8 \<times> 'd machine" where
  "mm8r hw a m = (let (v, m) = mmio_in hw 1 a m in (ucast v, m))"

definition mm16r :: "'d hw \<Rightarrow> u64 \<Rightarrow> 'd machine \<Rightarrow> u16 \<times> 'd machine" where
  "mm16r hw a m = (let (v, m) = mmio_in hw 2 a m in (ucast v, m))"

definition mm8w :: "'d hw \<Rightarrow> u64 \<Rightarrow> u8 \<Rightarrow> 'd machine \<Rightarrow> 'd machine" where
  "mm8w hw a v = mmio_out hw 1 a (ucast v)"

definition mm16w :: "'d hw \<Rightarrow> u64 \<Rightarrow> u16 \<Rightarrow> 'd machine \<Rightarrow> 'd machine" where
  "mm16w hw a v = mmio_out hw 2 a (ucast v)"

definition mm32w :: "'d hw \<Rightarrow> u64 \<Rightarrow> u32 \<Rightarrow> 'd machine \<Rightarrow> 'd machine" where
  "mm32w hw a v = mmio_out hw 4 a (ucast v)"

definition mm64w :: "'d hw \<Rightarrow> u64 \<Rightarrow> u64 \<Rightarrow> 'd machine \<Rightarrow> 'd machine" where
  "mm64w hw a v = mmio_out hw 8 a v"

section \<open>Rings\<close>

definition vs_avail_offset :: "usize \<Rightarrow> usize" where
  "vs_avail_offset qs = qs * 16"

definition vs_used_offset :: "usize \<Rightarrow> usize" where
  "vs_used_offset qs =
     (let avail_end = vs_avail_offset qs + 6 + 2 * qs
      in (avail_end + VS_PAGE_SIZE - 1) AND NOT (VS_PAGE_SIZE - 1))"

definition vs_queue_mem_size :: "usize \<Rightarrow> usize" where
  "vs_queue_mem_size qs =
     (let used_end = vs_used_offset qs + 6 + 8 * qs
      in (used_end + VS_PAGE_SIZE - 1) AND NOT (VS_PAGE_SIZE - 1))"

interpretation vs: virtq_layout vs_avail_offset vs_used_offset vs_queue_mem_size
  by (rule virtq_layoutI)
     (simp_all only: vs_avail_offset_def vs_used_offset_def vs_queue_mem_size_def VS_PAGE_SIZE_def Let_def)

definition vs_desc_write :: "nat \<Rightarrow> nat \<Rightarrow> u64 \<Rightarrow> u32 \<Rightarrow> u16 \<Rightarrow> 'd machine \<Rightarrow> 'd machine" where
  "vs_desc_write mem i addr len flags m =
     (let p = mem + i * 16 in wr16 (p + 14) 0 (wr16 (p + 12) flags (wr32 (p + 8) len (wr64 p addr m))))"

definition avail_idx :: "nat \<Rightarrow> nat \<Rightarrow> nat" where
  "avail_idx mem qs = mem + unat (vs_avail_offset (of_nat qs)) + 2"

definition avail_ring :: "nat \<Rightarrow> nat \<Rightarrow> nat \<Rightarrow> nat" where
  "avail_ring mem qs i = mem + unat (vs_avail_offset (of_nat qs)) + 4 + i * 2"

definition used_idx :: "nat \<Rightarrow> nat \<Rightarrow> nat" where
  "used_idx mem qs = mem + unat (vs_used_offset (of_nat qs)) + 2"

definition used_id :: "nat \<Rightarrow> nat \<Rightarrow> nat \<Rightarrow> nat" where
  "used_id mem qs i = mem + unat (vs_used_offset (of_nat qs)) + 4 + i * 8"

definition used_len :: "nat \<Rightarrow> nat \<Rightarrow> nat \<Rightarrow> nat" where
  "used_len mem qs i = mem + unat (vs_used_offset (of_nat qs)) + 4 + i * 8 + 4"

section \<open>The packet header\<close>

text \<open>The ten unaligned stores of \<open>write_hdr\<close>, on the 44 bytes they are given.\<close>

definition write_hdr :: "u64 \<Rightarrow> u64 \<Rightarrow> u32 \<Rightarrow> u32 \<Rightarrow> u32 \<Rightarrow> u16 \<Rightarrow> u32 \<Rightarrow> u32 \<Rightarrow> bytes \<Rightarrow> bytes" where
  "write_hdr src_cid dst_cid src_port dst_port data_len op buf_alloc fwd buf =
     (let buf = splice_at 0 (to_le64 src_cid) buf;
          buf = splice_at 8 (to_le64 dst_cid) buf;
          buf = splice_at 16 (to_le32 src_port) buf;
          buf = splice_at 20 (to_le32 dst_port) buf;
          buf = splice_at 24 (to_le32 data_len) buf;
          buf = splice_at 28 (to_le16 VSOCK_TYPE_STREAM) buf;
          buf = splice_at 30 (to_le16 op) buf;
          buf = splice_at 32 (to_le32 0) buf;
          buf = splice_at 36 (to_le32 buf_alloc) buf
      in splice_at 40 (to_le32 fwd) buf)"

definition read_op :: "nat \<Rightarrow> 'd machine \<Rightarrow> u16" where
  "read_op buf m = rd16 (buf + 30) m"

section \<open>PCI capabilities\<close>

record cap_info =
  ci_bar :: "8 word"
  ci_offset :: "32 word"
  cap_cfg_offset :: "8 word"

text \<open>\<open>while ptr != 0 && guard < 32\<close>; the offsets \<open>ptr + n\<close> are bytes and can overflow.\<close>

fun find_cap_loop :: "profile \<Rightarrow> 'd hw \<Rightarrow> pci_device \<Rightarrow> u8 \<Rightarrow> nat \<Rightarrow> u8 \<Rightarrow> 'd machine \<Rightarrow>
    (cap_info option \<times> 'd machine) option" where
  "find_cap_loop p hw pd cfg_type 0 ptr m = Some (None, m)"
| "find_cap_loop p hw pd cfg_type (Suc guard) ptr m =
     (if ptr = 0 then Some (None, m)
      else do {
        let rd8 = read8 hw (pd_bus pd) (pd_slot pd) (pd_func pd);
        let (cap_id, m) = rd8 ptr m;
        o2 \<leftarrow> add_ovf p ptr 2;
        let (cap_len, m) = rd8 o2 m;
        o1 \<leftarrow> add_ovf p ptr 1;
        let (next_cap, m) = rd8 o1 m;
        if cap_id = 0x09 \<and> 16 \<le> cap_len then do {
          o3 \<leftarrow> add_ovf p ptr 3;
          let (ct, m) = rd8 o3 m;
          if ct = cfg_type then do {
            o4 \<leftarrow> add_ovf p ptr 4;
            let (bar, m) = rd8 o4 m;
            o8 \<leftarrow> add_ovf p ptr 8;
            let (off, m) = read32 hw (pd_bus pd) (pd_slot pd) (pd_func pd) o8 m;
            Some (Some \<lparr>ci_bar = bar, ci_offset = off, cap_cfg_offset = ptr\<rparr>, m)
          }
          else find_cap_loop p hw pd cfg_type guard next_cap m
        }
        else find_cap_loop p hw pd cfg_type guard next_cap m
      })"

definition find_cap :: "profile \<Rightarrow> 'd hw \<Rightarrow> pci_device \<Rightarrow> u8 \<Rightarrow> 'd machine \<Rightarrow>
    (cap_info option \<times> 'd machine) option" where
  "find_cap p hw pd cfg_type m =
     (let (status, m) = read16 hw (pd_bus pd) (pd_slot pd) (pd_func pd) 0x06 m in
      if status AND 0x10 = 0 then Some (None, m)
      else
        let (ptr, m) = read8 hw (pd_bus pd) (pd_slot pd) (pd_func pd) 0x34 m
        in find_cap_loop p hw pd cfg_type 32 ptr m)"

definition bar_addr :: "profile \<Rightarrow> 'd hw \<Rightarrow> pci_device \<Rightarrow> u8 \<Rightarrow> 'd machine \<Rightarrow> (u64 \<times> 'd machine) option" where
  "bar_addr p hw pd bar_idx m = do {
     quad \<leftarrow> mul_ovf p bar_idx 4;
     off \<leftarrow> add_ovf p 0x10 quad;
     let (val, m) = read32 hw (pd_bus pd) (pd_slot pd) (pd_func pd) off m;
     if val AND 1 = 1 then Some (0, m)
     else do {
       let addr32 = val AND NOT 0xF;
       if drop_bit 1 val AND 0x3 = 2 then do {
         off4 \<leftarrow> add_ovf p off 4;
         let (high, m) = read32 hw (pd_bus pd) (pd_slot pd) (pd_func pd) off4 m;
         Some (push_bit 32 (ucast high) OR ucast addr32, m)
       }
       else Some (ucast addr32, m)
     }
   }"

section \<open>The device\<close>

record vsock =
  common_base :: "64 word"
  notify_base :: "64 word"
  notify_mult :: "32 word"
  rx_mem :: nat
  rx_bufs :: nat
  rx_last_used :: "16 word"
  rx_next_avail :: "16 word"
  rx_notify_off :: "16 word"
  tx_mem :: nat
  tx_bufs :: nat
  tx_next_avail :: "16 word"
  tx_notify_off :: "16 word"
  fwd_cnt :: "32 word"

record vs_alloc =
  a_rx_mem :: nat
  a_rx_bufs :: nat
  a_tx_mem :: nat
  a_tx_bufs :: nat
  a_ev_mem :: nat

text \<open>The eight receive descriptors and their entries in the available ring.\<close>

definition post_buffer :: "nat \<Rightarrow> nat \<Rightarrow> nat \<Rightarrow> 'd machine \<Rightarrow> 'd machine" where
  "post_buffer mem bufs i m =
     wr16 (avail_ring mem QUEUE_SIZE i) (of_nat i)
       (vs_desc_write mem i (of_nat (bufs + i * VS_BUF_SIZE)) (of_nat VS_BUF_SIZE) 0x2 m)"

definition post_buffers :: "nat \<Rightarrow> nat \<Rightarrow> 'd machine \<Rightarrow> 'd machine" where
  "post_buffers mem bufs m =
     wr16 (avail_idx mem QUEUE_SIZE) (of_nat QUEUE_SIZE) (fold (post_buffer mem bufs) [0..<QUEUE_SIZE] m)"

text \<open>Register writes at \<open>common_base + OFF\<close>, an addition that can overflow.\<close>

definition reg8w :: "profile \<Rightarrow> 'd hw \<Rightarrow> u64 \<Rightarrow> u64 \<Rightarrow> u8 \<Rightarrow> 'd machine \<Rightarrow> 'd machine option" where
  "reg8w p hw cb off v m = do { a \<leftarrow> add_ovf p cb off; Some (mm8w hw a v m) }"

definition reg16w :: "profile \<Rightarrow> 'd hw \<Rightarrow> u64 \<Rightarrow> u64 \<Rightarrow> u16 \<Rightarrow> 'd machine \<Rightarrow> 'd machine option" where
  "reg16w p hw cb off v m = do { a \<leftarrow> add_ovf p cb off; Some (mm16w hw a v m) }"

definition reg32w :: "profile \<Rightarrow> 'd hw \<Rightarrow> u64 \<Rightarrow> u64 \<Rightarrow> u32 \<Rightarrow> 'd machine \<Rightarrow> 'd machine option" where
  "reg32w p hw cb off v m = do { a \<leftarrow> add_ovf p cb off; Some (mm32w hw a v m) }"

definition reg64w :: "profile \<Rightarrow> 'd hw \<Rightarrow> u64 \<Rightarrow> u64 \<Rightarrow> u64 \<Rightarrow> 'd machine \<Rightarrow> 'd machine option" where
  "reg64w p hw cb off v m = do { a \<leftarrow> add_ovf p cb off; Some (mm64w hw a v m) }"

definition reg8r :: "profile \<Rightarrow> 'd hw \<Rightarrow> u64 \<Rightarrow> u64 \<Rightarrow> 'd machine \<Rightarrow> (u8 \<times> 'd machine) option" where
  "reg8r p hw cb off m = do { a \<leftarrow> add_ovf p cb off; Some (mm8r hw a m) }"

definition reg16r :: "profile \<Rightarrow> 'd hw \<Rightarrow> u64 \<Rightarrow> u64 \<Rightarrow> 'd machine \<Rightarrow> (u16 \<times> 'd machine) option" where
  "reg16r p hw cb off m = do { a \<leftarrow> add_ovf p cb off; Some (mm16r hw a m) }"

text \<open>
  Steps 1 to 4 of \<open>init\<close>: reset, acknowledge, the one feature, and whether the device accepted it.
\<close>

definition negotiate :: "profile \<Rightarrow> 'd hw \<Rightarrow> u64 \<Rightarrow> 'd machine \<Rightarrow> (bool \<times> 'd machine) option" where
  "negotiate p hw cb m = do {
     m \<leftarrow> reg8w p hw cb OFF_DEV_STATUS STATUS_RESET m;
     m \<leftarrow> reg8w p hw cb OFF_DEV_STATUS STATUS_ACKNOWLEDGE m;
     m \<leftarrow> reg8w p hw cb OFF_DEV_STATUS (STATUS_ACKNOWLEDGE OR STATUS_DRIVER) m;
     m \<leftarrow> reg32w p hw cb OFF_DRV_FEAT_SEL 0 m;
     m \<leftarrow> reg32w p hw cb OFF_DRV_FEAT 0 m;
     m \<leftarrow> reg32w p hw cb OFF_DRV_FEAT_SEL 1 m;
     m \<leftarrow> reg32w p hw cb OFF_DRV_FEAT VIRTIO_F_VERSION_1 m;
     m \<leftarrow> reg8w p hw cb OFF_DEV_STATUS (STATUS_ACKNOWLEDGE OR STATUS_DRIVER OR STATUS_FEATURES_OK) m;
     (st, m) \<leftarrow> reg8r p hw cb OFF_DEV_STATUS m;
     Some (st AND STATUS_FEATURES_OK \<noteq> 0, m)
   }"

text \<open>Queue selection, and the addresses of the three areas with the enable bit.\<close>

definition select_queue :: "profile \<Rightarrow> 'd hw \<Rightarrow> u64 \<Rightarrow> u16 \<Rightarrow> nat \<Rightarrow> 'd machine \<Rightarrow> 'd machine option" where
  "select_queue p hw cb q n m = do {
     m \<leftarrow> reg16w p hw cb OFF_Q_SELECT q m;
     m \<leftarrow> reg16w p hw cb OFF_Q_SIZE (of_nat n) m;
     reg16w p hw cb OFF_Q_MSIX 0xFFFF m
   }"

definition enable_queue :: "profile \<Rightarrow> 'd hw \<Rightarrow> u64 \<Rightarrow> nat \<Rightarrow> nat \<Rightarrow> 'd machine \<Rightarrow> 'd machine option" where
  "enable_queue p hw cb mem n m = do {
     m \<leftarrow> reg64w p hw cb OFF_Q_DESC (of_nat mem) m;
     m \<leftarrow> reg64w p hw cb OFF_Q_DRIVER (of_nat (mem + unat (vs_avail_offset (of_nat n)))) m;
     m \<leftarrow> reg64w p hw cb OFF_Q_DEVICE (of_nat (mem + unat (vs_used_offset (of_nat n)))) m;
     reg16w p hw cb OFF_Q_ENABLE 1 m
   }"

definition q_bytes :: nat where "q_bytes = unat (vs_queue_mem_size (of_nat QUEUE_SIZE))"

definition notify_addr :: "profile \<Rightarrow> u64 \<Rightarrow> u16 \<Rightarrow> u32 \<Rightarrow> u64 option" where
  "notify_addr p nb off mult = add_ovf p nb (ucast off * ucast mult)"

text \<open>Steps 1 to 8 of \<open>init\<close>, once the two structures have been found.\<close>

definition bring_up :: "profile \<Rightarrow> 'd hw \<Rightarrow> vs_alloc \<Rightarrow> u64 \<Rightarrow> u64 \<Rightarrow> u32 \<Rightarrow> 'd machine \<Rightarrow>
    (vsock option \<times> 'd machine) option" where
  "bring_up p hw al cb nb mult m = do {
     (ok, m) \<leftarrow> negotiate p hw cb m;
     if \<not> ok then Some (None, m)
     else do {
       m \<leftarrow> reg16w p hw cb OFF_MSIX_VEC 0xFFFF m;
       m \<leftarrow> select_queue p hw cb QUEUE_RX QUEUE_SIZE m;
       (rx_off, m) \<leftarrow> reg16r p hw cb OFF_Q_NOTIFY_OFF m;
       let m = alloc_zeroed (a_rx_mem al) q_bytes m;
       let m = alloc_zeroed (a_rx_bufs al) (QUEUE_SIZE * VS_BUF_SIZE) m;
       if a_rx_mem al = 0 \<or> a_rx_bufs al = 0 then None
       else do {
         let m = post_buffers (a_rx_mem al) (a_rx_bufs al) m;
         m \<leftarrow> enable_queue p hw cb (a_rx_mem al) QUEUE_SIZE m;
         m \<leftarrow> select_queue p hw cb QUEUE_TX QUEUE_SIZE m;
         (tx_off, m) \<leftarrow> reg16r p hw cb OFF_Q_NOTIFY_OFF m;
         let m = alloc_zeroed (a_tx_mem al) q_bytes m;
         let m = alloc_zeroed (a_tx_bufs al) (QUEUE_SIZE * VS_BUF_SIZE) m;
         if a_tx_mem al = 0 \<or> a_tx_bufs al = 0 then None
         else do {
           m \<leftarrow> enable_queue p hw cb (a_tx_mem al) QUEUE_SIZE m;
           m \<leftarrow> select_queue p hw cb QUEUE_EVENT 2 m;
           let m = alloc_zeroed (a_ev_mem al) (unat VS_PAGE_SIZE) m;
           if a_ev_mem al = 0 then None
           else do {
             m \<leftarrow> enable_queue p hw cb (a_ev_mem al) 2 m;
             m \<leftarrow> reg8w p hw cb OFF_DEV_STATUS
               (STATUS_ACKNOWLEDGE OR STATUS_DRIVER OR STATUS_FEATURES_OK OR STATUS_DRIVER_OK) m;
             rx_addr \<leftarrow> notify_addr p nb rx_off mult;
             let m = mm16w hw rx_addr QUEUE_RX m;
             Some (Some \<lparr>common_base = cb, notify_base = nb, notify_mult = mult,
               rx_mem = a_rx_mem al, rx_bufs = a_rx_bufs al, rx_last_used = 0,
               rx_next_avail = of_nat QUEUE_SIZE, rx_notify_off = rx_off,
               tx_mem = a_tx_mem al, tx_bufs = a_tx_bufs al, tx_next_avail = 0, tx_notify_off = tx_off,
               fwd_cnt = 0\<rparr>, m)
           }
         }
       }
     }
   }"

definition vs_init :: "profile \<Rightarrow> 'd hw \<Rightarrow> vs_alloc \<Rightarrow> 'd machine \<Rightarrow> (vsock option \<times> 'd machine) option" where
  "vs_init p hw al m =
     (case pci_find hw VIRTIO_VENDOR VIRTIO_VSOCK_DEVICE m of
        (None, m) \<Rightarrow> Some (None, m)
      | (Some pd, m) \<Rightarrow> do {
          (c, m) \<leftarrow> find_cap p hw pd CAP_COMMON m;
          (case c of
             None \<Rightarrow> Some (None, m)
           | Some common_cap \<Rightarrow> do {
               (n, m) \<leftarrow> find_cap p hw pd CAP_NOTIFY m;
               (case n of
                  None \<Rightarrow> Some (None, m)
                | Some notify_cap \<Rightarrow> do {
                    (cbar, m) \<leftarrow> bar_addr p hw pd (ci_bar common_cap) m;
                    (nbar, m) \<leftarrow> bar_addr p hw pd (ci_bar notify_cap) m;
                    if cbar = 0 \<or> nbar = 0 then Some (None, m)
                    else do {
                      cb \<leftarrow> add_ovf p cbar (ucast (ci_offset common_cap));
                      nb \<leftarrow> add_ovf p nbar (ucast (ci_offset notify_cap));
                      o16 \<leftarrow> add_ovf p (cap_cfg_offset notify_cap) 16;
                      let (mult, m) = read32 hw (pd_bus pd) (pd_slot pd) (pd_func pd) o16 m;
                      bring_up p hw al cb nb mult m
                    }
                  })
             })
        })"

section \<open>One packet\<close>

definition send_raw :: "profile \<Rightarrow> 'd hw \<Rightarrow> bytes \<Rightarrow> bytes \<Rightarrow> vsock \<times> 'd machine \<Rightarrow>
    (vsock \<times> 'd machine) option" where
  "send_raw p hw hdr data = (\<lambda>(d, m).
     let len = HDR_SIZE + length data in
     if len \<le> VS_BUF_SIZE then do {
       let slot = unat (tx_next_avail d) mod QUEUE_SIZE;
       let buf = tx_bufs d + slot * VS_BUF_SIZE;
       let m = wr_bytes buf hdr m;
       let m = (if data \<noteq> [] then wr_bytes (buf + HDR_SIZE) data m else m);
       let m = vs_desc_write (tx_mem d) slot (of_nat buf) (of_nat len) 0 m;
       let m = wr16 (avail_ring (tx_mem d) QUEUE_SIZE slot) (of_nat slot) m;
       let d = d\<lparr>tx_next_avail := tx_next_avail d + 1\<rparr>;
       let m = wr16 (avail_idx (tx_mem d) QUEUE_SIZE) (tx_next_avail d) m;
       addr \<leftarrow> notify_addr p (notify_base d) (tx_notify_off d) (notify_mult d);
       Some (d, mm16w hw addr QUEUE_TX m)
     }
     else None)"

text \<open>
  The descriptor number and the length come from the device and are used as they are. The
  descriptor is given back by a new entry in the available ring.
\<close>

definition try_recv :: "profile \<Rightarrow> 'd hw \<Rightarrow> vsock \<times> 'd machine \<Rightarrow>
    ((u16 \<times> bytes) option \<times> vsock \<times> 'd machine) option" where
  "try_recv p hw = (\<lambda>(d, m). do {
     let m = sync hw m;
     if rd16 (used_idx (rx_mem d) QUEUE_SIZE) m = rx_last_used d then Some (None, d, m)
     else do {
       let ring_i = unat (rx_last_used d) mod QUEUE_SIZE;
       let desc_id = unat (rd32 (used_id (rx_mem d) QUEUE_SIZE ring_i) m);
       let pkt_len = unat (rd32 (used_len (rx_mem d) QUEUE_SIZE ring_i) m);
       let d = d\<lparr>rx_last_used := rx_last_used d + 1\<rparr>;
       let buf = rx_bufs d + desc_id * VS_BUF_SIZE;
       let op = read_op buf m;
       let data_len = (if HDR_SIZE < pkt_len then pkt_len - HDR_SIZE else 0);
       (data, d) \<leftarrow>
         (if 0 < data_len then do {
            fwd \<leftarrow> add_ovf p (fwd_cnt d) (of_nat data_len);
            Some (mem_read (ram m) (buf + HDR_SIZE) data_len, d\<lparr>fwd_cnt := fwd\<rparr>)
          }
          else Some ([], d));
       let avail_slot = unat (rx_next_avail d) mod QUEUE_SIZE;
       let m = wr16 (avail_ring (rx_mem d) QUEUE_SIZE avail_slot) (of_nat desc_id) m;
       let d = d\<lparr>rx_next_avail := rx_next_avail d + 1\<rparr>;
       let m = wr16 (avail_idx (rx_mem d) QUEUE_SIZE) (rx_next_avail d) m;
       rx_addr \<leftarrow> notify_addr p (notify_base d) (rx_notify_off d) (notify_mult d);
       Some (Some (op, data), d, mm16w hw rx_addr QUEUE_RX m)
     }
   })"

section \<open>Packets with a header\<close>

definition make_hdr :: "vsock \<Rightarrow> u32 \<Rightarrow> u16 \<Rightarrow> bytes" where
  "make_hdr d data_len op =
     write_hdr GUEST_CID HOST_CID GUEST_PORT HOST_PORT data_len op BUF_ALLOC (fwd_cnt d) (replicate HDR_SIZE 0)"

definition make_hdr_port :: "vsock \<Rightarrow> u32 \<Rightarrow> u16 \<Rightarrow> u32 \<Rightarrow> u32 \<Rightarrow> bytes" where
  "make_hdr_port d data_len op src_port dst_port =
     write_hdr GUEST_CID HOST_CID src_port dst_port data_len op BUF_ALLOC (fwd_cnt d) (replicate HDR_SIZE 0)"

definition send_hdr :: "profile \<Rightarrow> 'd hw \<Rightarrow> u16 \<Rightarrow> vsock \<times> 'd machine \<Rightarrow> (vsock \<times> 'd machine) option" where
  "send_hdr p hw op s = send_raw p hw (make_hdr (fst s) 0 op) [] s"

definition send_hdr_port :: "profile \<Rightarrow> 'd hw \<Rightarrow> u32 \<Rightarrow> u32 \<Rightarrow> u16 \<Rightarrow> vsock \<times> 'd machine \<Rightarrow>
    (vsock \<times> 'd machine) option" where
  "send_hdr_port p hw src_port dst_port op s =
     send_raw p hw (make_hdr_port (fst s) 0 op src_port dst_port) [] s"

section \<open>The secret client\<close>

fun recv_op_loop :: "profile \<Rightarrow> 'd hw \<Rightarrow> u16 \<Rightarrow> nat \<Rightarrow> vsock \<times> 'd machine \<Rightarrow>
    (bytes option \<times> vsock \<times> 'd machine) option" where
  "recv_op_loop p hw want 0 s = Some (None, s)"
| "recv_op_loop p hw want (Suc n) s = do {
     (r, s) \<leftarrow> try_recv p hw s;
     case r of
       None \<Rightarrow> recv_op_loop p hw want n s
     | Some (op, data) \<Rightarrow>
         if op = VSOCK_OP_CREDIT_UPDATE then do {
           s \<leftarrow> send_hdr p hw VSOCK_OP_CREDIT_UPDATE s;
           recv_op_loop p hw want n s
         }
         else if op = VSOCK_OP_RST then Some (None, s)
         else if op = want then Some (Some data, s)
         else recv_op_loop p hw want n s
   }"

definition recv_op :: "profile \<Rightarrow> 'd hw \<Rightarrow> u16 \<Rightarrow> vsock \<times> 'd machine \<Rightarrow>
    (bytes option \<times> vsock \<times> 'd machine) option" where
  "recv_op p hw want = recv_op_loop p hw want POLLS"

definition vs_connect :: "profile \<Rightarrow> 'd hw \<Rightarrow> vsock \<times> 'd machine \<Rightarrow> (bool \<times> vsock \<times> 'd machine) option" where
  "vs_connect p hw s = do {
     s \<leftarrow> send_hdr p hw VSOCK_OP_REQUEST s;
     (r, s) \<leftarrow> recv_op p hw VSOCK_OP_RESPONSE s;
     if r \<noteq> None then do {
       s \<leftarrow> send_hdr p hw VSOCK_OP_CREDIT_UPDATE s;
       Some (True, s)
     }
     else Some (False, s)
   }"

definition send_data :: "profile \<Rightarrow> 'd hw \<Rightarrow> bytes \<Rightarrow> vsock \<times> 'd machine \<Rightarrow> (vsock \<times> 'd machine) option" where
  "send_data p hw data s = send_raw p hw (make_hdr (fst s) (of_nat (length data)) VSOCK_OP_RW) data s"

definition recv_data :: "profile \<Rightarrow> 'd hw \<Rightarrow> vsock \<times> 'd machine \<Rightarrow>
    (bytes option \<times> vsock \<times> 'd machine) option" where
  "recv_data p hw = recv_op p hw VSOCK_OP_RW"

definition vs_close :: "profile \<Rightarrow> 'd hw \<Rightarrow> vsock \<times> 'd machine \<Rightarrow> (vsock \<times> 'd machine) option" where
  "vs_close p hw = send_hdr p hw VSOCK_OP_RST"

text \<open>The global \<open>FILE_DEV\<close> is the optional device of the state.\<close>

definition fetch_secret :: "profile \<Rightarrow> 'd hw \<Rightarrow> vs_alloc \<Rightarrow> bytes \<Rightarrow> vsock option \<times> 'd machine \<Rightarrow>
    (bytes option \<times> vsock option \<times> 'd machine) option" where
  "fetch_secret p hw al key_name = (\<lambda>(file_dev, m). do {
     (d, m) \<leftarrow> vs_init p hw al m;
     (case d of
        None \<Rightarrow> Some (None, file_dev, m)
      | Some d \<Rightarrow> do {
          (ok, d, m) \<leftarrow> vs_connect p hw (d, m);
          if \<not> ok then Some (None, Some d, m)
          else do {
            s \<leftarrow> send_data p hw (key_name @ [10]) (d, m);
            (r, s) \<leftarrow> recv_data p hw s;
            (d, m) \<leftarrow> vs_close p hw s;
            Some (r, Some d, m)
          }
        })
   })"

section \<open>The file client\<close>

text \<open>\<open>while self.try_recv().is_some() {}\<close> has no bound: \<open>None\<close> here is a panic or no return.\<close>

partial_function (option) drain_rx :: "profile \<Rightarrow> 'd hw \<Rightarrow> vsock \<times> 'd machine \<Rightarrow> (vsock \<times> 'd machine) option" where
  "drain_rx p hw s = do {
     (r, s) \<leftarrow> try_recv p hw s;
     case r of None \<Rightarrow> Some s | Some pkt \<Rightarrow> drain_rx p hw s
   }"

fun connect_loop :: "profile \<Rightarrow> 'd hw \<Rightarrow> u32 \<Rightarrow> u32 \<Rightarrow> nat \<Rightarrow> vsock \<times> 'd machine \<Rightarrow>
    (bool \<times> vsock \<times> 'd machine) option" where
  "connect_loop p hw src_port dst_port 0 s = Some (False, s)"
| "connect_loop p hw src_port dst_port (Suc n) s = do {
     (r, s) \<leftarrow> try_recv p hw s;
     case r of
       None \<Rightarrow> connect_loop p hw src_port dst_port n s
     | Some (op, data) \<Rightarrow>
         if op = VSOCK_OP_RESPONSE then do {
           s \<leftarrow> send_hdr_port p hw src_port dst_port VSOCK_OP_CREDIT_UPDATE s;
           Some (True, s)
         }
         else if op = VSOCK_OP_RST then Some (False, s)
         else connect_loop p hw src_port dst_port n s
   }"

definition connect_port :: "profile \<Rightarrow> 'd hw \<Rightarrow> u32 \<Rightarrow> u32 \<Rightarrow> vsock \<times> 'd machine \<Rightarrow>
    (bool \<times> vsock \<times> 'd machine) option" where
  "connect_port p hw src_port dst_port s = do {
     (d, m) \<leftarrow> drain_rx p hw s;
     s \<leftarrow> send_hdr_port p hw src_port dst_port VSOCK_OP_REQUEST (d\<lparr>fwd_cnt := 0\<rparr>, m);
     connect_loop p hw src_port dst_port POLLS s
   }"

definition file_req :: "u8 \<Rightarrow> bytes \<Rightarrow> bytes \<Rightarrow> bytes" where
  "file_req op path data =
     [op] @ to_le16 (of_nat (length path)) @ to_le32 (of_nat (length data)) @ path @ data"

definition send_file_req :: "profile \<Rightarrow> 'd hw \<Rightarrow> u8 \<Rightarrow> bytes \<Rightarrow> bytes \<Rightarrow> vsock \<times> 'd machine \<Rightarrow>
    (vsock \<times> 'd machine) option" where
  "send_file_req p hw op path data s =
     (let payload = file_req op path data in
      send_raw p hw (make_hdr_port (fst s) (of_nat (length payload)) VSOCK_OP_RW GUEST_FILE_PORT HOST_FILE_PORT)
        payload s)"

text \<open>
  The loop variables of \<open>recv_file_resp\<close>: \<open>None\<close> before the response header, then the status, the
  announced length and what has arrived.
\<close>

type_synonym resp_state = "(8 word \<times> nat \<times> 8 word list) option"

text \<open>One data packet: \<open>Inl\<close> is the value the function returns, \<open>Inr\<close> the loop going on.\<close>

definition resp_rw :: "bytes \<Rightarrow> resp_state \<Rightarrow> (bool \<times> bytes) option + resp_state" where
  "resp_rw data st =
     (let go = (\<lambda>(status, expected_len, payload).
        if expected_len \<le> length payload then Inl (Some (status = 0x00, take expected_len payload))
        else Inr (Some (status, expected_len, payload)))
      in case st of
        None \<Rightarrow>
          if length data < 5 then Inl None
          else go (data ! 0, unat (from_le32 (bslice 1 4 data)), drop 5 data)
      | Some (status, expected_len, payload) \<Rightarrow> go (status, expected_len, payload @ data))"

fun resp_loop :: "profile \<Rightarrow> 'd hw \<Rightarrow> nat \<Rightarrow> resp_state \<Rightarrow> vsock \<times> 'd machine \<Rightarrow>
    ((bool \<times> bytes) option \<times> vsock \<times> 'd machine) option" where
  "resp_loop p hw 0 st s = Some (None, s)"
| "resp_loop p hw (Suc n) st s = do {
     (r, s) \<leftarrow> try_recv p hw s;
     case r of
       None \<Rightarrow> resp_loop p hw n st s
     | Some (op, data) \<Rightarrow>
         if op = VSOCK_OP_CREDIT_UPDATE then do {
           s \<leftarrow> send_hdr_port p hw GUEST_FILE_PORT HOST_FILE_PORT VSOCK_OP_CREDIT_UPDATE s;
           resp_loop p hw n st s
         }
         else if op = VSOCK_OP_RST then Some (None, s)
         else if op = VSOCK_OP_RW then
           (case resp_rw data st of
              Inl res \<Rightarrow> Some (res, s)
            | Inr st \<Rightarrow> resp_loop p hw n st s)
         else resp_loop p hw n st s
   }"

definition recv_file_resp :: "profile \<Rightarrow> 'd hw \<Rightarrow> vsock \<times> 'd machine \<Rightarrow>
    ((bool \<times> bytes) option \<times> vsock \<times> 'd machine) option" where
  "recv_file_resp p hw = resp_loop p hw POLLS None"

definition close_port :: "profile \<Rightarrow> 'd hw \<Rightarrow> u32 \<Rightarrow> u32 \<Rightarrow> vsock \<times> 'd machine \<Rightarrow> (vsock \<times> 'd machine) option" where
  "close_port p hw src_port dst_port = send_hdr_port p hw src_port dst_port VSOCK_OP_RST"

definition ensure_file_dev :: "profile \<Rightarrow> 'd hw \<Rightarrow> vs_alloc \<Rightarrow> vsock option \<times> 'd machine \<Rightarrow>
    (vsock option \<times> 'd machine) option" where
  "ensure_file_dev p hw al = (\<lambda>(file_dev, m).
     if file_dev = None then vs_init p hw al m else Some (file_dev, m))"

text \<open>What \<open>file_read\<close>, \<open>file_write\<close> and \<open>file_list\<close> do alike: the answer, or nothing.\<close>

definition file_op :: "profile \<Rightarrow> 'd hw \<Rightarrow> vs_alloc \<Rightarrow> u8 \<Rightarrow> bytes \<Rightarrow> bytes \<Rightarrow> vsock option \<times> 'd machine \<Rightarrow>
    ((bool \<times> bytes) option \<times> vsock option \<times> 'd machine) option" where
  "file_op p hw al op path data fs = do {
     (file_dev, m) \<leftarrow> ensure_file_dev p hw al fs;
     (case file_dev of
        None \<Rightarrow> Some (None, None, m)
      | Some d \<Rightarrow> do {
          (ok, s) \<leftarrow> connect_port p hw GUEST_FILE_PORT HOST_FILE_PORT (d, m);
          if \<not> ok then Some (None, Some (fst s), snd s)
          else do {
            s \<leftarrow> send_file_req p hw op path data s;
            (r, s) \<leftarrow> recv_file_resp p hw s;
            s \<leftarrow> close_port p hw GUEST_FILE_PORT HOST_FILE_PORT s;
            Some (r, Some (fst s), snd s)
          }
        })
   }"

definition ok_data :: "(bool \<times> bytes) option \<Rightarrow> bytes option" where
  "ok_data r = (case r of Some (True, data) \<Rightarrow> Some data | _ \<Rightarrow> None)"

definition file_read :: "profile \<Rightarrow> 'd hw \<Rightarrow> vs_alloc \<Rightarrow> bytes \<Rightarrow> vsock option \<times> 'd machine \<Rightarrow>
    (bytes option \<times> vsock option \<times> 'd machine) option" where
  "file_read p hw al path fs = do {
     (r, fs) \<leftarrow> file_op p hw al FILE_OP_READ path [] fs;
     Some (ok_data r, fs)
   }"

definition file_write :: "profile \<Rightarrow> 'd hw \<Rightarrow> vs_alloc \<Rightarrow> bytes \<Rightarrow> bytes \<Rightarrow> vsock option \<times> 'd machine \<Rightarrow>
    (bool \<times> vsock option \<times> 'd machine) option" where
  "file_write p hw al path data fs = do {
     (r, fs) \<leftarrow> file_op p hw al FILE_OP_WRITE path data fs;
     Some (case r of None \<Rightarrow> False | Some (ok, d) \<Rightarrow> ok, fs)
   }"

definition file_list :: "profile \<Rightarrow> 'd hw \<Rightarrow> vs_alloc \<Rightarrow> bytes \<Rightarrow> vsock option \<times> 'd machine \<Rightarrow>
    (bytes option \<times> vsock option \<times> 'd machine) option" where
  "file_list p hw al dir fs = do {
     (r, fs) \<leftarrow> file_op p hw al FILE_OP_LIST dir [] fs;
     Some (ok_data r, fs)
   }"

end
