(* ===== verification/VsockWire.thy ===== *)
theory VsockWire
  imports Vsock
begin

text \<open>
  What the packets of \<^verbatim>\<open>vsock.rs\<close> say: the fields of the header as the peer reads them, the request
  of the file protocol as its server parses it (\<^verbatim>\<open>alpine/vsock-file-server.py\<close>), and the response,
  which the client collects from packets of any size.
\<close>

section \<open>The header\<close>

record pkt_hdr =
  p_src_cid :: "64 word"
  p_dst_cid :: "64 word"
  p_src_port :: "32 word"
  p_dst_port :: "32 word"
  p_len :: "32 word"
  p_type :: "16 word"
  p_op :: "16 word"
  p_flags :: "32 word"
  p_buf_alloc :: "32 word"
  p_fwd_cnt :: "32 word"

text \<open>The layout of the VirtIO specification, all fields little endian.\<close>

definition parse_hdr :: "bytes \<Rightarrow> pkt_hdr" where
  "parse_hdr b =
     \<lparr>p_src_cid = from_le64 (bslice 0 8 b), p_dst_cid = from_le64 (bslice 8 8 b),
      p_src_port = from_le32 (bslice 16 4 b), p_dst_port = from_le32 (bslice 20 4 b),
      p_len = from_le32 (bslice 24 4 b), p_type = from_le16 (bslice 28 2 b), p_op = from_le16 (bslice 30 2 b),
      p_flags = from_le32 (bslice 32 4 b), p_buf_alloc = from_le32 (bslice 36 4 b),
      p_fwd_cnt = from_le32 (bslice 40 4 b)\<rparr>"

lemma length_write_hdr [simp]:
  "length buf = 44 \<Longrightarrow> length (write_hdr sc dc sp dp n op ba fw buf) = 44"
  by (simp add: write_hdr_def Let_def)

lemma parse_write_hdr:
  assumes "length buf = 44"
  shows "parse_hdr (write_hdr sc dc sp dp n op ba fw buf) =
    \<lparr>p_src_cid = sc, p_dst_cid = dc, p_src_port = sp, p_dst_port = dp, p_len = n, p_type = 1, p_op = op,
     p_flags = 0, p_buf_alloc = ba, p_fwd_cnt = fw\<rparr>"
  using assms by (simp add: parse_hdr_def write_hdr_def Let_def slice_simps VSOCK_TYPE_STREAM_def)

text \<open>
  The header of a packet is read back field by field by the layout of the specification, whatever
  was in the buffer before: a stream packet from the guest to the host, with the length, the operation
  and the credit the driver wrote.
\<close>

theorem packet_header_roundtrip:
  "length (make_hdr_port d n op sp dp) = HDR_SIZE \<and>
   parse_hdr (make_hdr_port d n op sp dp) =
     \<lparr>p_src_cid = 3, p_dst_cid = 2, p_src_port = sp, p_dst_port = dp, p_len = n, p_type = 1, p_op = op,
      p_flags = 0, p_buf_alloc = 65536, p_fwd_cnt = fwd_cnt d\<rparr>"
  by (simp add: make_hdr_port_def HDR_SIZE_def parse_write_hdr GUEST_CID_def HOST_CID_def BUF_ALLOC_def)

text \<open>The headers of the secret client are those of the file client at its own ports.\<close>

lemma make_hdr_ports: "make_hdr d n op = make_hdr_port d n op GUEST_PORT HOST_PORT"
  by (simp add: make_hdr_def make_hdr_port_def)

section \<open>The request\<close>

text \<open>\<open>struct.unpack("<BHI")\<close>, then the path and the data, from the stream; the rest is left.\<close>

definition parse_file_req :: "bytes \<Rightarrow> (u8 \<times> bytes \<times> bytes \<times> bytes) option" where
  "parse_file_req b =
     (let pl = unat (from_le16 (bslice 1 2 b)); dl = unat (from_le32 (bslice 3 4 b)) in
      if length b < 7 + pl + dl then None
      else Some (b ! 0, bslice 7 pl b, bslice (7 + pl) dl b, drop (7 + pl + dl) b))"

lemma length_file_req [simp]: "length (file_req op path data) = 7 + length path + length data"
  by (simp add: file_req_def)

lemma parse_file_req_append:
  assumes "length path < 2 ^ 16" and "length data < 2 ^ 32"
  shows "parse_file_req (file_req op path data @ rest) = Some (op, path, data, rest)"
proof -
  let ?r = "file_req op path data @ rest"
  have pl: "unat (from_le16 (bslice 1 2 ?r)) = length path" and dl: "unat (from_le32 (bslice 3 4 ?r)) = length data"
    using assms by (simp_all add: file_req_def slice_simps unat_of_nat)
  have "bslice 7 (length path) ?r = path" and "bslice (7 + length path) (length data) ?r = data"
    and "?r ! 0 = op" by (simp_all add: file_req_def slice_simps)
  moreover have "drop (7 + length path + length data) ?r = rest"
    by (simp only: length_file_req [symmetric, of path data op] append_eq_conv_conj [THEN iffD1, OF refl] drop_append) simp
  ultimately show ?thesis
    unfolding parse_file_req_def pl dl by (simp add: Let_def del: append_assoc)
qed

text \<open>
  The file server reads from the stream exactly the operation, the path and the data that the
  client sent, and leaves what follows, for every path and data whose lengths fit the length fields.
\<close>

theorem file_req_roundtrip:
  assumes "length path < 2 ^ 16" and "length data < 2 ^ 32"
  shows "parse_file_req (file_req op path data @ rest) = Some (op, path, data, rest)"
  by (rule parse_file_req_append [OF assms])

theorem file_req_roundtrip_witness:
  "parse_file_req (file_req FILE_OP_WRITE (str ''a.txt'') [1, 2, 3] @ [9]) = Some (2, str ''a.txt'', [1, 2, 3], [9])"
  using file_req_roundtrip [of "str ''a.txt''" "[1, 2, 3]" FILE_OP_WRITE "[9]"] by (simp add: FILE_OP_WRITE_def)

section \<open>The response\<close>

definition file_resp :: "u8 \<Rightarrow> bytes \<Rightarrow> bytes" where
  "file_resp status body = [status] @ to_le32 (of_nat (length body)) @ body"

text \<open>The data packets of one response, as the receive loop takes them.\<close>

fun resp_chunks :: "bytes list \<Rightarrow> resp_state \<Rightarrow> (bool \<times> bytes) option + resp_state" where
  "resp_chunks [] st = Inr st"
| "resp_chunks (c # cs) st = (case resp_rw c st of Inl r \<Rightarrow> Inl r | Inr st \<Rightarrow> resp_chunks cs st)"

lemma resp_chunks_body:
  "length pay < n \<Longrightarrow> n \<le> length (pay @ concat cs) \<Longrightarrow>
   resp_chunks cs (Some (st, n, pay)) = Inl (Some (st = 0, take n (pay @ concat cs)))"
proof (induction cs arbitrary: pay)
  case (Cons c cs)
  show ?case
  proof (cases "n \<le> length (pay @ c)")
    case True
    then have "take n (pay @ concat (c # cs)) = take n (pay @ c)" by simp
    with True show ?thesis by (simp add: resp_rw_def)
  next
    case False
    with Cons.IH [of "pay @ c"] Cons.prems(2) show ?thesis by (simp add: resp_rw_def)
  qed
qed simp

lemma resp_chunks_file_resp:
  assumes "concat (c # cs) = file_resp st body @ rest" and "5 \<le> length c" and "length body < 2 ^ 32"
  shows "resp_chunks (c # cs) None = Inl (Some (st = 0, body))"
proof -
  let ?hd = "[st] @ to_le32 (of_nat (length body))"
  have len: "length ?hd = 5" by simp
  have eq: "c @ concat cs = ?hd @ (body @ rest)" using assms(1) by (simp add: file_resp_def)
  have "take 5 (c @ concat cs) = ?hd" and dr: "drop 5 (c @ concat cs) = body @ rest"
    by (simp_all only: eq) (simp_all add: len)
  then have tk: "take 5 c = ?hd" and rest: "drop 5 c @ concat cs = body @ rest" using assms(2) by simp_all
  have c0: "c ! 0 = st" and c1: "bslice 1 4 c = to_le32 (of_nat (length body))"
  proof -
    have "c ! 0 = take 5 c ! 0" using assms(2) by simp
    then show "c ! 0 = st" by (simp add: tk)
    have "bslice 1 4 c = drop 1 (take 5 c)" by (simp add: bslice_def take_drop)
    then show "bslice 1 4 c = to_le32 (of_nat (length body))" by (simp add: tk)
  qed
  have n: "unat (from_le32 (bslice 1 4 c)) = length body"
    using assms(3) by (simp only: c1) (simp add: unat_of_nat)
  show ?thesis
  proof (cases "length body \<le> length (drop 5 c)")
    case True
    have "take (length body) (drop 5 c) = body" using arg_cong [OF rest, of "take (length body)"] True by simp
    with True n c0 assms(2) show ?thesis by (simp add: resp_rw_def)
  next
    case False
    have "length body \<le> length (drop 5 c @ concat cs)" by (simp only: rest) simp
    with False n c0 assms(2) resp_chunks_body [of "drop 5 c" "length body" cs st] rest
    show ?thesis by (simp add: resp_rw_def)
  qed
qed

text \<open>
  The protocol is a byte stream, but the client is not: when the first packet ends inside the
  five header bytes, the operation fails, whatever follows.
\<close>

theorem short_first_packet_fails:
  assumes "length c < 5"
  shows "resp_chunks (c # cs) None = Inl None"
  using assms by (simp add: resp_rw_def)

theorem short_first_packet_fails_witness:
  "resp_chunks [[0, 3], [0, 0, 0, 65, 66, 67]] None = Inl None"
  using short_first_packet_fails [of "[0, 3]"] by simp

end
