(* ===== verification/VsockLink.thy ===== *)
theory VsockLink
  imports VsockWire
begin

text \<open>
  The clients of \<^verbatim>\<open>vsock.rs\<close> over a packet link. The locale \<open>packet_link\<close> is what they rely on: every
  poll returns the next packet of the host or nothing, never the same packet twice, and the host's
  next packet is at most \<open>L\<close> empty polls away; a packet that is sent reaches the host, whose answer
  joins the packets to come. The locale \<open>file_host\<close> adds a host that answers the file protocol. The
  rings of the driver provide the link (theory \<open>VsockRing\<close>).
\<close>

type_synonym packet = "8 word list \<times> 8 word list"

definition hdr_op :: "bytes \<Rightarrow> u16" where "hdr_op h = p_op (parse_hdr h)"

definition pkt_op :: "packet \<Rightarrow> u16" where "pkt_op pk = hdr_op (fst pk)"

definition pkt_bytes :: "packet list \<Rightarrow> nat" where
  "pkt_bytes ps = sum_list (map (length \<circ> snd) ps)"

lemma pkt_bytes_simps [simp]:
  "pkt_bytes [] = 0" "pkt_bytes (pk # ps) = length (snd pk) + pkt_bytes ps"
  "pkt_bytes (ps @ qs) = pkt_bytes ps + pkt_bytes qs"
  by (simp_all add: pkt_bytes_def)

text \<open>Bytes counted since the counter was reset, and still to come: what must stay below \<open>2 ^ 32\<close>.\<close>

definition traffic :: "vsock \<Rightarrow> packet list \<Rightarrow> nat" where
  "traffic d ps = unat (fwd_cnt d) + pkt_bytes ps"

lemma hdr_op_make [simp]: "hdr_op (make_hdr_port d n op sp dp) = op"
  by (simp add: hdr_op_def make_hdr_port_def parse_write_hdr HDR_SIZE_def)

lemma length_make_hdr_port [simp]: "length (make_hdr_port d n op sp dp) = 44"
  by (simp add: make_hdr_port_def HDR_SIZE_def)

section \<open>The link\<close>

locale packet_link =
  fixes p :: profile and hw :: "'d hw"
    and inv :: "vsock \<times> 'd machine \<Rightarrow> bool"
    and inbox :: "vsock \<times> 'd machine \<Rightarrow> packet list"
    and peer :: "vsock \<times> 'd machine \<Rightarrow> 'h"
    and react :: "'h \<Rightarrow> packet \<Rightarrow> 'h \<times> packet list"
    and lag :: "vsock \<times> 'd machine \<Rightarrow> nat" and L :: nat
  assumes lag_le: "inv s \<Longrightarrow> lag s \<le> L"
    and small: "inv s \<Longrightarrow> pk \<in> set (inbox s) \<Longrightarrow> length (snd pk) \<le> 4052"
    and recv: "inv s \<Longrightarrow> traffic (fst s) (inbox s) < 2 ^ 32 \<Longrightarrow>
      \<exists>r s'. try_recv p hw s = Some (r, s') \<and> inv s' \<and> peer s' = peer s \<and>
        (case r of
           None \<Rightarrow> inbox s' = inbox s \<and> fwd_cnt (fst s') = fwd_cnt (fst s) \<and> (inbox s \<noteq> [] \<longrightarrow> lag s' < lag s)
         | Some (op, data) \<Rightarrow> \<exists>hdr. inbox s = (hdr, data) # inbox s' \<and> op = hdr_op hdr
             \<and> unat (fwd_cnt (fst s')) = unat (fwd_cnt (fst s)) + length data)"
    and send: "inv s \<Longrightarrow> length hdr = 44 \<Longrightarrow> length data \<le> 4052 \<Longrightarrow>
      \<exists>s'. send_raw p hw hdr data s = Some s' \<and> inv s' \<and> fwd_cnt (fst s') = fwd_cnt (fst s)
        \<and> peer s' = fst (react (peer s) (hdr, data)) \<and> inbox s' = inbox s @ snd (react (peer s) (hdr, data))"
    and recount: "inv (d, m) \<Longrightarrow> inv (d\<lparr>fwd_cnt := c\<rparr>, m) \<and> inbox (d\<lparr>fwd_cnt := c\<rparr>, m) = inbox (d, m)
      \<and> peer (d\<lparr>fwd_cnt := c\<rparr>, m) = peer (d, m)"
begin

text \<open>One poll, with the conservation of the traffic.\<close>

lemma poll_cases:
  assumes "inv s" and "traffic (fst s) (inbox s) < 2 ^ 32"
  obtains (empty) s' where "try_recv p hw s = Some (None, s')" "inv s'" "peer s' = peer s" "inbox s' = inbox s"
      "traffic (fst s') (inbox s') = traffic (fst s) (inbox s)" "inbox s \<noteq> [] \<Longrightarrow> lag s' < lag s"
  | (packet) hdr data s' where "try_recv p hw s = Some (Some (hdr_op hdr, data), s')" "inv s'" "peer s' = peer s"
      "inbox s = (hdr, data) # inbox s'" "traffic (fst s') (inbox s') = traffic (fst s) (inbox s)"
proof -
  obtain r s' where r: "try_recv p hw s = Some (r, s')" "inv s'" "peer s' = peer s"
    and c: "case r of
           None \<Rightarrow> inbox s' = inbox s \<and> fwd_cnt (fst s') = fwd_cnt (fst s) \<and> (inbox s \<noteq> [] \<longrightarrow> lag s' < lag s)
         | Some (op, data) \<Rightarrow> \<exists>hdr. inbox s = (hdr, data) # inbox s' \<and> op = hdr_op hdr
             \<and> unat (fwd_cnt (fst s')) = unat (fwd_cnt (fst s)) + length data"
    using recv [OF assms] by blast
  show thesis
  proof (cases r)
    case None
    with r c show thesis by (intro empty [of s']) (simp_all add: traffic_def)
  next
    case (Some od)
    obtain op data where od: "od = (op, data)" by (cases od)
    from c Some od obtain hdr where "inbox s = (hdr, data) # inbox s'" "op = hdr_op hdr"
      "unat (fwd_cnt (fst s')) = unat (fwd_cnt (fst s)) + length data" by auto
    with r Some od show thesis by (intro packet [of hdr data s']) (simp_all add: traffic_def)
  qed
qed

lemma pkt_bytes_le: "inv s \<Longrightarrow> pkt_bytes (inbox s) \<le> 4052 * length (inbox s)"
proof -
  have "(\<And>pk. pk \<in> set ps \<Longrightarrow> length (snd pk) \<le> 4052) \<Longrightarrow> pkt_bytes ps \<le> 4052 * length ps" for ps
  proof (induction ps)
    case (Cons pk ps)
    have "length (snd pk) \<le> 4052" "pkt_bytes ps \<le> 4052 * length ps"
      using Cons.IH Cons.prems by simp_all
    then show ?case by simp
  qed simp
  then show "inv s \<Longrightarrow> ?thesis" using small by blast
qed

text \<open>The drain ends: every round but the last takes a packet, and there are finitely many.\<close>

lemma drain_ends:
  assumes "inv s" and "traffic (fst s) (inbox s) < 2 ^ 32"
  shows "\<exists>s' ps. drain_rx p hw s = Some s' \<and> inv s' \<and> peer s' = peer s \<and> inbox s = ps @ inbox s'"
  using assms
proof (induction "inbox s" arbitrary: s rule: length_induct)
  case 1
  from "1.prems" show ?case
  proof (cases rule: poll_cases)
    case (empty s')
    then show ?thesis by (subst drain_rx.simps) auto
  next
    case (packet hdr data s')
    have "length (inbox s') < length (inbox s)" by (simp add: packet(4))
    from "1.hyps" [rule_format, OF this refl packet(2)] packet(5) "1.prems"(2)
    obtain s'' ps where "drain_rx p hw s' = Some s''" "inv s''" "peer s'' = peer s'" "inbox s' = ps @ inbox s''"
      by auto
    with packet show ?thesis
      by (subst drain_rx.simps) (auto intro: exI [of _ "(hdr, data) # ps"])
  qed
qed

text \<open>Empty polls, of which at most \<open>L\<close> precede a packet that is to come.\<close>

fun idle :: "nat \<Rightarrow> vsock \<times> 'd machine \<Rightarrow> (vsock \<times> 'd machine) option" where
  "idle 0 s = Some s"
| "idle (Suc k) s = (case try_recv p hw s of Some (None, s') \<Rightarrow> idle k s' | _ \<Rightarrow> None)"

lemma next_packet:
  assumes "inv s" and "traffic (fst s) (inbox s) < 2 ^ 32" and "inbox s = (hdr, data) # rest"
  shows "\<exists>k s1 s2. k \<le> L \<and> idle k s = Some s1 \<and> try_recv p hw s1 = Some (Some (hdr_op hdr, data), s2)
    \<and> inv s2 \<and> peer s2 = peer s \<and> inbox s2 = rest \<and> traffic (fst s2) rest = traffic (fst s) (inbox s)"
proof -
  have "\<exists>k s1 s2. k \<le> lag s \<and> idle k s = Some s1 \<and> try_recv p hw s1 = Some (Some (hdr_op hdr, data), s2)
    \<and> inv s2 \<and> peer s2 = peer s \<and> inbox s2 = rest \<and> traffic (fst s2) rest = traffic (fst s) (inbox s)"
    using assms
  proof (induction "lag s" arbitrary: s rule: less_induct)
    case less
    from less.prems(1,2) show ?case
    proof (cases rule: poll_cases)
      case (empty s')
      have lt: "lag s' < lag s" using empty(6) less.prems(3) by simp
      from less.hyps [OF lt empty(2)] empty(4,5) less.prems(2,3)
      obtain k s1 s2 where "k \<le> lag s'" "idle k s' = Some s1" "try_recv p hw s1 = Some (Some (hdr_op hdr, data), s2)"
        "inv s2" "peer s2 = peer s'" "inbox s2 = rest" "traffic (fst s2) rest = traffic (fst s) (inbox s)"
        by auto
      with lt empty show ?thesis by (intro exI [of _ "Suc k"] exI [of _ s1] exI [of _ s2]) simp
    next
      case (packet hdr' data' s')
      with less.prems(3) show ?thesis by (intro exI [of _ 0] exI [of _ s] exI [of _ s']) simp
    qed
  qed
  then obtain k s1 s2 where k: "k \<le> lag s" and r: "idle k s = Some s1"
    "try_recv p hw s1 = Some (Some (hdr_op hdr, data), s2)" "inv s2" "peer s2 = peer s" "inbox s2 = rest"
    "traffic (fst s2) rest = traffic (fst s) (inbox s)" by blast
  have "k \<le> L" using k lag_le [OF assms(1)] by simp
  with r show ?thesis by blast
qed

lemma loops_idle:
  assumes "idle k s = Some s'"
  shows "connect_loop p hw sp dp (k + n) s = connect_loop p hw sp dp n s'"
    and "resp_loop p hw (k + n) st s = resp_loop p hw n st s'"
    and "recv_op_loop p hw want (k + n) s = recv_op_loop p hw want n s'"
  using assms by (induction k s rule: idle.induct) (auto split: option.splits)

text \<open>
  Sending a header: what the host makes of it. The packet is what the driver wrote, so its operation
  and ports are known, and only the credit field varies.
\<close>

lemma send_header:
  assumes "inv s"
  shows "\<exists>s'. send_hdr_port p hw sp dp op s = Some s' \<and> inv s' \<and> fwd_cnt (fst s') = fwd_cnt (fst s)
    \<and> peer s' = fst (react (peer s) (make_hdr_port (fst s) 0 op sp dp, []))
    \<and> inbox s' = inbox s @ snd (react (peer s) (make_hdr_port (fst s) 0 op sp dp, []))"
  using send [OF assms, of "make_hdr_port (fst s) 0 op sp dp" "[]"] by (simp add: send_hdr_port_def)

text \<open>A reset that is still on its way when the drain has ended refuses the next connection.\<close>

lemma late_reset:
  assumes "inv s" and "try_recv p hw s = Some (None, s1)" and "inbox s = (hdr, data) # rest"
    and "hdr_op hdr = VSOCK_OP_RST" and "traffic (fst s) (inbox s) < 2 ^ 32"
    and "\<forall>h hdr. hdr_op hdr = VSOCK_OP_REQUEST \<longrightarrow> pkt_bytes (inbox s) + pkt_bytes (snd (react h (hdr, []))) < 2 ^ 32"
    and "L < POLLS"
  shows "\<exists>s'. connect_port p hw sp dp s = Some (False, s')"
proof -
  obtain d m where s1: "s1 = (d, m)" by (cases s1)
  have ds: "drain_rx p hw s = Some (d, m)" using assms(2) by (subst drain_rx.simps) (simp add: s1)
  have 1: "inv (d, m)" "inbox (d, m) = (hdr, data) # rest" "peer (d, m) = peer s"
    using poll_cases [OF assms(1,5)] assms(2,3) by (auto simp: s1)
  note r = recount [OF 1(1), of 0]
  obtain s2 where s2: "send_hdr_port p hw sp dp VSOCK_OP_REQUEST (d\<lparr>fwd_cnt := 0\<rparr>, m) = Some s2" "inv s2"
    "fwd_cnt (fst s2) = 0" "inbox s2 = (hdr, data) # (rest @ snd (react (peer s)
      (make_hdr_port (d\<lparr>fwd_cnt := 0\<rparr>) 0 VSOCK_OP_REQUEST sp dp, [])))"
    using send_header [OF conjunct1 [OF r], of sp dp VSOCK_OP_REQUEST] r 1 by auto
  have "traffic (fst s2) (inbox s2) < 2 ^ 32"
    using assms(3,6) by (auto simp: traffic_def s2(3,4) add.assoc)
  from next_packet [OF s2(2) this s2(4)] obtain k s3 s4 where k: "k \<le> L" "idle k s2 = Some s3"
    "try_recv p hw s3 = Some (Some (hdr_op hdr, data), s4)" by blast
  obtain n where n: "POLLS = k + Suc n" using k(1) assms(7) by (metis add_Suc_right le_less_trans less_imp_Suc_add)
  have "connect_loop p hw sp dp POLLS s2 = Some (False, s4)"
    unfolding n loops_idle(1) [OF k(2)] using k(3) assms(4) by (simp add: vs_ops)
  with ds s2(1) show ?thesis by (simp add: connect_port_def)
qed

lemma inbox_small: "inv s \<Longrightarrow> inbox s = ps @ qs \<Longrightarrow> pkt_bytes qs \<le> 4052 * length qs"
  using small [of s]
proof (induction qs arbitrary: ps)
  case (Cons q qs)
  have "pkt_bytes qs \<le> 4052 * length qs" using Cons.IH [of "ps @ [q]"] Cons.prems by simp
  moreover have "length (snd q) \<le> 4052" using Cons.prems by auto
  ultimately show ?case by simp
qed simp

end

section \<open>A host that serves files\<close>

text \<open>The packets the connection loop passes over, and those the response loop passes over.\<close>

definition stale :: "packet \<Rightarrow> bool" where
  "stale pk \<longleftrightarrow> pkt_op pk \<noteq> VSOCK_OP_RESPONSE \<and> pkt_op pk \<noteq> VSOCK_OP_RST"

definition quiet :: "packet \<Rightarrow> bool" where
  "quiet pk \<longleftrightarrow> stale pk \<and> pkt_op pk \<noteq> VSOCK_OP_RW"

definition rw_data :: "packet list \<Rightarrow> bytes list" where
  "rw_data ps = map snd (filter (\<lambda>pk. pkt_op pk = VSOCK_OP_RW) ps)"

text \<open>An accepted connection, and a response: its data packets carry exactly the bytes of the answer.\<close>

definition accepts :: "packet list \<Rightarrow> bool" where
  "accepts ps \<longleftrightarrow> (\<exists>pre pk post. ps = pre @ pk # post \<and> list_all stale pre \<and> pkt_op pk = VSOCK_OP_RESPONSE
     \<and> list_all quiet post)"

definition carries :: "u8 \<Rightarrow> bytes \<Rightarrow> packet list \<Rightarrow> bool" where
  "carries status body ps \<longleftrightarrow> list_all stale ps \<and> length body < 2 ^ 32 \<and>
     (\<exists>c cs rest. rw_data ps = c # cs \<and> 5 \<le> length c \<and> concat (c # cs) = file_resp status body @ rest)"

text \<open>Between two operations: only stale packets, few of them, and the credit far from its bound.\<close>

definition between :: "(vsock \<times> 'd machine \<Rightarrow> bool) \<Rightarrow> (vsock \<times> 'd machine \<Rightarrow> packet list) \<Rightarrow> nat \<Rightarrow>
    vsock \<times> 'd machine \<Rightarrow> bool" where
  "between ok pending burst s \<longleftrightarrow> ok s \<and> list_all stale (pending s) \<and> length (pending s) \<le> 3 * burst
     \<and> traffic (fst s) (pending s) \<le> 6 * burst * 4052"

text \<open>
  What the kernel and the file server on the other side promise: \<open>files\<close> is the server's state and
  \<open>answer\<close> what an operation makes of it; \<open>small\<close> is an invariant of that state under which a response
  fits \<open>burst\<close> packets. The server accepts connections to its port, answers a request in one response
  and leaves the closing of the connection to the client.
\<close>

definition file_server :: "('h \<Rightarrow> packet \<Rightarrow> 'h \<times> packet list) \<Rightarrow> ('h \<Rightarrow> 'f) \<Rightarrow> ('h \<Rightarrow> bool) \<Rightarrow> ('f \<Rightarrow> bool) \<Rightarrow> nat \<Rightarrow>
    ('f \<Rightarrow> u8 \<times> bytes \<times> bytes \<Rightarrow> 'f \<times> u8 \<times> bytes) \<Rightarrow> bool" where
  "file_server react files connected small burst answer \<longleftrightarrow>
     (\<forall>h hdr. hdr_op hdr = VSOCK_OP_CREDIT_UPDATE \<longrightarrow>
        files (fst (react h (hdr, []))) = files h \<and> connected (fst (react h (hdr, []))) = connected h
        \<and> snd (react h (hdr, [])) = [])
     \<and> (\<forall>h hdr. hdr_op hdr = VSOCK_OP_RST \<and> p_dst_port (parse_hdr hdr) = HOST_FILE_PORT \<longrightarrow>
        files (fst (react h (hdr, []))) = files h \<and> list_all stale (snd (react h (hdr, [])))
        \<and> length (snd (react h (hdr, []))) \<le> burst)
     \<and> (\<forall>h hdr. hdr_op hdr = VSOCK_OP_REQUEST \<and> p_dst_port (parse_hdr hdr) = HOST_FILE_PORT \<longrightarrow>
        files (fst (react h (hdr, []))) = files h \<and> connected (fst (react h (hdr, [])))
        \<and> accepts (snd (react h (hdr, []))) \<and> length (snd (react h (hdr, []))) \<le> burst)
     \<and> (\<forall>h hdr op path data. hdr_op hdr = VSOCK_OP_RW \<and> p_dst_port (parse_hdr hdr) = HOST_FILE_PORT
          \<and> connected h \<and> small (files h) \<and> 7 + length path + length data \<le> 4052 \<longrightarrow>
        (case answer (files h) (op, path, data) of (fs, status, body) \<Rightarrow>
           files (fst (react h (hdr, file_req op path data))) = fs \<and> small fs
           \<and> carries status body (snd (react h (hdr, file_req op path data))))
        \<and> length (snd (react h (hdr, file_req op path data))) \<le> burst)"

text \<open>
  The bounds keep every loop within its polls and the credit counter, which is reset at every
  connection, within its 32 bits.
\<close>

locale file_host = packet_link +
  fixes files :: "'h \<Rightarrow> 'f" and connected :: "'h \<Rightarrow> bool" and tidy :: "'f \<Rightarrow> bool" and burst :: nat
    and answer :: "'f \<Rightarrow> 8 word \<times> 8 word list \<times> 8 word list \<Rightarrow> 'f \<times> 8 word \<times> 8 word list"
  assumes server: "file_server react files connected tidy burst answer"
    and polls: "4 * burst * (L + 1) \<le> POLLS"
    and bytes: "6 * burst * 4052 < 2 ^ 32"
begin

lemma on_credit:
  "hdr_op hdr = VSOCK_OP_CREDIT_UPDATE \<Longrightarrow> files (fst (react h (hdr, []))) = files h
    \<and> connected (fst (react h (hdr, []))) = connected h \<and> snd (react h (hdr, [])) = []"
  using server by (simp add: file_server_def)

lemma on_reset:
  "hdr_op hdr = VSOCK_OP_RST \<Longrightarrow> p_dst_port (parse_hdr hdr) = HOST_FILE_PORT \<Longrightarrow>
    files (fst (react h (hdr, []))) = files h \<and> list_all stale (snd (react h (hdr, [])))
    \<and> length (snd (react h (hdr, []))) \<le> burst"
  using server by (simp add: file_server_def)

lemma on_request:
  "hdr_op hdr = VSOCK_OP_REQUEST \<Longrightarrow> p_dst_port (parse_hdr hdr) = HOST_FILE_PORT \<Longrightarrow>
    files (fst (react h (hdr, []))) = files h \<and> connected (fst (react h (hdr, [])))
    \<and> accepts (snd (react h (hdr, []))) \<and> length (snd (react h (hdr, []))) \<le> burst"
  using server by (simp add: file_server_def)

lemma on_file:
  "hdr_op hdr = VSOCK_OP_RW \<Longrightarrow> p_dst_port (parse_hdr hdr) = HOST_FILE_PORT \<Longrightarrow> connected h \<Longrightarrow> tidy (files h) \<Longrightarrow>
    7 + length path + length data \<le> 4052 \<Longrightarrow>
    (case answer (files h) (op, path, data) of (fs, status, body) \<Rightarrow>
       files (fst (react h (hdr, file_req op path data))) = fs \<and> tidy fs
       \<and> carries status body (snd (react h (hdr, file_req op path data))))
    \<and> length (snd (react h (hdr, file_req op path data))) \<le> burst"
  by (rule server [unfolded file_server_def, THEN conjunct2, THEN conjunct2, THEN conjunct2, rule_format])
     (intro conjI)

text \<open>A credit update changes nothing but what the host does with it, which is nothing.\<close>

lemma credit_update:
  assumes "inv s"
  shows "\<exists>s'. send_hdr_port p hw sp dp VSOCK_OP_CREDIT_UPDATE s = Some s' \<and> inv s' \<and> files (peer s') = files (peer s)
    \<and> connected (peer s') = connected (peer s) \<and> inbox s' = inbox s \<and> (\<forall>ps. traffic (fst s') ps = traffic (fst s) ps)"
proof -
  let ?h = "make_hdr_port (fst s) 0 VSOCK_OP_CREDIT_UPDATE sp dp"
  obtain s' where "send_hdr_port p hw sp dp VSOCK_OP_CREDIT_UPDATE s = Some s'" "inv s'"
    "fwd_cnt (fst s') = fwd_cnt (fst s)" "peer s' = fst (react (peer s) (?h, []))"
    "inbox s' = inbox s @ snd (react (peer s) (?h, []))"
    using send_header [OF assms] by blast
  with on_credit [of ?h "peer s"] show ?thesis by (auto simp: traffic_def)
qed

text \<open>The next packet within the polls that are left.\<close>

lemma packet_within:
  assumes "inv s" and "traffic (fst s) (inbox s) < 2 ^ 32" and "inbox s = q # ps" and "length (q # ps) * (L + 1) \<le> n"
  obtains k n' s1 s2 where "n = k + Suc n'" and "idle k s = Some s1"
    and "try_recv p hw s1 = Some (Some (pkt_op q, snd q), s2)"
    and "inv s2" and "peer s2 = peer s" and "inbox s2 = ps"
    and "traffic (fst s2) ps = traffic (fst s) (inbox s)" and "length ps * (L + 1) \<le> n'"
proof -
  obtain k s1 s2 where k: "k \<le> L" "idle k s = Some s1"
    and s2: "try_recv p hw s1 = Some (Some (hdr_op (fst q), snd q), s2)" "inv s2" "peer s2 = peer s" "inbox s2 = ps"
      "traffic (fst s2) ps = traffic (fst s) (inbox s)"
    using next_packet [OF assms(1,2), of "fst q" "snd q" ps] assms(3) by auto
  obtain n' where n: "n = k + Suc n'" using k(1) assms(4) by (auto dest!: le_Suc_ex)
  show thesis by (rule that [OF n k(2)]) (use s2 k(1) n assms(4) in \<open>simp_all add: pkt_op_def\<close>)
qed

lemma connect_accept:
  assumes "inv s" and "traffic (fst s) (inbox s) < 2 ^ 32" and "inbox s = pre @ pk # post" and "list_all stale pre"
    and "pkt_op pk = VSOCK_OP_RESPONSE" and "length (pre @ pk # post) * (L + 1) \<le> n"
  shows "\<exists>s'. connect_loop p hw sp dp n s = Some (True, s') \<and> inv s' \<and> files (peer s') = files (peer s)
    \<and> connected (peer s') = connected (peer s) \<and> inbox s' = post
    \<and> traffic (fst s') post = traffic (fst s) (inbox s)"
  using assms
proof (induction pre arbitrary: s n)
  case Nil
  from packet_within [OF Nil.prems(1,2)] Nil.prems(3,6)
  obtain k n' s1 s2 where n: "n = k + Suc n'" and k: "idle k s = Some s1"
    and r: "try_recv p hw s1 = Some (Some (pkt_op pk, snd pk), s2)"
    and s2: "inv s2" "peer s2 = peer s" "inbox s2 = post" "traffic (fst s2) post = traffic (fst s) (inbox s)"
    by (metis append_Nil)
  obtain s3 where "send_hdr_port p hw sp dp VSOCK_OP_CREDIT_UPDATE s2 = Some s3" "inv s3" "files (peer s3) = files (peer s2)"
    "connected (peer s3) = connected (peer s2)" "inbox s3 = inbox s2" "\<forall>ps. traffic (fst s3) ps = traffic (fst s2) ps"
    using credit_update [OF s2(1)] by blast
  then show ?case using r s2 Nil.prems(5) unfolding n loops_idle(1) [OF k] by simp
next
  case (Cons q pre)
  from packet_within [OF Cons.prems(1,2)] Cons.prems(3,6)
  obtain k n' s1 s2 where n: "n = k + Suc n'" and k: "idle k s = Some s1"
    and r: "try_recv p hw s1 = Some (Some (pkt_op q, snd q), s2)"
    and s2: "inv s2" "peer s2 = peer s" "inbox s2 = pre @ pk # post"
      "traffic (fst s2) (pre @ pk # post) = traffic (fst s) (inbox s)"
    and n': "length (pre @ pk # post) * (L + 1) \<le> n'"
    by (metis append_Cons)
  have "connect_loop p hw sp dp n s = connect_loop p hw sp dp n' s2"
    using r Cons.prems(4) unfolding n loops_idle(1) [OF k] by (simp add: stale_def)
  then show ?case
    using Cons.IH [OF s2(1) _ s2(3) _ Cons.prems(5) n'] s2 Cons.prems(2,4) by (simp add: s2(3))
qed

text \<open>The response loop takes the data packets in their order; the others it passes over.\<close>

lemma rw_data_Cons: "rw_data (q # ps) = (if pkt_op q = VSOCK_OP_RW then snd q # rw_data ps else rw_data ps)"
  by (simp add: rw_data_def)

lemma response_step:
  assumes "inv s" and "traffic (fst s) (inbox s) < 2 ^ 32" and "inbox s = q # ps" and "stale q"
    and "length (q # ps) * (L + 1) \<le> n"
  shows "\<exists>n' s2. inv s2 \<and> files (peer s2) = files (peer s) \<and> inbox s2 = ps
    \<and> traffic (fst s2) ps = traffic (fst s) (inbox s) \<and> length ps * (L + 1) \<le> n'
    \<and> resp_loop p hw n st s =
      (if pkt_op q = VSOCK_OP_RW then
         case resp_rw (snd q) st of Inl res \<Rightarrow> Some (res, s2) | Inr st' \<Rightarrow> resp_loop p hw n' st' s2
       else resp_loop p hw n' st s2)"
proof -
  obtain k n' s1 s2 where n: "n = k + Suc n'" and k: "idle k s = Some s1"
    and r: "try_recv p hw s1 = Some (Some (pkt_op q, snd q), s2)"
    and s2: "inv s2" "peer s2 = peer s" "inbox s2 = ps" "traffic (fst s2) ps = traffic (fst s) (inbox s)"
    and n': "length ps * (L + 1) \<le> n'"
    by (rule packet_within [OF assms(1-3,5)])
  have q: "pkt_op q \<noteq> VSOCK_OP_RST" using assms(4) by (simp add: stale_def)
  note loop = loops_idle(2) [OF k, of "Suc n'" st]
  show ?thesis
  proof (cases "pkt_op q = VSOCK_OP_CREDIT_UPDATE")
    case True
    obtain s3 where s3: "send_hdr_port p hw GUEST_FILE_PORT HOST_FILE_PORT VSOCK_OP_CREDIT_UPDATE s2 = Some s3" "inv s3"
      "files (peer s3) = files (peer s2)" "inbox s3 = inbox s2" "\<forall>ps. traffic (fst s3) ps = traffic (fst s2) ps"
      using credit_update [OF s2(1)] by blast
    have "resp_loop p hw n st s = resp_loop p hw n' st s3" unfolding n loop using r True s3(1) by simp
    then show ?thesis using s3(2-5) s2 n' True by (intro exI [of _ n'] exI [of _ s3]) (simp add: vs_ops)
  next
    case False
    then show ?thesis
      using r q s2 n' unfolding n loop by (intro exI [of _ n'] exI [of _ s2]) (simp add: vs_ops split: sum.splits)
  qed
qed

lemma response_taken:
  assumes "inv s" and "traffic (fst s) (inbox s) < 2 ^ 32" and "inbox s = ps" and "list_all stale ps"
    and "resp_chunks (rw_data ps) st = Inl res" and "length ps * (L + 1) \<le> n"
  shows "\<exists>s' qs. resp_loop p hw n st s = Some (res, s') \<and> inv s' \<and> files (peer s') = files (peer s)
    \<and> ps = qs @ inbox s' \<and> traffic (fst s') (inbox s') = traffic (fst s) ps"
  using assms
proof (induction ps arbitrary: s n st)
  case Nil
  then show ?case by (simp add: rw_data_def)
next
  case (Cons q ps)
  have q: "stale q" "list_all stale ps" using Cons.prems(4) by simp_all
  obtain n' s2 where s2: "inv s2" "files (peer s2) = files (peer s)" "inbox s2 = ps"
    "traffic (fst s2) ps = traffic (fst s) (inbox s)" and n': "length ps * (L + 1) \<le> n'"
    and loop: "resp_loop p hw n st s = (if pkt_op q = VSOCK_OP_RW then
         case resp_rw (snd q) st of Inl res \<Rightarrow> Some (res, s2) | Inr st' \<Rightarrow> resp_loop p hw n' st' s2
       else resp_loop p hw n' st s2)"
    using response_step [OF Cons.prems(1-3) q(1) Cons.prems(6)] by blast
  have tr: "traffic (fst s2) (inbox s2) < 2 ^ 32" using s2(3,4) Cons.prems(2) by simp
  have go_on: ?case if "resp_loop p hw n st s = resp_loop p hw n' st' s2" "resp_chunks (rw_data ps) st' = Inl res" for st'
    using Cons.IH [OF s2(1) tr s2(3) q(2) that(2) n'] that(1) s2 Cons.prems(3) by (metis append_Cons)
  show ?case
  proof (cases "pkt_op q = VSOCK_OP_RW")
    case True
    show ?thesis
      by (cases "resp_rw (snd q) st")
        (use loop Cons.prems(3,5) True s2 go_on in \<open>auto simp: rw_data_Cons intro: exI [of _ "[q]"]\<close>)
  next
    case False
    then show ?thesis using loop Cons.prems(5) go_on by (simp add: rw_data_Cons)
  qed
qed

lemma make_hdr_dst: "p_dst_port (parse_hdr (make_hdr_port d n op sp dp)) = dp"
  by (simp add: make_hdr_port_def HDR_SIZE_def parse_write_hdr)

lemma fuel: "k \<le> 4 * burst \<Longrightarrow> k * (L + 1) \<le> POLLS"
  using polls mult_le_mono1 [of k "4 * burst" "L + 1"] by linarith

text \<open>What the drain of a new connection leaves, with the credit counter reset.\<close>

lemma drained:
  assumes "between inv inbox burst s"
  shows "\<exists>d m. drain_rx p hw s = Some (d, m) \<and> inv (d\<lparr>fwd_cnt := 0\<rparr>, m) \<and> peer (d\<lparr>fwd_cnt := 0\<rparr>, m) = peer s
    \<and> length (inbox (d\<lparr>fwd_cnt := 0\<rparr>, m)) \<le> 3 * burst \<and> list_all stale (inbox (d\<lparr>fwd_cnt := 0\<rparr>, m))"
proof -
  have s: "inv s" "list_all stale (inbox s)" "length (inbox s) \<le> 3 * burst" "traffic (fst s) (inbox s) < 2 ^ 32"
    using assms bytes by (auto simp: between_def)
  obtain d m ps where dm: "drain_rx p hw s = Some (d, m)" "inv (d, m)" "peer (d, m) = peer s"
    "inbox s = ps @ inbox (d, m)"
    using drain_ends [OF s(1,4)] by (metis surj_pair)
  then show ?thesis using s(2,3) recount [OF dm(2), of 0] by (intro exI [of _ d] exI [of _ m]) simp
qed

lemma connects:
  assumes "between inv inbox burst s"
  shows "\<exists>s'. connect_port p hw GUEST_FILE_PORT HOST_FILE_PORT s = Some (True, s') \<and> inv s'
    \<and> files (peer s') = files (peer s) \<and> connected (peer s') \<and> list_all quiet (inbox s')
    \<and> length (inbox s') \<le> burst \<and> traffic (fst s') (inbox s') \<le> 4 * burst * 4052"
proof -
  obtain d m where dr: "drain_rx p hw s = Some (d, m)" and s1: "inv (d\<lparr>fwd_cnt := 0\<rparr>, m)" "peer (d\<lparr>fwd_cnt := 0\<rparr>, m) = peer s"
    and old: "length (inbox (d\<lparr>fwd_cnt := 0\<rparr>, m)) \<le> 3 * burst" "list_all stale (inbox (d\<lparr>fwd_cnt := 0\<rparr>, m))"
    using drained [OF assms] by blast
  let ?s1 = "(d\<lparr>fwd_cnt := 0\<rparr>, m)"
  let ?h = "make_hdr_port (d\<lparr>fwd_cnt := 0\<rparr>) 0 VSOCK_OP_REQUEST GUEST_FILE_PORT HOST_FILE_PORT"
  obtain s2 where s2: "send_hdr_port p hw GUEST_FILE_PORT HOST_FILE_PORT VSOCK_OP_REQUEST ?s1 = Some s2" "inv s2"
    "fwd_cnt (fst s2) = 0" "peer s2 = fst (react (peer s) (?h, []))"
    "inbox s2 = inbox ?s1 @ snd (react (peer s) (?h, []))"
    using send_header [OF s1(1), of GUEST_FILE_PORT HOST_FILE_PORT VSOCK_OP_REQUEST] s1(2) by auto
  note rq = on_request [of ?h "peer s", OF hdr_op_make make_hdr_dst]
  obtain pre pk post where acc: "snd (react (peer s) (?h, [])) = pre @ pk # post" "list_all stale pre"
    "pkt_op pk = VSOCK_OP_RESPONSE" "list_all quiet post"
    using rq by (auto simp: accepts_def)
  let ?pre = "inbox ?s1 @ pre"
  have new: "length (pre @ pk # post) \<le> burst" using rq acc(1) by simp
  have ib: "inbox s2 = ?pre @ pk # post" by (simp add: s2(5) acc(1))
  have len: "length (?pre @ pk # post) \<le> 4 * burst" using old(1) new by simp
  have tr: "traffic (fst s2) (inbox s2) \<le> 4 * burst * 4052"
    using pkt_bytes_le [OF s2(2)] len unfolding ib [symmetric] by (simp add: traffic_def s2(3))
  have tr2: "traffic (fst s2) (inbox s2) < 2 ^ 32" using tr bytes by linarith
  have stale: "list_all stale ?pre" using old(2) acc(2) by simp
  obtain s3 where s3: "connect_loop p hw GUEST_FILE_PORT HOST_FILE_PORT POLLS s2 = Some (True, s3)" "inv s3"
    "files (peer s3) = files (peer s2)" "connected (peer s3) = connected (peer s2)" "inbox s3 = post"
    "traffic (fst s3) post = traffic (fst s2) (inbox s2)"
    using connect_accept [OF s2(2) tr2 ib stale acc(3) fuel [OF len]] by blast
  have "connect_port p hw GUEST_FILE_PORT HOST_FILE_PORT s = Some (True, s3)"
    using dr s2(1) s3(1) by (simp add: connect_port_def)
  with s3 s2(4) rq acc(4) new tr show ?thesis by (intro exI [of _ s3]) simp
qed

text \<open>One operation, from the connection to the close.\<close>

lemma rw_data_quiet: "list_all quiet qs \<Longrightarrow> rw_data (qs @ ps) = rw_data ps"
  by (induction qs) (simp_all add: rw_data_Cons quiet_def)

lemma quiet_stale: "list_all quiet qs \<Longrightarrow> list_all stale qs"
  by (simp add: list_all_iff quiet_def)

text \<open>On an open connection: the request is sent and the response read.\<close>

lemma exchange:
  assumes "inv s" and "connected (peer s)" and "list_all quiet (inbox s)" and "length (inbox s) \<le> burst"
    and "traffic (fst s) (inbox s) \<le> 4 * burst * 4052" and "7 + length path + length data \<le> 4052"
    and "tidy (files (peer s))" and "answer (files (peer s)) (op, path, data) = (fs, status, body)"
  shows "\<exists>s2 s3. send_file_req p hw op path data s = Some s2
    \<and> resp_loop p hw POLLS None s2 = Some (Some (status = 0, body), s3) \<and> inv s3
    \<and> files (peer s3) = fs \<and> tidy fs \<and> list_all stale (inbox s3) \<and> length (inbox s3) \<le> 2 * burst
    \<and> traffic (fst s3) (inbox s3) \<le> 5 * burst * 4052"
proof -
  let ?req = "file_req op path data"
  let ?h = "make_hdr_port (fst s) (of_nat (length ?req)) VSOCK_OP_RW GUEST_FILE_PORT HOST_FILE_PORT"
  let ?ps = "snd (react (peer s) (?h, ?req))"
  have "length ?req \<le> 4052" using assms(6) by simp
  then obtain s2 where s2: "send_raw p hw ?h ?req s = Some s2" "inv s2" "fwd_cnt (fst s2) = fwd_cnt (fst s)"
    "peer s2 = fst (react (peer s) (?h, ?req))" "inbox s2 = inbox s @ ?ps"
    using send [OF assms(1), of ?h ?req] by auto
  from on_file [of ?h, OF hdr_op_make make_hdr_dst assms(2,7,6), of op] assms(8)
  have ans: "files (peer s2) = fs" "carries status body ?ps" "length ?ps \<le> burst" and tidy: "tidy fs"
    by (simp_all add: s2(4))
  obtain c cs rest where rw: "rw_data ?ps = c # cs" "5 \<le> length c" "concat (c # cs) = file_resp status body @ rest"
    and st: "list_all stale ?ps" and b: "length body < 2 ^ 32"
    using ans(2) by (auto simp: carries_def)
  have chunks: "resp_chunks (rw_data (inbox s2)) None = Inl (Some (status = 0, body))"
    unfolding s2(5) rw_data_quiet [OF assms(3)] rw(1) by (rule resp_chunks_file_resp [OF rw(3,2) b])
  have len: "length (inbox s2) \<le> 2 * burst" using assms(4) ans(3) by (simp add: s2(5))
  have "pkt_bytes ?ps \<le> 4052 * length ?ps" by (rule inbox_small [OF s2(2,5)])
  also have "\<dots> \<le> burst * 4052" using ans(3) by simp
  finally have tr: "traffic (fst s2) (inbox s2) \<le> 5 * burst * 4052"
    using assms(5) by (simp add: traffic_def s2(3,5))
  have tr2: "traffic (fst s2) (inbox s2) < 2 ^ 32" using tr bytes by linarith
  have st2: "list_all stale (inbox s2)" using quiet_stale [OF assms(3)] st by (simp add: s2(5))
  obtain s3 qs where s3: "resp_loop p hw POLLS None s2 = Some (Some (status = 0, body), s3)" "inv s3"
    "files (peer s3) = files (peer s2)" "inbox s2 = qs @ inbox s3" "traffic (fst s3) (inbox s3) = traffic (fst s2) (inbox s2)"
    using response_taken [OF s2(2) tr2 refl st2 chunks fuel] len by auto
  have "list_all stale (inbox s3)" "length (inbox s3) \<le> 2 * burst" using st2 len s3(4) by simp_all
  with s2(1) s3 ans(1) tidy tr show ?thesis
    by (intro exI [of _ s2] exI [of _ s3]) (simp add: send_file_req_def split_def)
qed

lemma closes:
  assumes "inv s" and "list_all stale (inbox s)" and "length (inbox s) \<le> 2 * burst"
    and "traffic (fst s) (inbox s) \<le> 5 * burst * 4052"
  shows "\<exists>s'. send_hdr_port p hw GUEST_FILE_PORT HOST_FILE_PORT VSOCK_OP_RST s = Some s'
    \<and> between inv inbox burst s' \<and> files (peer s') = files (peer s)"
proof -
  let ?h = "make_hdr_port (fst s) 0 VSOCK_OP_RST GUEST_FILE_PORT HOST_FILE_PORT"
  obtain s' where s': "send_hdr_port p hw GUEST_FILE_PORT HOST_FILE_PORT VSOCK_OP_RST s = Some s'" "inv s'"
    "fwd_cnt (fst s') = fwd_cnt (fst s)" "peer s' = fst (react (peer s) (?h, []))"
    "inbox s' = inbox s @ snd (react (peer s) (?h, []))"
    using send_header [OF assms(1)] by blast
  note rst = on_reset [of ?h "peer s", OF hdr_op_make make_hdr_dst]
  have "pkt_bytes (snd (react (peer s) (?h, []))) \<le> burst * 4052"
    using inbox_small [OF s'(2,5)] rst by (simp add: mult.commute)
  then have "traffic (fst s') (inbox s') \<le> 6 * burst * 4052"
    using assms(4) by (simp add: traffic_def s'(3,5))
  then have "between inv inbox burst s'" using s'(2) assms(2,3) rst by (simp add: between_def s'(5))
  with s'(1,4) rst show ?thesis by auto
qed

lemma file_op_answered:
  assumes "between inv inbox burst (d, m)" and "7 + length path + length data \<le> 4052"
    and "tidy (files (peer (d, m)))" and "answer (files (peer (d, m))) (op, path, data) = (fs, status, body)"
  shows "\<exists>d' m'. file_op p hw al op path data (Some d, m) = Some (Some (status = 0, body), Some d', m')
    \<and> between inv inbox burst (d', m') \<and> files (peer (d', m')) = fs \<and> tidy fs"
proof -
  obtain s1 where s1: "connect_port p hw GUEST_FILE_PORT HOST_FILE_PORT (d, m) = Some (True, s1)" "inv s1"
    "files (peer s1) = files (peer (d, m))" "connected (peer s1)" "list_all quiet (inbox s1)"
    "length (inbox s1) \<le> burst" "traffic (fst s1) (inbox s1) \<le> 4 * burst * 4052"
    using connects [OF assms(1)] by blast
  obtain s2 s3 where s3: "send_file_req p hw op path data s1 = Some s2"
    "resp_loop p hw POLLS None s2 = Some (Some (status = 0, body), s3)" "inv s3" "files (peer s3) = fs" "tidy fs"
    "list_all stale (inbox s3)" "length (inbox s3) \<le> 2 * burst" "traffic (fst s3) (inbox s3) \<le> 5 * burst * 4052"
    using exchange [OF s1(2,4-7) assms(2)] assms(3,4) unfolding s1(3) by blast
  obtain s4 where s4: "send_hdr_port p hw GUEST_FILE_PORT HOST_FILE_PORT VSOCK_OP_RST s3 = Some s4"
    "between inv inbox burst s4" "files (peer s4) = files (peer s3)"
    using closes [OF s3(3,6-8)] by blast
  have "file_op p hw al op path data (Some d, m) = Some (Some (status = 0, body), Some (fst s4), snd s4)"
    using s1(1) s3(1,2) s4(1)
    by (simp add: file_op_def ensure_file_dev_def recv_file_resp_def close_port_def split_def)
  then show ?thesis using s4(2,3) s3(4,5) by (intro exI [of _ "fst s4"] exI [of _ "snd s4"]) simp
qed

text \<open>A request that does not fit one packet meets the assertion of \<open>send_raw\<close>.\<close>

lemma file_op_too_long:
  assumes "between inv inbox burst (d, m)" and "4052 < 7 + length path + length data"
  shows "file_op p hw al op path data (Some d, m) = None"
proof -
  obtain s1 where s1: "connect_port p hw GUEST_FILE_PORT HOST_FILE_PORT (d, m) = Some (True, s1)"
    using connects [OF assms(1)] by blast
  have "send_file_req p hw op path data s1 = None"
    using assms(2) by (simp add: send_file_req_def send_raw_def HDR_SIZE_def VS_BUF_SIZE_def split_def)
  with s1 show ?thesis by (simp add: file_op_def ensure_file_dev_def)
qed

end

end
