(* ===== verification/VsockRing.thy ===== *)
theory VsockRing
  imports VsockLink
begin

text \<open>
  The rings of \<^verbatim>\<open>vsock.rs\<close> against a conforming device. \<open>deliver\<close> and \<open>take_tx\<close> are the device's side
  in the VirtIO specification: deliver one packet into the next receive buffer the driver has made
  available, take one packet the driver has published for transmission. A conforming device does
  nothing else to the rings; it may deliver any number of packets whenever it runs, and runs of the
  kernel's polls without one are bounded by \<open>wait\<close>. The driver never looks at the transmit used ring,
  so it relies on the device to take a packet when it is notified; that is part of the conformance.

  The result is the \<open>packet_link\<close> that the clients are built on.
\<close>

section \<open>Cells\<close>

lemma vs_cells:
  "avail_idx mem QUEUE_SIZE = mem + 130" "avail_ring mem QUEUE_SIZE i = mem + 132 + i * 2"
  "used_idx mem QUEUE_SIZE = mem + 4098" "used_id mem QUEUE_SIZE i = mem + 4100 + i * 8"
  "used_len mem QUEUE_SIZE i = mem + 4104 + i * 8"
  by (simp_all add: avail_idx_def avail_ring_def used_idx_def used_id_def used_len_def QUEUE_SIZE_def
      vs.avail_at vs.used_at)

lemma slot_add: "unat (w + of_nat k :: u16) mod 8 = (unat w + k) mod 8"
  by (simp add: unat_word_ariths unat_of_nat mod_mod_cancel mod_simps)

lemma slots_differ: "j < n \<Longrightarrow> n < 8 + j \<Longrightarrow> (a + j) mod 8 \<noteq> (a + n) mod (8 :: nat)"
proof
  assume "j < n" "n < 8 + j" "(a + j) mod 8 = (a + n) mod 8"
  then have "8 dvd n - j" using mod_eq_dvd_iff_nat [of "a + j" "a + n" 8] by simp
  with \<open>j < n\<close> \<open>n < 8 + j\<close> show False by (auto dest: dvd_imp_le)
qed

section \<open>The device's side\<close>

record place =
  rxm :: nat
  rxb :: nat
  txm :: nat
  txb :: nat
  rxn :: "64 word"
  txn :: "64 word"

record 'h vdev =
  rx_seen :: "16 word"
  tx_seen :: "16 word"
  outbox :: "(8 word list \<times> 8 word list) list"
  peer_state :: 'h

text \<open>A new element of the used ring.\<close>

definition push_used :: "nat \<Rightarrow> nat \<Rightarrow> nat \<Rightarrow> ram \<Rightarrow> ram" where
  "push_used q d len r =
     (let idx = c16 r (q + 4098);
          r = mem_write r (q + 4100 + 8 * (unat idx mod 8)) (to_le32 (of_nat d));
          r = mem_write r (q + 4104 + 8 * (unat idx mod 8)) (to_le32 (of_nat len))
      in mem_write r (q + 4098) (to_le16 (idx + 1)))"

definition deliver :: "place \<Rightarrow> 'h vdev \<times> ram \<Rightarrow> 'h vdev \<times> ram" where
  "deliver pl = (\<lambda>(v, r).
     case outbox v of
       [] \<Rightarrow> (v, r)
     | (hdr, data) # rest \<Rightarrow>
         if c16 r (rxm pl + 130) = rx_seen v then (v, r)
         else
           let d = unat (c16 r (rxm pl + 132 + 2 * (unat (rx_seen v) mod 8)))
           in (v\<lparr>rx_seen := rx_seen v + 1, outbox := rest\<rparr>,
               push_used (rxm pl) d (length hdr + length data)
                 (mem_write r (d_addr (desc_at r (rxm pl) d)) (hdr @ data))))"

definition take_tx :: "place \<Rightarrow> ('h \<Rightarrow> packet \<Rightarrow> 'h \<times> packet list) \<Rightarrow> 'h vdev \<times> ram \<Rightarrow> 'h vdev \<times> ram" where
  "take_tx pl react = (\<lambda>(v, r).
     if c16 r (txm pl + 130) = tx_seen v then (v, r)
     else
       let d = unat (c16 r (txm pl + 132 + 2 * (unat (tx_seen v) mod 8)));
           e = desc_at r (txm pl) d;
           bs = mem_read r (d_addr e) (d_len e);
           (h, out) = react (peer_state v) (take 44 bs, drop 44 bs)
       in (v\<lparr>tx_seen := tx_seen v + 1, peer_state := h, outbox := outbox v @ out\<rparr>,
           push_used (txm pl) d 0 r))"

definition vs_conforming :: "'d hw \<Rightarrow> ('d \<Rightarrow> 'h vdev) \<Rightarrow> ('d \<Rightarrow> nat) \<Rightarrow> nat \<Rightarrow> place \<Rightarrow>
    ('h \<Rightarrow> packet \<Rightarrow> 'h \<times> packet list) \<Rightarrow> bool" where
  "vs_conforming hw view wait D pl react \<longleftrightarrow>
     (\<forall>x. wait x \<le> D)
     \<and> (\<forall>m. \<exists>k. (view (dev (sync hw m)), ram (sync hw m)) = (deliver pl ^^ k) (view (dev m), ram m)
          \<and> (k = 0 \<and> outbox (view (dev m)) \<noteq> [] \<longrightarrow> wait (dev (sync hw m)) < wait (dev m)))
     \<and> (\<forall>m. \<exists>k. let m' = mm16w hw (rxn pl) QUEUE_RX m in
          (view (dev m'), ram m') = (deliver pl ^^ k) (view (dev m), ram m))
     \<and> (\<forall>m. let m' = mm16w hw (txn pl) QUEUE_TX m in
          (view (dev m'), ram m') = take_tx pl react (view (dev m), ram m))"

definition wf_packet :: "packet \<Rightarrow> bool" where
  "wf_packet pk \<longleftrightarrow> length (fst pk) = 44 \<and> length (snd pk) \<le> 4052"

text \<open>The two queues and the two buffer areas: apart, and below \<open>2 ^ 64\<close>.\<close>

definition vs_placed :: "place \<Rightarrow> bool" where
  "vs_placed pl \<longleftrightarrow>
     apart (rxm pl) 8192 (rxb pl) 32768 \<and> apart (rxm pl) 8192 (txm pl) 8192 \<and> apart (rxm pl) 8192 (txb pl) 32768
     \<and> apart (rxb pl) 32768 (txm pl) 8192 \<and> apart (rxb pl) 32768 (txb pl) 32768 \<and> apart (txm pl) 8192 (txb pl) 32768
     \<and> rxb pl + 32768 \<le> 2 ^ 64 \<and> txb pl + 32768 \<le> 2 ^ 64"

section \<open>The receive ring\<close>

text \<open>
  \<open>n\<close> packets have arrived since \<open>lu\<close>. Both rings have eight slots and both sides go round in order,
  so slot, descriptor and buffer always have the same number.
\<close>

definition rx_ok :: "place \<Rightarrow> ram \<Rightarrow> u16 \<Rightarrow> nat \<Rightarrow> bool" where
  "rx_ok pl r lu n \<longleftrightarrow>
     n \<le> 8 \<and> c16 r (rxm pl + 4098) = lu + of_nat n \<and> c16 r (rxm pl + 130) = lu + 8
     \<and> (\<forall>i<8. c16 r (rxm pl + 132 + 2 * i) = of_nat i \<and> c64 r (rxm pl + 16 * i) = rxb pl + 4096 * i)
     \<and> (\<forall>j<n. let s = (unat lu + j) mod 8 in
          c32 r (rxm pl + 4100 + 8 * s) = s \<and> 44 \<le> c32 r (rxm pl + 4104 + 8 * s)
          \<and> c32 r (rxm pl + 4104 + 8 * s) \<le> 4096)"

definition arrived_at :: "place \<Rightarrow> ram \<Rightarrow> nat \<Rightarrow> packet" where
  "arrived_at pl r s =
     (mem_read r (rxb pl + 4096 * s) 44,
      mem_read r (rxb pl + 4096 * s + 44) (c32 r (rxm pl + 4104 + 8 * s) - 44))"

definition arrived :: "place \<Rightarrow> ram \<Rightarrow> u16 \<Rightarrow> nat \<Rightarrow> packet list" where
  "arrived pl r lu n = map (\<lambda>j. arrived_at pl r ((unat lu + j) mod 8)) [0..<n]"

lemma arrived_small: "rx_ok pl r lu n \<Longrightarrow> pk \<in> set (arrived pl r lu n) \<Longrightarrow> length (snd pk) \<le> 4052"
  by (fastforce simp: rx_ok_def arrived_def arrived_at_def Let_def)

text \<open>Memory outside the receive queue and its buffers does not matter.\<close>

definition rx_same :: "place \<Rightarrow> ram \<Rightarrow> ram \<Rightarrow> bool" where
  "rx_same pl r r' \<longleftrightarrow> (\<forall>x. rxm pl \<le> x \<and> x < rxm pl + 8192 \<or> rxb pl \<le> x \<and> x < rxb pl + 32768 \<longrightarrow> r x = r' x)"

lemma rx_same_queue: "rx_same pl r r' \<Longrightarrow> k + n \<le> 8192 \<Longrightarrow> mem_read r (rxm pl + k) n = mem_read r' (rxm pl + k) n"
  by (rule mem_read_cong) (simp add: rx_same_def)

lemma rx_same_buffer: "rx_same pl r r' \<Longrightarrow> k + n \<le> 32768 \<Longrightarrow> mem_read r (rxb pl + k) n = mem_read r' (rxb pl + k) n"
  by (rule mem_read_cong) (simp add: rx_same_def)

lemma rx_same_cells:
  assumes "rx_same pl r r'" and "s < 8"
  shows "c16 r (rxm pl + 4098) = c16 r' (rxm pl + 4098)" "c16 r (rxm pl + 130) = c16 r' (rxm pl + 130)"
    "c16 r (rxm pl + 132 + 2 * s) = c16 r' (rxm pl + 132 + 2 * s)" "c64 r (rxm pl + 16 * s) = c64 r' (rxm pl + 16 * s)"
    "c32 r (rxm pl + 4100 + 8 * s) = c32 r' (rxm pl + 4100 + 8 * s)"
    "c32 r (rxm pl + 4104 + 8 * s) = c32 r' (rxm pl + 4104 + 8 * s)"
  using assms(2) rx_same_queue [OF assms(1), of 4098 2] rx_same_queue [OF assms(1), of 130 2]
    rx_same_queue [OF assms(1), of "132 + 2 * s" 2] rx_same_queue [OF assms(1), of "16 * s" 8]
    rx_same_queue [OF assms(1), of "4100 + 8 * s" 4] rx_same_queue [OF assms(1), of "4104 + 8 * s" 4]
  by (simp_all add: c16_def c32_def c64_def add.assoc)

lemma rx_ok_same:
  assumes "rx_same pl r r'"
  shows "rx_ok pl r lu n = rx_ok pl r' lu n"
proof -
  note c = rx_same_cells [OF assms, of "_ mod 8"] rx_same_cells [OF assms]
  show ?thesis by (simp add: rx_ok_def Let_def c(1,2,5,6) c(9,10) cong: conj_cong)
qed

lemma arrived_same:
  assumes "rx_same pl r r'" and ok: "rx_ok pl r lu n"
  shows "arrived pl r lu n = arrived pl r' lu n"
proof -
  have "arrived_at pl r s = arrived_at pl r' s" if s: "s < 8" and len: "c32 r (rxm pl + 4104 + 8 * s) \<le> 4096" for s
  proof -
    have "4096 * s + 4096 \<le> 32768" using s by simp
    then show ?thesis
      using rx_same_buffer [OF assms(1), of "4096 * s" 44] len
        rx_same_buffer [OF assms(1), of "4096 * s + 44" "c32 r (rxm pl + 4104 + 8 * s) - 44"]
        rx_same_cells(6) [OF assms(1) s]
      by (simp add: arrived_at_def add.assoc)
  qed
  then show ?thesis using ok by (auto simp: arrived_def rx_ok_def Let_def)
qed

section \<open>One packet arrives\<close>

lemma push_used_cells:
  fixes r :: ram and q :: nat
  assumes "d < 2 ^ 32" and "len < 2 ^ 32"
  defines "s \<equiv> unat (c16 r (q + 4098)) mod 8"
  shows "c16 (push_used q d len r) (q + 4098) = c16 r (q + 4098) + 1"
    and "c16 (push_used q d len r) (q + 130) = c16 r (q + 130)"
    and "i < 8 \<Longrightarrow> c16 (push_used q d len r) (q + 132 + 2 * i) = c16 r (q + 132 + 2 * i)"
    and "i < 8 \<Longrightarrow> c64 (push_used q d len r) (q + 16 * i) = c64 r (q + 16 * i)"
    and "t < 8 \<Longrightarrow> c32 (push_used q d len r) (q + 4100 + 8 * t) = (if t = s then d else c32 r (q + 4100 + 8 * t))"
    and "t < 8 \<Longrightarrow> c32 (push_used q d len r) (q + 4104 + 8 * t) = (if t = s then len else c32 r (q + 4104 + 8 * t))"
proof -
  have s: "s < 8" by (simp add: s_def)
  show "c16 (push_used q d len r) (q + 4098) = c16 r (q + 4098) + 1"
    by (simp add: push_used_def Let_def)
  show "c16 (push_used q d len r) (q + 130) = c16 r (q + 130)"
    by (simp add: push_used_def Let_def c_other)
  show "i < 8 \<Longrightarrow> c16 (push_used q d len r) (q + 132 + 2 * i) = c16 r (q + 132 + 2 * i)"
    by (simp add: push_used_def Let_def c_other)
  show "i < 8 \<Longrightarrow> c64 (push_used q d len r) (q + 16 * i) = c64 r (q + 16 * i)"
    by (simp add: push_used_def Let_def c_other)
  show "t < 8 \<Longrightarrow> c32 (push_used q d len r) (q + 4100 + 8 * t) = (if t = s then d else c32 r (q + 4100 + 8 * t))"
    using s assms(1) by (cases t s rule: linorder_cases)
      (simp_all add: push_used_def Let_def c_other s_def [symmetric] unat_of_nat)
  show "t < 8 \<Longrightarrow> c32 (push_used q d len r) (q + 4104 + 8 * t) = (if t = s then len else c32 r (q + 4104 + 8 * t))"
    using s assms(2) by (cases t s rule: linorder_cases)
      (simp_all add: push_used_def Let_def c_other s_def [symmetric] unat_of_nat)
qed

lemma push_used_outside: "x < q \<or> q + 8192 \<le> x \<Longrightarrow> push_used q d len r x = r x"
proof -
  assume x: "x < q \<or> q + 8192 \<le> x"
  obtain t where "unat (c16 r (q + 4098)) mod 8 = t" "t < 8" by simp
  with x show ?thesis by (elim disjE) (simp_all add: push_used_def Let_def mem_write_outside)
qed

text \<open>The receive area and the rest of memory.\<close>

lemma placed_disjoint:
  assumes "vs_placed pl"
  shows "rxm pl \<le> x \<Longrightarrow> x < rxm pl + 8192 \<Longrightarrow> x < rxb pl \<or> rxb pl + 32768 \<le> x"
    and "rxb pl \<le> x \<Longrightarrow> x < rxb pl + 32768 \<Longrightarrow> x < rxm pl \<or> rxm pl + 8192 \<le> x"
  using assms by (auto simp: vs_placed_def apart_def)

lemma buffer_write:
  fixes r :: ram and bs :: bytes
  assumes "vs_placed pl" and "s < 8" and "length bs \<le> 4096"
  defines "r' \<equiv> mem_write r (rxb pl + 4096 * s) bs"
  shows "k + w \<le> 8192 \<Longrightarrow> mem_read r' (rxm pl + k) w = mem_read r (rxm pl + k) w"
    and "t < 8 \<Longrightarrow> t \<noteq> s \<Longrightarrow> k + w \<le> 4096 \<Longrightarrow> mem_read r' (rxb pl + 4096 * t + k) w = mem_read r (rxb pl + 4096 * t + k) w"
    and "x < rxb pl \<or> rxb pl + 32768 \<le> x \<Longrightarrow> r' x = r x"
proof -
  have b: "4096 * s + length bs \<le> 32768" using assms(2,3) by simp
  show out: "r' x = r x" if "x < rxb pl \<or> rxb pl + 32768 \<le> x" for x
    using that b by (elim disjE) (simp_all add: r'_def mem_write_outside)
  show "k + w \<le> 8192 \<Longrightarrow> mem_read r' (rxm pl + k) w = mem_read r (rxm pl + k) w"
    by (intro mem_read_cong out placed_disjoint(1) [OF assms(1)]) simp_all
  show "t < 8 \<Longrightarrow> t \<noteq> s \<Longrightarrow> k + w \<le> 4096 \<Longrightarrow> mem_read r' (rxb pl + 4096 * t + k) w = mem_read r (rxb pl + 4096 * t + k) w"
    using assms(3) by (cases t s rule: linorder_cases) (simp_all add: r'_def mem_read_write_disjoint)
qed

text \<open>The memory after a packet has been put into buffer \<open>s\<close> and announced in the used ring.\<close>

definition with_packet :: "place \<Rightarrow> nat \<Rightarrow> packet \<Rightarrow> ram \<Rightarrow> ram" where
  "with_packet pl s = (\<lambda>(hdr, data) r.
     push_used (rxm pl) s (length hdr + length data) (mem_write r (rxb pl + 4096 * s) (hdr @ data)))"

lemma with_packet_outside:
  assumes "vs_placed pl" and "s < 8" and "wf_packet pk"
    and "x < rxm pl \<or> rxm pl + 8192 \<le> x" and "x < rxb pl \<or> rxb pl + 32768 \<le> x"
  shows "with_packet pl s pk r x = r x"
  using buffer_write(3) [OF assms(1,2) _ assms(5), of "fst pk @ snd pk" r] assms(3,4)
  by (cases pk) (simp add: with_packet_def push_used_outside wf_packet_def)

lemma with_packet_cells:
  assumes pl: "vs_placed pl" and s: "s < 8" and pk: "wf_packet pk" and ix: "unat (c16 r (rxm pl + 4098)) mod 8 = s"
  shows "c16 (with_packet pl s pk r) (rxm pl + 4098) = c16 r (rxm pl + 4098) + 1"
    and "c16 (with_packet pl s pk r) (rxm pl + 130) = c16 r (rxm pl + 130)"
    and "i < 8 \<Longrightarrow> c16 (with_packet pl s pk r) (rxm pl + 132 + 2 * i) = c16 r (rxm pl + 132 + 2 * i)"
    and "i < 8 \<Longrightarrow> c64 (with_packet pl s pk r) (rxm pl + 16 * i) = c64 r (rxm pl + 16 * i)"
    and "t < 8 \<Longrightarrow> c32 (with_packet pl s pk r) (rxm pl + 4100 + 8 * t) = (if t = s then s else c32 r (rxm pl + 4100 + 8 * t))"
    and "t < 8 \<Longrightarrow> c32 (with_packet pl s pk r) (rxm pl + 4104 + 8 * t)
      = (if t = s then 44 + length (snd pk) else c32 r (rxm pl + 4104 + 8 * t))"
proof -
  obtain hdr data where [simp]: "pk = (hdr, data)" by (cases pk)
  have len: "length hdr = 44" "length (hdr @ data) \<le> 4096" using pk by (simp_all add: wf_packet_def)
  let ?r1 = "mem_write r (rxb pl + 4096 * s) (hdr @ data)"
  note w1 = buffer_write(1) [OF pl s len(2), where r = r]
  have q: "k + 2 \<le> 8192 \<Longrightarrow> c16 ?r1 (rxm pl + k) = c16 r (rxm pl + k)"
    "k + 4 \<le> 8192 \<Longrightarrow> c32 ?r1 (rxm pl + k) = c32 r (rxm pl + k)"
    "k + 8 \<le> 8192 \<Longrightarrow> c64 ?r1 (rxm pl + k) = c64 r (rxm pl + k)" for k
    using w1 [of k] by (simp_all add: c16_def c32_def c64_def)
  have small: "s < 2 ^ 32" "44 + length data < 2 ^ 32" using s len by simp_all
  note w2 = push_used_cells [OF small, where r = ?r1 and q = "rxm pl", unfolded q(1) [of 4098, simplified] ix]
  show "c16 (with_packet pl s pk r) (rxm pl + 4098) = c16 r (rxm pl + 4098) + 1"
    and "c16 (with_packet pl s pk r) (rxm pl + 130) = c16 r (rxm pl + 130)"
    using w2(1,2) q(1) [of 130] by (simp_all add: with_packet_def len)
  show "i < 8 \<Longrightarrow> c16 (with_packet pl s pk r) (rxm pl + 132 + 2 * i) = c16 r (rxm pl + 132 + 2 * i)"
    and "i < 8 \<Longrightarrow> c64 (with_packet pl s pk r) (rxm pl + 16 * i) = c64 r (rxm pl + 16 * i)"
    using w2(3,4) [of i] q(1) [of "132 + 2 * i"] q(3) [of "16 * i"] by (simp_all add: with_packet_def len add.assoc)
  show "t < 8 \<Longrightarrow> c32 (with_packet pl s pk r) (rxm pl + 4100 + 8 * t) = (if t = s then s else c32 r (rxm pl + 4100 + 8 * t))"
    and "t < 8 \<Longrightarrow> c32 (with_packet pl s pk r) (rxm pl + 4104 + 8 * t)
      = (if t = s then 44 + length (snd pk) else c32 r (rxm pl + 4104 + 8 * t))"
    using w2(5,6) [of t] q(2) [of "4100 + 8 * t"] q(2) [of "4104 + 8 * t"] by (simp_all add: with_packet_def len add.assoc)
qed

lemma with_packet_arrived:
  assumes pl: "vs_placed pl" and s: "s < 8" and pk: "wf_packet pk" and ix: "unat (c16 r (rxm pl + 4098)) mod 8 = s"
  shows "arrived_at pl (with_packet pl s pk r) s = pk"
    and "t < 8 \<Longrightarrow> t \<noteq> s \<Longrightarrow> c32 r (rxm pl + 4104 + 8 * t) \<le> 4096 \<Longrightarrow>
      arrived_at pl (with_packet pl s pk r) t = arrived_at pl r t"
proof -
  obtain hdr data where [simp]: "pk = (hdr, data)" by (cases pk)
  have len: "length hdr = 44" "length data \<le> 4052" "length (hdr @ data) \<le> 4096" using pk by (simp_all add: wf_packet_def)
  let ?r1 = "mem_write r (rxb pl + 4096 * s) (hdr @ data)"
  have buf: "mem_read (with_packet pl s pk r) (rxb pl + k) w = mem_read ?r1 (rxb pl + k) w" if "k + w \<le> 32768" for k w
    unfolding with_packet_def
    by (simp, intro mem_read_cong push_used_outside placed_disjoint(2) [OF pl]) (use that in simp_all)
  have "4096 * s + 4096 \<le> 32768" using s by simp
  then show "arrived_at pl (with_packet pl s pk r) s = pk"
    using with_packet_cells(6) [OF pl s pk ix s] len buf [of "4096 * s" 44] buf [of "4096 * s + 44" "length data"]
    by (simp add: arrived_at_def add.assoc mem_read_write_inside slice_simps)
  assume t: "t < 8" "t \<noteq> s" and small: "c32 r (rxm pl + 4104 + 8 * t) \<le> 4096"
  have "4096 * t + 4096 \<le> 32768" using t(1) by simp
  then show "arrived_at pl (with_packet pl s pk r) t = arrived_at pl r t"
    using small t with_packet_cells(6) [OF pl s pk ix t(1)]
      buf [of "4096 * t" 44] buf [of "4096 * t + 44" "c32 r (rxm pl + 4104 + 8 * t) - 44"]
      buffer_write(2) [OF pl s len(3) t, of 0 44] buffer_write(2) [OF pl s len(3) t, of 44 "c32 r (rxm pl + 4104 + 8 * t) - 44"]
    by (simp add: arrived_at_def add.assoc)
qed

lemma with_packet_ok:
  assumes pl: "vs_placed pl" and ok: "rx_ok pl r lu n" and "n < 8" and pk: "wf_packet pk"
  defines "r' \<equiv> with_packet pl ((unat lu + n) mod 8) pk r"
  shows "rx_ok pl r' lu (Suc n) \<and> arrived pl r' lu (Suc n) = arrived pl r lu n @ [pk]"
proof -
  let ?s = "(unat lu + n) mod 8"
  have s8: "?s < 8" by simp
  have ix: "unat (c16 r (rxm pl + 4098)) mod 8 = ?s" using ok by (simp add: rx_ok_def slot_add)
  note c = with_packet_cells [OF pl s8 pk ix, folded r'_def] and a = with_packet_arrived [OF pl s8 pk ix, folded r'_def]
  have old: "(unat lu + j) mod 8 \<noteq> ?s" if "j < n" for j
    by (rule slots_differ) (use that \<open>n < 8\<close> in simp_all)
  have len: "c32 r (rxm pl + 4100 + 8 * ((unat lu + j) mod 8)) = (unat lu + j) mod 8
      \<and> 44 \<le> c32 r (rxm pl + 4104 + 8 * ((unat lu + j) mod 8))
      \<and> c32 r (rxm pl + 4104 + 8 * ((unat lu + j) mod 8)) \<le> 4096" if "j < n" for j
    using ok that by (simp add: rx_ok_def Let_def)
  have "length (snd pk) \<le> 4052" using pk by (simp add: wf_packet_def)
  then have new: "let s = (unat lu + j) mod 8 in c32 r' (rxm pl + 4100 + 8 * s) = s
      \<and> 44 \<le> c32 r' (rxm pl + 4104 + 8 * s) \<and> c32 r' (rxm pl + 4104 + 8 * s) \<le> 4096" if "j < Suc n" for j
    using that len [of j] old [of j] c(5,6) [of "(unat lu + j) mod 8"] by (cases "j = n") (simp_all add: Let_def)
  have "rx_ok pl r' lu (Suc n)"
    using ok \<open>n < 8\<close> new c(1-4) by (simp add: rx_ok_def)
  moreover have "arrived_at pl r' ((unat lu + j) mod 8) = arrived_at pl r ((unat lu + j) mod 8)" if "j < n" for j
    using a(2) [of "(unat lu + j) mod 8"] old [OF that] len [OF that] by simp
  ultimately show ?thesis using a(1) by (simp add: arrived_def)
qed

lemma deliver_puts:
  assumes ok: "rx_ok pl r lu n" and "n < 8" and seen: "rx_seen v = lu + of_nat n"
    and out: "outbox v = pk # rest"
  shows "deliver pl (v, r) = (v\<lparr>rx_seen := lu + of_nat (Suc n), outbox := rest\<rparr>, with_packet pl ((unat lu + n) mod 8) pk r)"
proof -
  let ?s = "(unat lu + n) mod 8"
  have ring: "c16 r (rxm pl + 132 + 2 * ?s) = of_nat ?s" "c64 r (rxm pl + 16 * ?s) = rxb pl + 4096 * ?s"
    using ok by (simp_all add: rx_ok_def)
  have "of_nat n \<noteq> (8 :: u16)"
    using \<open>n < 8\<close> by (auto dest: arg_cong [where f = unat] simp: unat_of_nat)
  then have free: "c16 r (rxm pl + 130) \<noteq> rx_seen v" using ok by (simp add: rx_ok_def seen)
  have d: "unat (c16 r (rxm pl + 132 + 2 * ?s)) = ?s" by (simp only: ring(1)) (simp add: unat_of_nat)
  have addr: "d_addr (desc_at r (rxm pl) ?s) = rxb pl + 4096 * ?s"
    using ring(2) by (simp add: desc_at_def c64_def)
  have slot: "unat (rx_seen v) mod 8 = ?s" "rx_seen v + 1 = lu + of_nat (Suc n)" by (simp_all add: seen slot_add)
  obtain hdr data where "pk = (hdr, data)" by (cases pk)
  with free show ?thesis
    by (simp only: deliver_def with_packet_def out prod.case list.case if_False slot d addr Let_def)
qed

lemma deliver_one:
  assumes pl: "vs_placed pl" and ok: "rx_ok pl r lu n" and "n < 8" and seen: "rx_seen v = lu + of_nat n"
    and out: "outbox v = (hdr, data) # rest" and hdr: "length hdr = 44" and data: "length data \<le> 4052"
  shows "\<exists>r'. deliver pl (v, r) = (v\<lparr>rx_seen := lu + of_nat (Suc n), outbox := rest\<rparr>, r')
    \<and> rx_ok pl r' lu (Suc n) \<and> arrived pl r' lu (Suc n) = arrived pl r lu n @ [(hdr, data)]
    \<and> (\<forall>x. (x < rxm pl \<or> rxm pl + 8192 \<le> x) \<and> (x < rxb pl \<or> rxb pl + 32768 \<le> x) \<longrightarrow> r' x = r x)"
proof -
  have pk: "wf_packet (hdr, data)" using hdr data by (simp add: wf_packet_def)
  show ?thesis
    using deliver_puts [OF ok \<open>n < 8\<close> seen out] with_packet_ok [OF pl ok \<open>n < 8\<close> pk]
      with_packet_outside [OF pl _ pk] by fastforce
qed

text \<open>Any number of deliveries: the packets to come stay the same list.\<close>

definition front_ok :: "place \<Rightarrow> u16 \<Rightarrow> 'h vdev \<Rightarrow> ram \<Rightarrow> nat \<Rightarrow> bool" where
  "front_ok pl lu v r n \<longleftrightarrow> rx_ok pl r lu n \<and> rx_seen v = lu + of_nat n \<and> list_all wf_packet (outbox v)"

definition outside_rx :: "place \<Rightarrow> ram \<Rightarrow> ram \<Rightarrow> bool" where
  "outside_rx pl r r' \<longleftrightarrow>
     (\<forall>x. (x < rxm pl \<or> rxm pl + 8192 \<le> x) \<and> (x < rxb pl \<or> rxb pl + 32768 \<le> x) \<longrightarrow> r' x = r x)"

definition delivered :: "place \<Rightarrow> u16 \<Rightarrow> 'h vdev \<Rightarrow> ram \<Rightarrow> nat \<Rightarrow> 'h vdev \<Rightarrow> ram \<Rightarrow> nat \<Rightarrow> bool" where
  "delivered pl lu v r n v' r' n' \<longleftrightarrow>
     front_ok pl lu v' r' n' \<and> arrived pl r' lu n' @ outbox v' = arrived pl r lu n @ outbox v
     \<and> peer_state v' = peer_state v \<and> tx_seen v' = tx_seen v \<and> outside_rx pl r r' \<and> n \<le> n'"

lemma delivered_refl: "front_ok pl lu v r n \<Longrightarrow> delivered pl lu v r n v r n"
  by (simp add: delivered_def outside_rx_def)

lemma delivered_trans:
  "delivered pl lu v r n v' r' n' \<Longrightarrow> delivered pl lu v' r' n' v'' r'' n'' \<Longrightarrow> delivered pl lu v r n v'' r'' n''"
  by (simp add: delivered_def outside_rx_def)

lemma deliver_keeps:
  assumes pl: "vs_placed pl" and ok: "front_ok pl lu v r n"
  shows "\<exists>v' r' n'. deliver pl (v, r) = (v', r') \<and> delivered pl lu v r n v' r' n'
    \<and> (n = 0 \<and> outbox v \<noteq> [] \<longrightarrow> 0 < n')"
proof (cases "outbox v")
  case Nil
  then have "deliver pl (v, r) = (v, r)" by (simp add: deliver_def)
  with delivered_refl [OF ok] Nil show ?thesis by blast
next
  case (Cons pk rest)
  obtain hdr data where pk: "pk = (hdr, data)" by (cases pk)
  have wf: "length hdr = 44" "length data \<le> 4052" "list_all wf_packet rest"
    using ok Cons pk by (simp_all add: front_ok_def wf_packet_def)
  show ?thesis
  proof (cases "n < 8")
    case True
    from deliver_one [OF pl _ True _ Cons [unfolded pk] wf(1,2), of r lu] ok
    obtain r' where r': "deliver pl (v, r) = (v\<lparr>rx_seen := lu + of_nat (Suc n), outbox := rest\<rparr>, r')"
      "rx_ok pl r' lu (Suc n)" "arrived pl r' lu (Suc n) = arrived pl r lu n @ [(hdr, data)]" "outside_rx pl r r'"
      unfolding front_ok_def outside_rx_def by blast
    have "delivered pl lu v r n (v\<lparr>rx_seen := lu + of_nat (Suc n), outbox := rest\<rparr>) r' (Suc n)"
      using r'(2-4) wf(3) by (simp add: delivered_def front_ok_def Cons pk del: of_nat_Suc)
    with r'(1) show ?thesis by blast
  next
    case False
    then have n: "n = 8" using ok by (simp add: front_ok_def rx_ok_def)
    then have "deliver pl (v, r) = (v, r)"
      using ok by (simp add: deliver_def Cons pk front_ok_def rx_ok_def)
    with delivered_refl [OF ok] n show ?thesis
      by (intro exI [of _ v] exI [of _ r] exI [of _ n]) simp
  qed
qed

lemma deliveries:
  assumes pl: "vs_placed pl" and ok: "front_ok pl lu v r n"
  shows "\<exists>v' r' n'. (deliver pl ^^ k) (v, r) = (v', r') \<and> delivered pl lu v r n v' r' n'
    \<and> (0 < k \<and> n = 0 \<and> outbox v \<noteq> [] \<longrightarrow> 0 < n')"
proof (induction k)
  case 0
  show ?case using delivered_refl [OF ok] by (intro exI [of _ v] exI [of _ r] exI [of _ n]) simp
next
  case (Suc k)
  then obtain v1 r1 n1 where 1: "(deliver pl ^^ k) (v, r) = (v1, r1)" "delivered pl lu v r n v1 r1 n1"
    "0 < k \<and> n = 0 \<and> outbox v \<noteq> [] \<longrightarrow> 0 < n1" by blast
  have "front_ok pl lu v1 r1 n1" using 1(2) by (simp add: delivered_def)
  from deliver_keeps [OF pl this] obtain v2 r2 n2 where 2: "deliver pl (v1, r1) = (v2, r2)"
    "delivered pl lu v1 r1 n1 v2 r2 n2" "n1 = 0 \<and> outbox v1 \<noteq> [] \<longrightarrow> 0 < n2" by blast
  have "n1 \<le> n2" using 2(2) by (simp add: delivered_def)
  moreover have "n = 0 \<Longrightarrow> n1 = 0 \<Longrightarrow> outbox v1 = outbox v" using 1(2) by (simp add: delivered_def arrived_def)
  ultimately have "n = 0 \<and> outbox v \<noteq> [] \<longrightarrow> 0 < n2" using 2(3) by (cases "n1 = 0") auto
  with 1(1) 2(1) delivered_trans [OF 1(2) 2(2)] show ?case by auto
qed

section \<open>One packet is taken\<close>

text \<open>The driver gives the descriptor back in the slot it took it from.\<close>

definition recycled :: "place \<Rightarrow> u16 \<Rightarrow> ram \<Rightarrow> ram" where
  "recycled pl lu r =
     mem_write (mem_write r (rxm pl + 132 + 2 * (unat lu mod 8)) (to_le16 (of_nat (unat lu mod 8))))
       (rxm pl + 130) (to_le16 (lu + 9))"

lemma recycled_cells:
  "c16 (recycled pl lu r) (rxm pl + 130) = lu + 9"
  "c16 (recycled pl lu r) (rxm pl + 4098) = c16 r (rxm pl + 4098)"
  "i < 8 \<Longrightarrow> c16 (recycled pl lu r) (rxm pl + 132 + 2 * i)
     = (if i = unat lu mod 8 then of_nat i else c16 r (rxm pl + 132 + 2 * i))"
  "i < 8 \<Longrightarrow> c64 (recycled pl lu r) (rxm pl + 16 * i) = c64 r (rxm pl + 16 * i)"
  "c32 (recycled pl lu r) (rxm pl + 4100 + 8 * i) = c32 r (rxm pl + 4100 + 8 * i)"
  "c32 (recycled pl lu r) (rxm pl + 4104 + 8 * i) = c32 r (rxm pl + 4104 + 8 * i)"
proof -
  obtain t where t: "unat lu mod 8 = t" "t < 8" by simp
  show "c16 (recycled pl lu r) (rxm pl + 130) = lu + 9" by (simp add: recycled_def)
  show "c16 (recycled pl lu r) (rxm pl + 4098) = c16 r (rxm pl + 4098)"
    "c32 (recycled pl lu r) (rxm pl + 4100 + 8 * i) = c32 r (rxm pl + 4100 + 8 * i)"
    "c32 (recycled pl lu r) (rxm pl + 4104 + 8 * i) = c32 r (rxm pl + 4104 + 8 * i)"
    using t(2) by (simp_all add: recycled_def t(1) c_other)
  show "i < 8 \<Longrightarrow> c64 (recycled pl lu r) (rxm pl + 16 * i) = c64 r (rxm pl + 16 * i)"
    by (simp add: recycled_def t(1) c_other)
  show "i < 8 \<Longrightarrow> c16 (recycled pl lu r) (rxm pl + 132 + 2 * i)
     = (if i = unat lu mod 8 then of_nat i else c16 r (rxm pl + 132 + 2 * i))"
    by (cases i t rule: linorder_cases) (simp_all add: recycled_def t(1) c_other)
qed

lemma recycled_outside: "x < rxm pl \<or> rxm pl + 8192 \<le> x \<Longrightarrow> recycled pl lu r x = r x"
proof -
  assume x: "x < rxm pl \<or> rxm pl + 8192 \<le> x"
  obtain t where t: "unat lu mod 8 = t" "t < 8" by simp
  with x show ?thesis by (elim disjE) (simp_all add: recycled_def mem_write_outside)
qed

lemma consume_one:
  assumes pl: "vs_placed pl" and ok: "rx_ok pl r lu (Suc n)"
  shows "rx_ok pl (recycled pl lu r) (lu + 1) n"
    and "arrived pl r lu (Suc n) = arrived_at pl r (unat lu mod 8) # arrived pl (recycled pl lu r) (lu + 1) n"
proof -
  let ?r = "recycled pl lu r"
  have slot: "(unat (lu + 1) + j) mod 8 = (unat lu + Suc j) mod 8" for j
    using slot_add [of lu 1] mod_add_left_eq [of "unat (lu + 1)" 8 j] mod_add_left_eq [of "unat lu + 1" 8 j] by simp
  show "rx_ok pl ?r (lu + 1) n"
    unfolding rx_ok_def recycled_cells
  proof (intro conjI allI impI)
    show "n \<le> 8" "c16 r (rxm pl + 4098) = lu + 1 + of_nat n"
      using ok by (simp_all add: rx_ok_def)
    show "lu + 9 = lu + 1 + 8" by simp
    fix i :: nat
    assume "i < 8"
    then show "c16 ?r (rxm pl + 132 + 2 * i) = of_nat i" "c64 ?r (rxm pl + 16 * i) = rxb pl + 4096 * i"
      using ok by (simp_all add: rx_ok_def recycled_cells)
  next
    fix j assume "j < n"
    then show "let s = (unat (lu + 1) + j) mod 8 in c32 r (rxm pl + 4100 + 8 * s) = s
        \<and> 44 \<le> c32 r (rxm pl + 4104 + 8 * s) \<and> c32 r (rxm pl + 4104 + 8 * s) \<le> 4096"
      using ok unfolding slot rx_ok_def by (metis Suc_mono)
  qed
  have at: "arrived_at pl ?r s = arrived_at pl r s" if "s < 8" "c32 r (rxm pl + 4104 + 8 * s) \<le> 4096" for s
  proof -
    have same: "mem_read ?r (rxb pl + k) w = mem_read r (rxb pl + k) w" if "k + w \<le> 32768" for k w
      by (intro mem_read_cong recycled_outside placed_disjoint(2) [OF pl]) (use that in simp_all)
    have "4096 * s + 4096 \<le> 32768" using that(1) by simp
    then show ?thesis
      unfolding arrived_at_def recycled_cells
      using same [of "4096 * s" 44] same [of "4096 * s + 44" "c32 r (rxm pl + 4104 + 8 * s) - 44"] that(2)
      by (simp add: add.assoc)
  qed
  have "c32 r (rxm pl + 4104 + 8 * ((unat lu + Suc j) mod 8)) \<le> 4096" if "j < n" for j
    using ok that unfolding rx_ok_def Let_def by (metis Suc_mono)
  then have "arrived_at pl ?r ((unat lu + Suc j) mod 8) = arrived_at pl r ((unat lu + Suc j) mod 8)" if "j < n" for j
    using that by (intro at) simp_all
  then show "arrived pl r lu (Suc n) = arrived_at pl r (unat lu mod 8) # arrived pl ?r (lu + 1) n"
    unfolding arrived_def by (simp add: upt_conv_Cons slot map_Suc_upt [symmetric] del: upt_Suc)
qed

section \<open>The invariant of the link\<close>

definition vs_ready :: "place \<Rightarrow> vsock \<Rightarrow> bool" where
  "vs_ready pl d \<longleftrightarrow>
     rx_mem d = rxm pl \<and> rx_bufs d = rxb pl \<and> tx_mem d = txm pl \<and> tx_bufs d = txb pl
     \<and> (\<forall>p. notify_addr p (notify_base d) (rx_notify_off d) (notify_mult d) = Some (rxn pl))
     \<and> (\<forall>p. notify_addr p (notify_base d) (tx_notify_off d) (notify_mult d) = Some (txn pl))
     \<and> rx_next_avail d = rx_last_used d + 8"

definition fresh :: "place \<Rightarrow> vsock \<times> 'd machine \<Rightarrow> nat" where
  "fresh pl = (\<lambda>(d, m). unat (c16 (ram m) (rxm pl + 4098) - rx_last_used d))"

definition vs_inv :: "('d \<Rightarrow> 'h vdev) \<Rightarrow> place \<Rightarrow> vsock \<times> 'd machine \<Rightarrow> bool" where
  "vs_inv view pl = (\<lambda>(d, m).
     vs_ready pl d \<and> front_ok pl (rx_last_used d) (view (dev m)) (ram m) (fresh pl (d, m))
     \<and> tx_seen (view (dev m)) = tx_next_avail d \<and> c16 (ram m) (txm pl + 130) = tx_next_avail d)"

definition vs_inbox :: "('d \<Rightarrow> 'h vdev) \<Rightarrow> place \<Rightarrow> vsock \<times> 'd machine \<Rightarrow> packet list" where
  "vs_inbox view pl = (\<lambda>(d, m).
     arrived pl (ram m) (rx_last_used d) (fresh pl (d, m)) @ outbox (view (dev m)))"

definition vs_peer :: "('d \<Rightarrow> 'h vdev) \<Rightarrow> vsock \<times> 'd machine \<Rightarrow> 'h" where
  "vs_peer view = (\<lambda>(d, m). peer_state (view (dev m)))"

text \<open>Empty polls still to come before the device moves; none when a packet is there.\<close>

definition vs_lag :: "('d \<Rightarrow> nat) \<Rightarrow> place \<Rightarrow> vsock \<times> 'd machine \<Rightarrow> nat" where
  "vs_lag wait pl = (\<lambda>(d, m). wait (dev m))"

lemma front_fresh:
  assumes "front_ok pl lu v r n"
  shows "unat (c16 r (rxm pl + 4098) - lu) = n"
proof -
  have "n \<le> 8" "c16 r (rxm pl + 4098) = lu + of_nat n" using assms by (simp_all add: front_ok_def rx_ok_def)
  then show ?thesis by (simp add: unat_of_nat)
qed

text \<open>Taking a packet out of memory, up to the doorbell: the driver's cells and its counter.\<close>

lemma try_recv_takes:
  fixes d :: vsock and m :: "'d machine"
  assumes rdy: "vs_ready pl d" and rx: "rx_ok pl (ram m) (rx_last_used d) (Suc n)"
    and idx: "c16 (ram m) (rxm pl + 4098) \<noteq> rx_last_used d"
    and fwd: "unat (fwd_cnt d) + length (snd (arrived_at pl (ram m) (unat (rx_last_used d) mod 8))) < 2 ^ 32"
  defines "pk \<equiv> arrived_at pl (ram m) (unat (rx_last_used d) mod 8)"
  shows "\<exists>f. unat f = unat (fwd_cnt d) + length (snd pk) \<and> (\<forall>(hw :: 'd hw) m0. sync hw m0 = m \<longrightarrow>
    try_recv p hw (d, m0) = Some (Some (hdr_op (fst pk), snd pk),
      d\<lparr>rx_last_used := rx_last_used d + 1, fwd_cnt := f, rx_next_avail := rx_next_avail d + 1\<rparr>,
      mm16w hw (rxn pl) QUEUE_RX (m\<lparr>ram := recycled pl (rx_last_used d) (ram m)\<rparr>)))"
proof -
  let ?lu = "rx_last_used d"
  define s where "s = unat ?lu mod 8"
  have e: "c32 (ram m) (rxm pl + 4100 + 8 * s) = s" "44 \<le> c32 (ram m) (rxm pl + 4104 + 8 * s)"
    "c32 (ram m) (rxm pl + 4104 + 8 * s) \<le> 4096"
    using rx by (auto simp: rx_ok_def Let_def s_def dest: spec [of _ 0])
  define n' where "n' = c32 (ram m) (rxm pl + 4104 + 8 * s) - 44"
  have pk: "pk = (mem_read (ram m) (rxb pl + 4096 * s) 44, mem_read (ram m) (rxb pl + 4096 * s + 44) n')"
    by (simp add: pk_def arrived_at_def s_def n'_def)
  define f where "f = (if 0 < n' then fwd_cnt d + of_nat n' else fwd_cnt d)"
  have "n' < 2 ^ 32" "unat (fwd_cnt d) + n' < 2 ^ 32" using e(3) fwd pk by (simp_all add: pk_def n'_def)
  then have f: "unat f = unat (fwd_cnt d) + n'" "0 < n' \<Longrightarrow> add_ovf p (fwd_cnt d) (of_nat n') = Some f"
    using add_ovf_exact [of "fwd_cnt d" "of_nat n'"] by (simp_all add: f_def unat_of_nat)
  have at: "rx_mem d = rxm pl" "rx_bufs d = rxb pl" "QUEUE_SIZE = 8" "VS_BUF_SIZE = 4096" "HDR_SIZE = 44"
    "notify_addr p (notify_base d) (rx_notify_off d) (notify_mult d) = Some (rxn pl)"
    using rdy by (simp_all add: vs_ready_def QUEUE_SIZE_def VS_BUF_SIZE_def HDR_SIZE_def)
  have next_slot: "unat (rx_next_avail d) mod 8 = s"
    using rdy slot_add [of ?lu 8] by (simp add: vs_ready_def s_def)
  have mem: "wr16 (rxm pl + 130) (rx_next_avail d + 1) (wr16 (rxm pl + 132 + s * 2) (of_nat s) m)
      = m\<lparr>ram := recycled pl ?lu (ram m)\<rparr>"
    using rdy by (simp add: wr16_def wr_bytes_def recycled_def s_def vs_ready_def mult.commute add.commute)
  have u: "rd16 (used_idx (rxm pl) QUEUE_SIZE) m \<noteq> ?lu" using idx by (simp add: vs_cells rd16_def c16_def)
  have cell: "unat (rd32 (rxm pl + 4100 + s * 8) m) = s" "unat (rd32 (rxm pl + 4104 + s * 8) m) = n' + 44"
    using e by (simp_all add: rd32_def c32_def n'_def mult.commute)
  have op: "read_op (rxb pl + s * 4096) m = hdr_op (fst pk)" "snd pk = mem_read (ram m) (rxb pl + s * 4096 + 44) n'"
    by (simp_all add: read_op_def rd16_def hdr_op_def parse_hdr_def pk mem_read_bslice mult.commute)
  note simps = at s_def [symmetric] cell op vs_cells [unfolded at(3)] next_slot mem
  have "try_recv p hw (d, m0) = Some (Some (hdr_op (fst pk), snd pk),
      d\<lparr>rx_last_used := ?lu + 1, fwd_cnt := f, rx_next_avail := rx_next_avail d + 1\<rparr>,
      mm16w hw (rxn pl) QUEUE_RX (m\<lparr>ram := recycled pl ?lu (ram m)\<rparr>))"
    if sy: "sync hw m0 = m" for hw :: "'d hw" and m0
    unfolding try_recv_def prod.case sy at(1,2) Let_def if_not_P [OF u]
    by (cases "0 < n'") (simp_all add: simps f(2), simp add: f_def)
  then show ?thesis using f(1) pk by auto
qed

locale virtio_vsock =
  fixes p :: profile and hw :: "'d hw" and view :: "'d \<Rightarrow> 'h vdev" and wait :: "'d \<Rightarrow> nat" and D :: nat
    and pl :: place and react :: "'h \<Rightarrow> packet \<Rightarrow> 'h \<times> packet list"
  assumes conforming: "vs_conforming hw view wait D pl react"
    and placed: "vs_placed pl"
    and well_formed: "list_all wf_packet (snd (react h pk))"
begin

lemma tx_kept: "outside_rx pl r r' \<Longrightarrow> c16 r' (txm pl + 130) = c16 r (txm pl + 130)"
proof -
  assume o: "outside_rx pl r r'"
  have "r' x = r x" if "txm pl + 130 \<le> x" "x < txm pl + 132" for x
    using o that placed by (auto simp: outside_rx_def vs_placed_def apart_def)
  then have "mem_read r' (txm pl + 130) 2 = mem_read r (txm pl + 130) 2" by (intro mem_read_cong) simp
  then show ?thesis by (simp add: c16_def)
qed

text \<open>The device runs, in a poll or after the driver has returned a buffer.\<close>

lemma device_runs:
  assumes inv: "vs_inv view pl (d, m)"
    and run: "(view (dev m'), ram m') = (deliver pl ^^ k) (view (dev m), ram m)"
  shows "vs_inv view pl (d, m')" and "vs_inbox view pl (d, m') = vs_inbox view pl (d, m)"
    and "vs_peer view (d, m') = vs_peer view (d, m)"
    and "0 < k \<Longrightarrow> fresh pl (d, m) = 0 \<Longrightarrow> outbox (view (dev m)) \<noteq> [] \<Longrightarrow> 0 < fresh pl (d, m')"
    and "fresh pl (d, m) \<le> fresh pl (d, m')"
proof -
  have ok: "front_ok pl (rx_last_used d) (view (dev m)) (ram m) (fresh pl (d, m))"
    using inv by (simp add: vs_inv_def)
  obtain v' r' n' where "(deliver pl ^^ k) (view (dev m), ram m) = (v', r')"
    "delivered pl (rx_last_used d) (view (dev m)) (ram m) (fresh pl (d, m)) v' r' n'"
    and pos: "0 < k \<and> fresh pl (d, m) = 0 \<and> outbox (view (dev m)) \<noteq> [] \<longrightarrow> 0 < n'"
    using deliveries [OF placed ok, of k] by blast
  with run have del: "delivered pl (rx_last_used d) (view (dev m)) (ram m) (fresh pl (d, m)) (view (dev m')) (ram m') n'"
    by simp
  have n': "fresh pl (d, m') = n'" using del front_fresh by (fastforce simp: fresh_def delivered_def)
  show "vs_inv view pl (d, m')"
    using inv del tx_kept [of "ram m" "ram m'"] by (simp add: vs_inv_def n' delivered_def)
  show "vs_inbox view pl (d, m') = vs_inbox view pl (d, m)"
    using del by (simp add: vs_inbox_def n' delivered_def)
  show "vs_peer view (d, m') = vs_peer view (d, m)"
    using del by (simp add: vs_peer_def delivered_def)
  show "0 < k \<Longrightarrow> fresh pl (d, m) = 0 \<Longrightarrow> outbox (view (dev m)) \<noteq> [] \<Longrightarrow> 0 < fresh pl (d, m')"
    using pos by (simp add: n')
  show "fresh pl (d, m) \<le> fresh pl (d, m')" using del by (simp add: n' delivered_def)
qed

text \<open>The invariant after a packet has been taken out of memory and its buffer given back.\<close>

lemma taken:
  assumes inv: "vs_inv view pl (d, m)" and "fresh pl (d, m) = Suc n"
    and fwd: "unat (fwd_cnt d) + length (snd (arrived_at pl (ram m) (unat (rx_last_used d) mod 8))) < 2 ^ 32"
  defines "pk \<equiv> arrived_at pl (ram m) (unat (rx_last_used d) mod 8)"
  shows "\<exists>d' m'. (\<forall>hw' m0. sync hw' m0 = m \<longrightarrow> try_recv p hw' (d, m0)
        = Some (Some (hdr_op (fst pk), snd pk), d', mm16w hw' (rxn pl) QUEUE_RX m'))
    \<and> vs_inv view pl (d', m') \<and> vs_inbox view pl (d, m) = pk # vs_inbox view pl (d', m')
    \<and> vs_peer view (d', m') = vs_peer view (d, m) \<and> dev m' = dev m
    \<and> unat (fwd_cnt d') = unat (fwd_cnt d) + length (snd pk)"
proof -
  let ?lu = "rx_last_used d"
  have rdy: "vs_ready pl d" and rx: "rx_ok pl (ram m) ?lu (Suc n)"
    and seen: "rx_seen (view (dev m)) = ?lu + of_nat (Suc n)" and wf: "list_all wf_packet (outbox (view (dev m)))"
    using inv assms(2) by (simp_all add: vs_inv_def front_ok_def del: of_nat_Suc)
  have idx: "c16 (ram m) (rxm pl + 4098) \<noteq> ?lu" using assms(2) by (auto simp: fresh_def)
  let ?m = "m\<lparr>ram := recycled pl ?lu (ram m)\<rparr>"
  obtain f where f: "unat f = unat (fwd_cnt d) + length (snd pk)"
    and tr: "\<forall>(hw' :: 'd hw) m0. sync hw' m0 = m \<longrightarrow> try_recv p hw' (d, m0) = Some (Some (hdr_op (fst pk), snd pk),
      d\<lparr>rx_last_used := ?lu + 1, fwd_cnt := f, rx_next_avail := rx_next_avail d + 1\<rparr>, mm16w hw' (rxn pl) QUEUE_RX ?m)"
    using try_recv_takes [OF rdy rx idx fwd, of p] unfolding pk_def by blast
  let ?d = "d\<lparr>rx_last_used := ?lu + 1, fwd_cnt := f, rx_next_avail := rx_next_avail d + 1\<rparr>"
  have cons: "rx_ok pl (recycled pl ?lu (ram m)) (?lu + 1) n"
    "arrived pl (ram m) ?lu (Suc n) = pk # arrived pl (recycled pl ?lu (ram m)) (?lu + 1) n"
    using consume_one [OF placed rx] by (simp_all add: pk_def)
  have fr: "front_ok pl (?lu + 1) (view (dev m)) (recycled pl ?lu (ram m)) n"
    using cons(1) seen wf by (simp add: front_ok_def)
  have fn: "fresh pl (?d, ?m) = n" using front_fresh [OF fr] by (simp add: fresh_def)
  have tx: "c16 (recycled pl ?lu (ram m)) (txm pl + 130) = c16 (ram m) (txm pl + 130)"
    by (rule tx_kept) (simp add: outside_rx_def recycled_outside)
  have "vs_inv view pl (?d, ?m)"
    unfolding vs_inv_def prod.case fn using inv fr tx rdy by (simp add: vs_inv_def vs_ready_def)
  moreover have "vs_inbox view pl (d, m) = pk # vs_inbox view pl (?d, ?m)"
    by (simp add: vs_inbox_def fn assms(2) cons(2))
  moreover have "vs_peer view (?d, ?m) = vs_peer view (d, m)" by (simp add: vs_peer_def)
  ultimately show ?thesis using tr f by (intro exI [of _ ?d] exI [of _ ?m]) simp
qed

lemma poll_law:
  assumes inv: "vs_inv view pl s" and tr: "traffic (fst s) (vs_inbox view pl s) < 2 ^ 32"
  shows "\<exists>r s'. try_recv p hw s = Some (r, s') \<and> vs_inv view pl s' \<and> vs_peer view s' = vs_peer view s \<and>
    (case r of
       None \<Rightarrow> vs_inbox view pl s' = vs_inbox view pl s \<and> fwd_cnt (fst s') = fwd_cnt (fst s)
         \<and> (vs_inbox view pl s \<noteq> [] \<longrightarrow> vs_lag wait pl s' < vs_lag wait pl s)
     | Some (op, data) \<Rightarrow> \<exists>hdr. vs_inbox view pl s = (hdr, data) # vs_inbox view pl s' \<and> op = hdr_op hdr
         \<and> unat (fwd_cnt (fst s')) = unat (fwd_cnt (fst s)) + length data)"
proof -
  obtain d m where s: "s = (d, m)" by (cases s)
  let ?m = "sync hw m"
  obtain k where k: "(view (dev ?m), ram ?m) = (deliver pl ^^ k) (view (dev m), ram m)"
    "k = 0 \<and> outbox (view (dev m)) \<noteq> [] \<longrightarrow> wait (dev ?m) < wait (dev m)"
    using conforming unfolding vs_conforming_def by blast
  note run = device_runs [OF inv [unfolded s] k(1)]
  have mem: "rd16 (used_idx (rx_mem d) QUEUE_SIZE) ?m = c16 (ram ?m) (rxm pl + 4098)"
    using inv by (simp add: s vs_inv_def vs_ready_def vs_cells rd16_def c16_def)
  show ?thesis
  proof (cases "fresh pl (d, ?m)")
    case 0
    then have "c16 (ram ?m) (rxm pl + 4098) = rx_last_used d"
      by (simp add: fresh_def) (metis eq_iff_diff_eq_0 unat_eq_zero)
    then have "try_recv p hw s = Some (None, d, ?m)" by (simp add: s try_recv_def mem)
    moreover have "wait (dev ?m) < wait (dev m)" if "vs_inbox view pl (d, m) \<noteq> []"
    proof -
      have "fresh pl (d, m) = 0" using run(5) 0 by simp
      with that have "outbox (view (dev m)) \<noteq> []" by (simp add: vs_inbox_def arrived_def)
      with run(4) 0 \<open>fresh pl (d, m) = 0\<close> k(2) show ?thesis by (cases k) auto
    qed
    ultimately show ?thesis using run(1-3) by (simp add: s vs_lag_def)
  next
    case (Suc n)
    let ?pk = "arrived_at pl (ram ?m) (unat (rx_last_used d) mod 8)"
    have rx: "rx_ok pl (ram ?m) (rx_last_used d) (Suc n)"
      using run(1) Suc by (simp add: vs_inv_def front_ok_def)
    have "vs_inbox view pl (d, m) = ?pk # arrived pl (recycled pl (rx_last_used d) (ram ?m)) (rx_last_used d + 1) n
        @ outbox (view (dev ?m))"
      using run(2) consume_one(2) [OF placed rx] by (simp add: vs_inbox_def Suc)
    then have fwd: "unat (fwd_cnt d) + length (snd ?pk) < 2 ^ 32" using tr by (simp add: s traffic_def)
    obtain d' m' where t: "try_recv p hw (d, m)
        = Some (Some (hdr_op (fst ?pk), snd ?pk), d', mm16w hw (rxn pl) QUEUE_RX m')"
      "vs_inv view pl (d', m')" "vs_inbox view pl (d, ?m) = ?pk # vs_inbox view pl (d', m')"
      "vs_peer view (d', m') = vs_peer view (d, ?m)" "unat (fwd_cnt d') = unat (fwd_cnt d) + length (snd ?pk)"
      using taken [OF run(1) Suc fwd] by blast
    let ?m' = "mm16w hw (rxn pl) QUEUE_RX m'"
    obtain k' where "(view (dev ?m'), ram ?m') = (deliver pl ^^ k') (view (dev m'), ram m')"
      using conforming unfolding vs_conforming_def Let_def by blast
    note run' = device_runs [OF t(2) this]
    show ?thesis
      using t run run' by (intro exI [of _ "Some (hdr_op (fst ?pk), snd ?pk)"] exI [of _ "(d', ?m')"])
        (auto simp: s intro!: exI [of _ "fst ?pk"])
  qed
qed

end

section \<open>One packet is sent\<close>

lemma vs_desc_write_here:
  "desc_at (ram (vs_desc_write q i addr len flags m)) q i =
     \<lparr>d_addr = unat addr, d_len = unat len, d_flags = flags, d_next = 0\<rparr>"
  by (simp add: desc_at_def vs_desc_write_def Let_def mem_simps mult.commute)

lemma vs_desc_write_outside:
  "x < q + 16 * i \<or> q + 16 * i + 16 \<le> x \<Longrightarrow> ram (vs_desc_write q i addr len flags m) x = ram m x"
  by (elim disjE) (simp_all add: vs_desc_write_def Let_def mem_write_outside mult.commute)

text \<open>The transmit area before the doorbell.\<close>

definition staged :: "place \<Rightarrow> u16 \<Rightarrow> bytes \<Rightarrow> bytes \<Rightarrow> 'd machine \<Rightarrow> 'd machine" where
  "staged pl nx hdr data m =
     (let t = unat nx mod 8; buf = txb pl + t * 4096;
          m = wr_bytes buf hdr m;
          m = (if data \<noteq> [] then wr_bytes (buf + 44) data m else m);
          m = vs_desc_write (txm pl) t (of_nat buf) (of_nat (44 + length data)) 0 m;
          m = wr16 (txm pl + 132 + t * 2) (of_nat t) m
      in wr16 (txm pl + 130) (nx + 1) m)"

lemma vs_staged_memory:
  fixes m :: "'d machine" and nx :: u16 and hdr data :: bytes
  assumes pl: "vs_placed pl" and hdr: "length hdr = 44" and data: "length data \<le> 4052"
  defines "r \<equiv> ram (staged pl nx hdr data m)" and "t \<equiv> unat nx mod 8"
  shows "c16 r (txm pl + 130) = nx + 1" and "c16 r (txm pl + 132 + 2 * t) = of_nat t"
    and "desc_at r (txm pl) t = \<lparr>d_addr = txb pl + 4096 * t, d_len = 44 + length data, d_flags = 0, d_next = 0\<rparr>"
    and "mem_read r (txb pl + 4096 * t) (44 + length data) = hdr @ data"
    and "(x < txm pl \<or> txm pl + 8192 \<le> x) \<and> (x < txb pl \<or> txb pl + 32768 \<le> x) \<Longrightarrow> r x = ram m x"
proof -
  have t8: "t < 8" by (simp add: t_def)
  let ?buf = "txb pl + 4096 * t"
  define m1 where "m1 = (if data \<noteq> [] then wr_bytes (?buf + 44) data (wr_bytes ?buf hdr m) else wr_bytes ?buf hdr m)"
  define m2 where "m2 = vs_desc_write (txm pl) t (of_nat ?buf) (of_nat (44 + length data)) 0 m1"
  have r: "r = mem_write (mem_write (ram m2) (txm pl + 132 + 2 * t) (to_le16 (of_nat t))) (txm pl + 130) (to_le16 (nx + 1))"
    by (simp add: r_def staged_def Let_def m1_def m2_def t_def mult.commute)
  show "c16 r (txm pl + 130) = nx + 1" "c16 r (txm pl + 132 + 2 * t) = of_nat t"
    by (simp_all add: r c_other)
  have r_out: "r x = ram m2 x" if "x < txm pl + 130 \<or> txm pl + 148 \<le> x" for x
    using that t8 by (elim disjE) (simp_all add: r mem_write_outside)
  have m2_out: "ram m2 x = ram m1 x" if "x < txm pl \<or> txm pl + 128 \<le> x" for x
    unfolding m2_def by (rule vs_desc_write_outside) (use that t8 in linarith)
  have "desc_at r (txm pl) t = desc_at (ram m2) (txm pl) t"
    by (rule desc_at_cong, rule r_out) (use t8 in linarith)
  moreover have "unat (of_nat ?buf :: u64) = ?buf" "unat (of_nat (44 + length data) :: u32) = 44 + length data"
    using pl t8 data by (intro of_nat_inverse; simp add: vs_placed_def)+
  ultimately show "desc_at r (txm pl) t = \<lparr>d_addr = ?buf, d_len = 44 + length data, d_flags = 0, d_next = 0\<rparr>"
    by (simp only: m2_def vs_desc_write_here)
  have "mem_read (ram m1) ?buf (44 + length data) = hdr @ data"
    using hdr by (simp add: m1_def mem_read_append mem_simps)
  moreover have "mem_read r ?buf (44 + length data) = mem_read (ram m1) ?buf (44 + length data)"
  proof (rule mem_read_cong)
    fix x assume "?buf \<le> x" "x < ?buf + (44 + length data)"
    then have "txb pl \<le> x" "x < txb pl + 32768" using t8 data by simp_all
    then have "x < txm pl \<or> txm pl + 8192 \<le> x" using pl by (auto simp: vs_placed_def apart_def)
    then show "r x = ram m1 x" using r_out [of x] m2_out [of x] by auto
  qed
  ultimately show "mem_read r ?buf (44 + length data) = hdr @ data" by simp
  assume x: "(x < txm pl \<or> txm pl + 8192 \<le> x) \<and> (x < txb pl \<or> txb pl + 32768 \<le> x)"
  then have "r x = ram m1 x" using r_out [of x] m2_out [of x] by auto
  moreover have "ram m1 x = ram m x"
  proof -
    have "x < ?buf \<or> ?buf + 44 + length data \<le> x" using x t8 data by linarith
    then show ?thesis using hdr by (elim disjE) (simp_all add: m1_def mem_write_outside)
  qed
  ultimately show "r x = ram m x" by simp
qed

lemma send_raw_staged:
  assumes "vs_ready pl d" and "length data \<le> 4052"
  shows "send_raw p hw hdr data (d, m) = Some (d\<lparr>tx_next_avail := tx_next_avail d + 1\<rparr>,
    mm16w hw (txn pl) QUEUE_TX (staged pl (tx_next_avail d) hdr data m))"
  using assms by (simp add: send_raw_def staged_def Let_def vs_ready_def HDR_SIZE_def VS_BUF_SIZE_def vs_cells
      QUEUE_SIZE_def [symmetric])

context virtio_vsock
begin

lemma send_law:
  assumes inv: "vs_inv view pl s" and hdr: "length hdr = 44" and data: "length data \<le> 4052"
  shows "\<exists>s'. send_raw p hw hdr data s = Some s' \<and> vs_inv view pl s' \<and> fwd_cnt (fst s') = fwd_cnt (fst s)
    \<and> vs_peer view s' = fst (react (vs_peer view s) (hdr, data))
    \<and> vs_inbox view pl s' = vs_inbox view pl s @ snd (react (vs_peer view s) (hdr, data))"
proof -
  obtain d m where s: "s = (d, m)" by (cases s)
  have rdy: "vs_ready pl d" and ok: "front_ok pl (rx_last_used d) (view (dev m)) (ram m) (fresh pl (d, m))"
    and tx: "tx_seen (view (dev m)) = tx_next_avail d"
    using inv by (simp_all add: s vs_inv_def)
  let ?v = "view (dev m)"
  let ?t = "unat (tx_next_avail d) mod 8"
  define m1 where "m1 = staged pl (tx_next_avail d) hdr data m"
  let ?m2 = "mm16w hw (txn pl) QUEUE_TX m1"
  let ?d = "d\<lparr>tx_next_avail := tx_next_avail d + 1\<rparr>"
  note mem = vs_staged_memory [OF placed hdr data, where nx = "tx_next_avail d" and m = m, folded m1_def]
  have dv: "dev m1 = dev m" by (simp add: m1_def staged_def Let_def vs_desc_write_def)
  have "?t < 8" by simp
  then have tk: "unat (of_nat ?t :: u16) = ?t" using of_nat_inverse [OF refl, of ?t, where ?'a = 16] by simp
  obtain h out where re: "react (peer_state ?v) (hdr, data) = (h, out)" by (cases "react (peer_state ?v) (hdr, data)")
  have "take_tx pl react (?v, ram m1) = (?v\<lparr>tx_seen := tx_next_avail d + 1, peer_state := h, outbox := outbox ?v @ out\<rparr>,
      push_used (txm pl) ?t 0 (ram m1))"
    using hdr by (simp add: take_tx_def tx mem(1-4) tk re)
  moreover have "(view (dev ?m2), ram ?m2) = take_tx pl react (view (dev m1), ram m1)"
    using conforming unfolding vs_conforming_def Let_def by blast
  ultimately have v2: "view (dev ?m2) = ?v\<lparr>tx_seen := tx_next_avail d + 1, peer_state := h, outbox := outbox ?v @ out\<rparr>"
    and r2: "ram ?m2 = push_used (txm pl) ?t 0 (ram m1)" by (simp_all add: dv)
  have same: "rx_same pl (ram m) (ram ?m2)"
    unfolding rx_same_def
  proof (intro allI impI)
    fix x assume x: "rxm pl \<le> x \<and> x < rxm pl + 8192 \<or> rxb pl \<le> x \<and> x < rxb pl + 32768"
    then have "(x < txm pl \<or> txm pl + 8192 \<le> x) \<and> (x < txb pl \<or> txb pl + 32768 \<le> x)"
      using placed by (auto simp: vs_placed_def apart_def)
    then show "ram m x = ram ?m2 x" using mem(5) [of x] by (simp add: r2 push_used_outside)
  qed
  have n: "fresh pl (?d, ?m2) = fresh pl (d, m)"
    using rx_same_cells(1) [OF same, of 0] by (simp add: fresh_def)
  have rx: "rx_ok pl (ram m) (rx_last_used d) (fresh pl (d, m))" using ok by (simp add: front_ok_def)
  have t32: "?t < 2 ^ 32" by simp
  have "c16 (ram ?m2) (txm pl + 130) = tx_next_avail d + 1"
    using push_used_cells(2) [OF t32, where len = 0 and r = "ram m1" and q = "txm pl"] mem(1) by (simp add: r2)
  moreover have "list_all wf_packet out" using well_formed [of "peer_state ?v" "(hdr, data)"] by (simp add: re)
  ultimately have "vs_inv view pl (?d, ?m2)"
    using rdy ok rx rx_ok_same [OF same] unfolding vs_inv_def prod.case n
    by (simp add: v2 front_ok_def vs_ready_def)
  moreover have "vs_inbox view pl (?d, ?m2) = vs_inbox view pl (d, m) @ out"
    using arrived_same [OF same rx] unfolding vs_inbox_def prod.case n by (simp add: v2)
  moreover have "vs_peer view (?d, ?m2) = h" "vs_peer view (d, m) = peer_state ?v" by (simp_all add: vs_peer_def v2)
  ultimately show ?thesis
    using send_raw_staged [OF rdy data, of p hw hdr m] re by (intro exI [of _ "(?d, ?m2)"]) (simp add: s m1_def)
qed

lemma recount_law:
  assumes "vs_inv view pl (d, m)"
  shows "vs_inv view pl (d\<lparr>fwd_cnt := c\<rparr>, m) \<and> vs_inbox view pl (d\<lparr>fwd_cnt := c\<rparr>, m) = vs_inbox view pl (d, m)
    \<and> vs_peer view (d\<lparr>fwd_cnt := c\<rparr>, m) = vs_peer view (d, m)"
  using assms by (simp add: vs_inv_def vs_inbox_def vs_peer_def vs_ready_def fresh_def)

lemma small_law:
  assumes "vs_inv view pl s" and "pk \<in> set (vs_inbox view pl s)"
  shows "length (snd pk) \<le> 4052"
  using assms arrived_small [of pl _ _ _ pk]
  by (auto simp: vs_inv_def vs_inbox_def front_ok_def list_all_iff wf_packet_def)

lemma lag_law: "vs_lag wait pl s \<le> D"
  using conforming by (cases s) (simp add: vs_lag_def vs_conforming_def)

end

sublocale virtio_vsock \<subseteq> packet_link p hw "vs_inv view pl" "vs_inbox view pl" "vs_peer view" react "vs_lag wait pl" D
proof
  show "vs_lag wait pl s \<le> D" for s by (rule lag_law)
  show "length (snd pk) \<le> 4052" if "vs_inv view pl s" "pk \<in> set (vs_inbox view pl s)" for s pk
    using that by (rule small_law)
qed (fact poll_law send_law recount_law)+

end
