(* ===== verification/VsockInit.thy ===== *)
theory VsockInit
  imports VsockRing
begin

text \<open>
  Bringing the socket device up (\<open>VsockDev::init\<close>): the rings that \<open>post_buffers\<close> lays out are the
  ones the link relies on, and what \<open>bring_up\<close> returns on any device that leaves memory alone while it
  is configured. The event queue is not served by the driver; its allocation is one page, and its used
  ring lies behind it.
\<close>

section \<open>The receive ring\<close>

lemma post_buffer_cells:
  fixes m :: "'d machine" and mem bufs i :: nat
  assumes "i < 8" and "bufs + 32768 \<le> 2 ^ 64"
  defines "r \<equiv> ram (post_buffer mem bufs i m)"
  shows "c16 r (mem + 132 + 2 * i) = of_nat i" and "c64 r (mem + 16 * i) = bufs + 4096 * i"
    and "j < 8 \<Longrightarrow> j \<noteq> i \<Longrightarrow> c16 r (mem + 132 + 2 * j) = c16 (ram m) (mem + 132 + 2 * j)"
    and "j < 8 \<Longrightarrow> j \<noteq> i \<Longrightarrow> c64 r (mem + 16 * j) = c64 (ram m) (mem + 16 * j)"
    and "x < mem \<or> mem + 148 \<le> x \<Longrightarrow> r x = ram m x"
proof -
  have a: "unat (of_nat (bufs + i * 4096) :: u64) = bufs + 4096 * i"
    using assms(1,2) of_nat_inverse [OF refl, of "bufs + i * 4096", where ?'a = 64] by (simp add: mult.commute)
  define m1 where "m1 = vs_desc_write mem i (of_nat (bufs + i * 4096)) 4096 2 m"
  have r: "r = mem_write (ram m1) (mem + 132 + 2 * i) (to_le16 (of_nat i))"
    by (simp add: r_def post_buffer_def vs_cells m1_def VS_BUF_SIZE_def mult.commute)
  have d: "desc_at (ram m1) mem i = \<lparr>d_addr = bufs + 4096 * i, d_len = 4096, d_flags = 2, d_next = 0\<rparr>"
    using a by (simp add: m1_def vs_desc_write_here)
  have o: "ram m1 x = ram m x" if "x < mem + 16 * i \<or> mem + 16 * i + 16 \<le> x" for x
    unfolding m1_def by (rule vs_desc_write_outside [OF that])
  have c: "mem_read (ram m1) a n = mem_read (ram m) a n" if "a + n \<le> mem + 16 * i \<or> mem + 16 * i + 16 \<le> a" for a n
    by (intro mem_read_cong o) (use that in auto)
  show "c16 r (mem + 132 + 2 * i) = of_nat i" by (simp add: r)
  show "c64 r (mem + 16 * i) = bufs + 4096 * i"
    using d assms(1) by (simp add: r c_other desc_at_def c64_def [symmetric])
  show "j < 8 \<Longrightarrow> j \<noteq> i \<Longrightarrow> c16 r (mem + 132 + 2 * j) = c16 (ram m) (mem + 132 + 2 * j)"
    using c [of "mem + 132 + 2 * j" 2, THEN arg_cong [of _ _ from_le16], folded c16_def] assms(1)
    by (cases j i rule: linorder_cases) (simp_all add: r c_other)
  show "j < 8 \<Longrightarrow> j \<noteq> i \<Longrightarrow> c64 r (mem + 16 * j) = c64 (ram m) (mem + 16 * j)"
    using c [of "mem + 16 * j" 8, THEN arg_cong [of _ _ "\<lambda>b. unat (from_le64 b)"], folded c64_def] assms(1)
    by (cases j i rule: linorder_cases) (simp_all add: r c_other)
  show "x < mem \<or> mem + 148 \<le> x \<Longrightarrow> r x = ram m x"
    using o [of x] assms(1) by (elim disjE) (simp_all add: r mem_write_outside)
qed

lemma dev_post_buffer [simp]: "dev (post_buffer mem bufs i m) = dev m"
  by (simp add: post_buffer_def vs_desc_write_def Let_def)

lemma post_fold:
  fixes m :: "'d machine" and mem bufs n :: nat
  assumes "n \<le> 8" and "bufs + 32768 \<le> 2 ^ 64"
  defines "m' \<equiv> fold (post_buffer mem bufs) [0..<n] m"
  shows "(\<forall>i<n. c16 (ram m') (mem + 132 + 2 * i) = of_nat i \<and> c64 (ram m') (mem + 16 * i) = bufs + 4096 * i)
    \<and> (\<forall>x. x < mem \<or> mem + 148 \<le> x \<longrightarrow> ram m' x = ram m x) \<and> dev m' = dev m"
  using assms(1) unfolding m'_def
proof (induction n)
  case (Suc n)
  let ?m = "fold (post_buffer mem bufs) [0..<n] m"
  have n: "n < 8" using Suc.prems by simp
  note p = post_buffer_cells [OF n assms(2), where mem = mem and m = ?m]
  show ?case using Suc p by (simp add: less_Suc_eq)
qed simp

lemma post_buffers_ring:
  fixes m :: "'d machine" and pl :: place
  assumes "rxb pl + 32768 \<le> 2 ^ 64" and "c16 (ram m) (rxm pl + 4098) = 0"
  defines "m' \<equiv> post_buffers (rxm pl) (rxb pl) m"
  shows "rx_ok pl (ram m') 0 0" and "dev m' = dev m"
    and "x < rxm pl \<or> rxm pl + 148 \<le> x \<Longrightarrow> ram m' x = ram m x"
proof -
  let ?m1 = "fold (post_buffer (rxm pl) (rxb pl)) [0..<8] m"
  have m': "ram m' = mem_write (ram ?m1) (rxm pl + 130) (to_le16 8)" "dev m' = dev ?m1"
    unfolding m'_def post_buffers_def vs_cells by (simp_all add: QUEUE_SIZE_def)
  note f = post_fold [OF order_refl assms(1), of "rxm pl" m]
  show "dev m' = dev m" using f m'(2) by simp
  show out: "ram m' x = ram m x" if "x < rxm pl \<or> rxm pl + 148 \<le> x" for x
    using f that by (elim disjE) (simp_all add: m' mem_write_outside)
  have "mem_read (ram m') (rxm pl + 4098) 2 = mem_read (ram m) (rxm pl + 4098) 2"
    by (intro mem_read_cong out) simp
  then have u: "c16 (ram m') (rxm pl + 4098) = 0" using assms(2) by (simp add: c16_def)
  show "rx_ok pl (ram m') 0 0"
    using f u by (simp add: rx_ok_def m'(1) c_other)
qed

section \<open>From reset to the first poll\<close>

text \<open>
  The registers of a device as the VirtIO specification lays them out in the common configuration
  structure: the device status, the driver's feature words, the vector of configuration changes, the
  selected queue, and for each queue its size, vector, the addresses of its three areas and whether it
  is enabled. \<open>cc_bells\<close> are the notifications the device has had.
\<close>

record queue_regs =
  cq_size :: "16 word"
  cq_msix :: "16 word"
  cq_enable :: "16 word"
  cq_desc :: "64 word"
  cq_driver :: "64 word"
  cq_device :: "64 word"

record common_regs =
  cc_status :: "8 word"
  cc_fsel :: "32 word"
  cc_feat :: "32 word \<Rightarrow> 32 word"
  cc_msix :: "16 word"
  cc_qsel :: "16 word"
  cc_queue :: "16 word \<Rightarrow> queue_regs"
  cc_bells :: "16 word list"

definition set_queue :: "(queue_regs \<Rightarrow> queue_regs) \<Rightarrow> common_regs \<Rightarrow> common_regs" where
  "set_queue f c = c\<lparr>cc_queue := (cc_queue c)(cc_qsel c := f (cc_queue c (cc_qsel c)))\<rparr>"

text \<open>What a write of a register does, by its width in bytes and its offset in the structure.\<close>

fun common_write :: "common_regs \<Rightarrow> nat \<Rightarrow> nat \<Rightarrow> u64 \<Rightarrow> common_regs \<Rightarrow> common_regs option" where
  "common_write r0 w off v c =
     (if (w, off) = (1, 20) then Some (if v = 0 then r0 else c\<lparr>cc_status := ucast v\<rparr>)
      else if (w, off) = (4, 8) then Some (c\<lparr>cc_fsel := ucast v\<rparr>)
      else if (w, off) = (4, 12) then Some (c\<lparr>cc_feat := (cc_feat c)(cc_fsel c := ucast v)\<rparr>)
      else if (w, off) = (2, 16) then Some (c\<lparr>cc_msix := ucast v\<rparr>)
      else if (w, off) = (2, 22) then Some (c\<lparr>cc_qsel := ucast v\<rparr>)
      else if (w, off) = (2, 24) then Some (set_queue (\<lambda>q. q\<lparr>cq_size := ucast v\<rparr>) c)
      else if (w, off) = (2, 26) then Some (set_queue (\<lambda>q. q\<lparr>cq_msix := ucast v\<rparr>) c)
      else if (w, off) = (2, 28) then Some (set_queue (\<lambda>q. q\<lparr>cq_enable := ucast v\<rparr>) c)
      else if (w, off) = (8, 32) then Some (set_queue (\<lambda>q. q\<lparr>cq_desc := v\<rparr>) c)
      else if (w, off) = (8, 40) then Some (set_queue (\<lambda>q. q\<lparr>cq_driver := v\<rparr>) c)
      else if (w, off) = (8, 48) then Some (set_queue (\<lambda>q. q\<lparr>cq_device := v\<rparr>) c)
      else None)"

declare common_write.simps [simp del]

text \<open>
  A device behind these registers, at \<open>cb\<close>, with its notification structure at \<open>nb\<close>. Register accesses
  leave memory alone; a reset gives the registers their values \<open>r0\<close> and empties the link, and no other
  access touches the link; a write of the register at an offset sets it; the status reads with the bit
  for the features when the device accepts them; and the number of a queue written to the queue's
  notification address notifies the device.
\<close>

definition common_conforming :: "'d hw \<Rightarrow> ('d \<Rightarrow> common_regs) \<Rightarrow> ('d \<Rightarrow> 'h vdev) \<Rightarrow> common_regs \<Rightarrow> 'h \<Rightarrow>
    ((u32 \<Rightarrow> u32) \<Rightarrow> bool) \<Rightarrow> (u16 \<Rightarrow> u16) \<Rightarrow> u64 \<Rightarrow> u64 \<Rightarrow> u32 \<Rightarrow> bool" where
  "common_conforming hw regs view r0 h accept noff cb nb mult \<longleftrightarrow>
     (\<forall>m w off v c. common_write r0 w off v (regs (dev m)) = Some c \<longrightarrow>
        (let m' = mmio_out hw w (cb + of_nat off) v m
         in ram m' = ram m \<and> regs (dev m') = c \<and> view (dev m') =
           (if (w, off) = (1, 20) \<and> v = 0 then \<lparr>rx_seen = 0, tx_seen = 0, outbox = [], peer_state = h\<rparr> else view (dev m))))
     \<and> (\<forall>m. let (st, m') = mm8r hw (cb + 20) m; c = regs (dev m)
         in (bit st 3 \<longleftrightarrow> bit (cc_status c) 3 \<and> accept (cc_feat c))
           \<and> ram m' = ram m \<and> regs (dev m') = c \<and> view (dev m') = view (dev m))
     \<and> (\<forall>m. let (n, m') = mm16r hw (cb + 30) m; c = regs (dev m)
         in n = noff (cc_qsel c) \<and> ram m' = ram m \<and> regs (dev m') = c \<and> view (dev m') = view (dev m))
     \<and> (\<forall>m q. let m' = mm16w hw (nb + ucast (noff q) * ucast mult) q m; c = regs (dev m)
         in ram m' = ram m \<and> regs (dev m') = c\<lparr>cc_bells := cc_bells c @ [q]\<rparr> \<and> view (dev m') = view (dev m))"

text \<open>The registers as the driver has to leave them: three queues set up and the device running.\<close>

definition programmed :: "vs_alloc \<Rightarrow> common_regs \<Rightarrow> common_regs" where
  "programmed al r0 = r0\<lparr>cc_status := 1 + 2 + 4 + 8, cc_fsel := 1, cc_feat := (cc_feat r0)(0 := 0, 1 := 1),
     cc_msix := 0xFFFF, cc_qsel := 2, cc_bells := cc_bells r0 @ [0],
     cc_queue := (cc_queue r0)
       (0 := \<lparr>cq_size = 8, cq_msix = 0xFFFF, cq_enable = 1, cq_desc = of_nat (a_rx_mem al),
          cq_driver = of_nat (a_rx_mem al + 128), cq_device = of_nat (a_rx_mem al + 4096)\<rparr>,
        1 := \<lparr>cq_size = 8, cq_msix = 0xFFFF, cq_enable = 1, cq_desc = of_nat (a_tx_mem al),
          cq_driver = of_nat (a_tx_mem al + 128), cq_device = of_nat (a_tx_mem al + 4096)\<rparr>,
        2 := \<lparr>cq_size = 2, cq_msix = 0xFFFF, cq_enable = 1, cq_desc = of_nat (a_ev_mem al),
          cq_driver = of_nat (a_ev_mem al + 32), cq_device = of_nat (a_ev_mem al + 4096)\<rparr>)\<rparr>"

text \<open>A step of the configuration: memory and the link are kept, the registers become \<open>c\<close>.\<close>

definition configured :: "('d \<Rightarrow> common_regs) \<Rightarrow> ('d \<Rightarrow> 'h vdev) \<Rightarrow> 'd machine \<Rightarrow> common_regs \<Rightarrow> 'd machine \<Rightarrow> bool" where
  "configured regs view m c m' \<longleftrightarrow> ram m' = ram m \<and> regs (dev m') = c \<and> view (dev m') = view (dev m)"

lemma ram_post_cong:
  fixes m m' :: "'a machine"
  assumes "ram m = ram m'"
  shows "ram (post_buffers a b m) = ram (post_buffers a b m')"
proof -
  have step: "ram x = ram y \<Longrightarrow> ram (post_buffer a b i x) = ram (post_buffer a b i y)" for i and x y :: "'a machine"
    by (simp add: post_buffer_def vs_desc_write_def Let_def)
  have "ram x = ram y \<Longrightarrow> ram (fold (post_buffer a b) is x) = ram (fold (post_buffer a b) is y)"
    for "is" and x y :: "'a machine"
  proof (induction "is" arbitrary: x y)
    case (Cons i "is")
    show ?case using Cons.IH [OF step [OF Cons.prems], of i] by simp
  qed simp
  from this [OF assms] show ?thesis by (simp add: post_buffers_def)
qed

text \<open>The memory that a successful \<open>bring_up\<close> leaves.\<close>

definition laid_out :: "vs_alloc \<Rightarrow> 'd machine \<Rightarrow> ram" where
  "laid_out al m =
     (let m = post_buffers (a_rx_mem al) (a_rx_bufs al)
            (alloc_zeroed (a_rx_bufs al) 32768 (alloc_zeroed (a_rx_mem al) 8192 m));
          m = alloc_zeroed (a_tx_bufs al) 32768 (alloc_zeroed (a_tx_mem al) 8192 m)
      in ram (alloc_zeroed (a_ev_mem al) 4096 m))"

lemma q_bytes_8192: "q_bytes = 8192"
  by (simp add: q_bytes_def QUEUE_SIZE_def vs.size_at vs.used_at)

lemma dev_posted [simp]: "dev (post_buffers mem bufs m) = dev m"
proof -
  have "dev (fold (post_buffer mem bufs) is m) = dev m" for "is"
    by (induction "is" arbitrary: m) simp_all
  then show ?thesis by (simp add: post_buffers_def)
qed

lemma full_queue: "r\<lparr>cq_size := a, cq_msix := b, cq_desc := c, cq_driver := d, cq_device := e, cq_enable := f\<rparr>
    = \<lparr>cq_size = a, cq_msix = b, cq_enable = f, cq_desc = c, cq_driver = d, cq_device = e\<rparr>"
  by (cases r) simp

lemma area_offsets: "vs_avail_offset 8 = 128" "vs_used_offset 8 = 4096" "vs_avail_offset 2 = 32" "vs_used_offset 2 = 4096"
  using vs.avail_at [of 8] vs.used_at [of 8] vs.avail_at [of 2] vs.used_at [of 2] by (simp_all add: word_unat_eq_iff)

locale common_device =
  fixes hw :: "'d hw" and regs :: "'d \<Rightarrow> common_regs" and view :: "'d \<Rightarrow> 'h vdev" and r0 :: common_regs and h :: 'h
    and accept :: "(u32 \<Rightarrow> u32) \<Rightarrow> bool" and noff :: "u16 \<Rightarrow> u16" and cb nb :: u64 and mult :: u32
  assumes conforming: "common_conforming hw regs view r0 h accept noff cb nb mult"
    and cb_room: "unat cb + 56 < 2 ^ 64" and nb_room: "unat nb + 65535 * unat mult < 2 ^ 64"
begin

lemma write_at: "common_write r0 w off v (regs (dev m)) = Some c \<Longrightarrow>
    ram (mmio_out hw w (cb + of_nat off) v m) = ram m \<and> regs (dev (mmio_out hw w (cb + of_nat off) v m)) = c
    \<and> view (dev (mmio_out hw w (cb + of_nat off) v m)) =
      (if (w, off) = (1, 20) \<and> v = 0 then \<lparr>rx_seen = 0, tx_seen = 0, outbox = [], peer_state = h\<rparr> else view (dev m))"
  using conforming unfolding common_conforming_def Let_def by blast

lemma at_reg: "unat off < 56 \<Longrightarrow> add_ovf p cb off = Some (cb + off)"
  using add_ovf_exact(1) [of cb off p] cb_room by simp

lemma set_status:
  "\<exists>m'. reg8w p hw cb OFF_DEV_STATUS 0 m = Some m' \<and> ram m' = ram m \<and> regs (dev m') = r0
     \<and> view (dev m') = \<lparr>rx_seen = 0, tx_seen = 0, outbox = [], peer_state = h\<rparr>"
  "v \<noteq> 0 \<Longrightarrow> \<exists>m'. reg8w p hw cb OFF_DEV_STATUS v m = Some m' \<and> configured regs view m ((regs (dev m))\<lparr>cc_status := v\<rparr>) m'"
proof -
  have z: "(ucast v :: u64) = 0 \<longleftrightarrow> v = 0" by (metis ucast_back(3) ucast_0)
  show "\<exists>m'. reg8w p hw cb OFF_DEV_STATUS 0 m = Some m' \<and> ram m' = ram m \<and> regs (dev m') = r0
     \<and> view (dev m') = \<lparr>rx_seen = 0, tx_seen = 0, outbox = [], peer_state = h\<rparr>"
    using write_at [of 1 20 0 m] by (simp add: reg8w_def OFF_DEV_STATUS_def at_reg mm8w_def common_write.simps)
  show "\<exists>m'. reg8w p hw cb OFF_DEV_STATUS v m = Some m' \<and> configured regs view m ((regs (dev m))\<lparr>cc_status := v\<rparr>) m'"
    if "v \<noteq> 0"
    using write_at [of 1 20 "ucast v" m] that z
    by (simp add: reg8w_def OFF_DEV_STATUS_def at_reg mm8w_def common_write.simps configured_def)
qed

lemma set_regs:
  "\<exists>m'. reg32w p hw cb OFF_DRV_FEAT_SEL v32 m = Some m' \<and> configured regs view m ((regs (dev m))\<lparr>cc_fsel := v32\<rparr>) m'"
  "\<exists>m'. reg32w p hw cb OFF_DRV_FEAT v32 m = Some m' \<and> configured regs view m
     ((regs (dev m))\<lparr>cc_feat := (cc_feat (regs (dev m)))(cc_fsel (regs (dev m)) := v32)\<rparr>) m'"
  "\<exists>m'. reg16w p hw cb OFF_MSIX_VEC v16 m = Some m' \<and> configured regs view m ((regs (dev m))\<lparr>cc_msix := v16\<rparr>) m'"
  "\<exists>m'. reg16w p hw cb OFF_Q_SELECT v16 m = Some m' \<and> configured regs view m ((regs (dev m))\<lparr>cc_qsel := v16\<rparr>) m'"
  "\<exists>m'. reg16w p hw cb OFF_Q_SIZE v16 m = Some m' \<and> configured regs view m (set_queue (\<lambda>q. q\<lparr>cq_size := v16\<rparr>) (regs (dev m))) m'"
  "\<exists>m'. reg16w p hw cb OFF_Q_MSIX v16 m = Some m' \<and> configured regs view m (set_queue (\<lambda>q. q\<lparr>cq_msix := v16\<rparr>) (regs (dev m))) m'"
  "\<exists>m'. reg16w p hw cb OFF_Q_ENABLE v16 m = Some m' \<and> configured regs view m (set_queue (\<lambda>q. q\<lparr>cq_enable := v16\<rparr>) (regs (dev m))) m'"
  "\<exists>m'. reg64w p hw cb OFF_Q_DESC v64 m = Some m' \<and> configured regs view m (set_queue (\<lambda>q. q\<lparr>cq_desc := v64\<rparr>) (regs (dev m))) m'"
  "\<exists>m'. reg64w p hw cb OFF_Q_DRIVER v64 m = Some m' \<and> configured regs view m (set_queue (\<lambda>q. q\<lparr>cq_driver := v64\<rparr>) (regs (dev m))) m'"
  "\<exists>m'. reg64w p hw cb OFF_Q_DEVICE v64 m = Some m' \<and> configured regs view m (set_queue (\<lambda>q. q\<lparr>cq_device := v64\<rparr>) (regs (dev m))) m'"
  using write_at [of 4 8 "ucast v32" m] write_at [of 4 12 "ucast v32" m] write_at [of 2 16 "ucast v16" m]
    write_at [of 2 22 "ucast v16" m] write_at [of 2 24 "ucast v16" m] write_at [of 2 26 "ucast v16" m]
    write_at [of 2 28 "ucast v16" m] write_at [of 8 32 v64 m] write_at [of 8 40 v64 m] write_at [of 8 48 v64 m]
  by (simp_all add: reg32w_def reg16w_def reg64w_def at_reg mm32w_def mm16w_def mm64w_def common_write.simps configured_def
      OFF_DRV_FEAT_SEL_def OFF_DRV_FEAT_def OFF_MSIX_VEC_def OFF_Q_SELECT_def OFF_Q_SIZE_def OFF_Q_MSIX_def OFF_Q_ENABLE_def
      OFF_Q_DESC_def OFF_Q_DRIVER_def OFF_Q_DEVICE_def)

lemma read_regs:
  "\<exists>st m'. reg8r p hw cb OFF_DEV_STATUS m = Some (st, m') \<and> configured regs view m (regs (dev m)) m'
     \<and> (bit st 3 \<longleftrightarrow> bit (cc_status (regs (dev m))) 3 \<and> accept (cc_feat (regs (dev m))))"
  "\<exists>m'. reg16r p hw cb OFF_Q_NOTIFY_OFF m = Some (noff (cc_qsel (regs (dev m))), m') \<and> configured regs view m (regs (dev m)) m'"
  "configured regs view m ((regs (dev m))\<lparr>cc_bells := cc_bells (regs (dev m)) @ [q]\<rparr>)
     (mm16w hw (nb + ucast (noff q) * ucast mult) q m)"
  using conforming unfolding common_conforming_def
  by (simp_all add: reg8r_def reg16r_def at_reg OFF_DEV_STATUS_def OFF_Q_NOTIFY_OFF_def configured_def Let_def case_prod_beta
      prod_eq_iff)

lemma notify_at: "notify_addr p nb off mult = Some (nb + ucast off * ucast mult)"
proof -
  have "unat off * unat mult \<le> 65535 * unat mult"
    using unsigned_less [of off, where ?'a = nat] by (intro mult_le_mono1) simp
  moreover have "unat (ucast off * ucast mult :: u64) \<le> unat off * unat mult"
    by (simp add: unat_word_ariths unsigned_ucast_eq take_bit_eq_mod) (meson le_trans mod_less_eq_dividend mult_le_mono)
  ultimately have "unat nb + unat (ucast off * ucast mult :: u64) < 2 ^ 64" using nb_room by linarith
  then show ?thesis using add_ovf_exact(1) [of nb "ucast off * ucast mult" p] by (simp add: notify_addr_def)
qed

text \<open>The phases of the initialisation.\<close>

lemma negotiates:
  "\<exists>m'. negotiate p hw cb m = Some (accept ((cc_feat r0)(0 := 0, 1 := 1)), m') \<and> ram m' = ram m
     \<and> regs (dev m') = r0\<lparr>cc_status := 11, cc_fsel := 1, cc_feat := (cc_feat r0)(0 := 0, 1 := 1)\<rparr>
     \<and> view (dev m') = \<lparr>rx_seen = 0, tx_seen = 0, outbox = [], peer_state = h\<rparr>"
proof -
  obtain m1 where 1: "reg8w p hw cb OFF_DEV_STATUS 0 m = Some m1" "ram m1 = ram m" "regs (dev m1) = r0"
    "view (dev m1) = \<lparr>rx_seen = 0, tx_seen = 0, outbox = [], peer_state = h\<rparr>" using set_status(1) by blast
  obtain m2 where 2: "reg8w p hw cb OFF_DEV_STATUS 1 m1 = Some m2" "configured regs view m1 ((regs (dev m1))\<lparr>cc_status := 1\<rparr>) m2"
    using set_status(2) [of 1 p m1] by auto
  obtain m3 where 3: "reg8w p hw cb OFF_DEV_STATUS 3 m2 = Some m3" "configured regs view m2 ((regs (dev m2))\<lparr>cc_status := 3\<rparr>) m3"
    using set_status(2) [of 3 p m2] by auto
  obtain m4 where 4: "reg32w p hw cb OFF_DRV_FEAT_SEL 0 m3 = Some m4" "configured regs view m3 ((regs (dev m3))\<lparr>cc_fsel := 0\<rparr>) m4"
    using set_regs(1) by blast
  obtain m5 where 5: "reg32w p hw cb OFF_DRV_FEAT 0 m4 = Some m5" "configured regs view m4
     ((regs (dev m4))\<lparr>cc_feat := (cc_feat (regs (dev m4)))(cc_fsel (regs (dev m4)) := 0)\<rparr>) m5"
    using set_regs(2) by blast
  obtain m6 where 6: "reg32w p hw cb OFF_DRV_FEAT_SEL 1 m5 = Some m6" "configured regs view m5 ((regs (dev m5))\<lparr>cc_fsel := 1\<rparr>) m6"
    using set_regs(1) by blast
  obtain m7 where 7: "reg32w p hw cb OFF_DRV_FEAT 1 m6 = Some m7" "configured regs view m6
     ((regs (dev m6))\<lparr>cc_feat := (cc_feat (regs (dev m6)))(cc_fsel (regs (dev m6)) := 1)\<rparr>) m7"
    using set_regs(2) by blast
  obtain m8 where 8: "reg8w p hw cb OFF_DEV_STATUS 11 m7 = Some m8" "configured regs view m7 ((regs (dev m7))\<lparr>cc_status := 11\<rparr>) m8"
    using set_status(2) [of 11 p m7] by auto
  obtain st m9 where 9: "reg8r p hw cb OFF_DEV_STATUS m8 = Some (st, m9)" "configured regs view m8 (regs (dev m8)) m9"
    "bit st 3 \<longleftrightarrow> bit (cc_status (regs (dev m8))) 3 \<and> accept (cc_feat (regs (dev m8)))"
    using read_regs(1) by blast
  have r: "regs (dev m8) = r0\<lparr>cc_status := 11, cc_fsel := 1, cc_feat := (cc_feat r0)(0 := 0, 1 := 1)\<rparr>"
    using 1 2(2) 3(2) 4(2) 5(2) 6(2) 7(2) 8(2) by (simp add: configured_def)
  have e: "bit (11 :: u8) 3" by (simp add: bit_numeral_rec)
  have st: "st AND 8 \<noteq> 0 \<longleftrightarrow> accept ((cc_feat r0)(0 := 0, 1 := 1))"
    using 9(3) r e and_exp_eq_0_iff_not_bit [of st 3] by simp
  have "negotiate p hw cb m = Some (accept ((cc_feat r0)(0 := 0, 1 := 1)), m9)"
    using 1(1) 2(1) 3(1) 4(1) 5(1) 6(1) 7(1) 8(1) 9(1) st
    by (simp add: negotiate_def STATUS_RESET_def STATUS_ACKNOWLEDGE_def STATUS_DRIVER_def STATUS_FEATURES_OK_def
        VIRTIO_F_VERSION_1_def)
  then show ?thesis
    using r 1(2,4) 2(2) 3(2) 4(2) 5(2) 6(2) 7(2) 8(2) 9(2) by (simp add: configured_def)
qed

lemma selects:
  "\<exists>m'. select_queue p hw cb q n m = Some m' \<and> configured regs view m
     (set_queue (\<lambda>r. r\<lparr>cq_size := of_nat n, cq_msix := 0xFFFF\<rparr>) ((regs (dev m))\<lparr>cc_qsel := q\<rparr>)) m'"
proof -
  obtain m1 where 1: "reg16w p hw cb OFF_Q_SELECT q m = Some m1" "configured regs view m ((regs (dev m))\<lparr>cc_qsel := q\<rparr>) m1"
    using set_regs(4) by blast
  obtain m2 where 2: "reg16w p hw cb OFF_Q_SIZE (of_nat n) m1 = Some m2"
    "configured regs view m1 (set_queue (\<lambda>r. r\<lparr>cq_size := of_nat n\<rparr>) (regs (dev m1))) m2"
    using set_regs(5) by blast
  obtain m3 where 3: "reg16w p hw cb OFF_Q_MSIX 0xFFFF m2 = Some m3"
    "configured regs view m2 (set_queue (\<lambda>r. r\<lparr>cq_msix := 0xFFFF\<rparr>) (regs (dev m2))) m3"
    using set_regs(6) by blast
  show ?thesis using 1 2 3 by (simp add: select_queue_def configured_def set_queue_def)
qed

lemma enables:
  "\<exists>m'. enable_queue p hw cb mem n m = Some m' \<and> configured regs view m
     (set_queue (\<lambda>r. r\<lparr>cq_desc := of_nat mem,
        cq_driver := of_nat (mem + unat (vs_avail_offset (of_nat n))),
        cq_device := of_nat (mem + unat (vs_used_offset (of_nat n))), cq_enable := 1\<rparr>) (regs (dev m))) m'"
proof -
  obtain m1 where 1: "reg64w p hw cb OFF_Q_DESC (of_nat mem) m = Some m1"
    "configured regs view m (set_queue (\<lambda>r. r\<lparr>cq_desc := of_nat mem\<rparr>) (regs (dev m))) m1"
    using set_regs(8) by blast
  obtain m2 where 2: "reg64w p hw cb OFF_Q_DRIVER (of_nat (mem + unat (vs_avail_offset (of_nat n)))) m1 = Some m2"
    "configured regs view m1 (set_queue (\<lambda>r. r\<lparr>cq_driver := of_nat (mem + unat (vs_avail_offset (of_nat n)))\<rparr>) (regs (dev m1))) m2"
    using set_regs(9) by blast
  obtain m3 where 3: "reg64w p hw cb OFF_Q_DEVICE (of_nat (mem + unat (vs_used_offset (of_nat n)))) m2 = Some m3"
    "configured regs view m2 (set_queue (\<lambda>r. r\<lparr>cq_device := of_nat (mem + unat (vs_used_offset (of_nat n)))\<rparr>) (regs (dev m2))) m3"
    using set_regs(10) by blast
  obtain m4 where 4: "reg16w p hw cb OFF_Q_ENABLE 1 m3 = Some m4"
    "configured regs view m3 (set_queue (\<lambda>r. r\<lparr>cq_enable := 1\<rparr>) (regs (dev m3))) m4"
    using set_regs(7) by blast
  show ?thesis using 1 2 3 4 by (simp add: enable_queue_def configured_def set_queue_def)
qed

lemma brings_up:
  assumes ok: "accept ((cc_feat r0)(0 := 0, 1 := 1))"
    and nz: "a_rx_mem al \<noteq> 0" "a_rx_bufs al \<noteq> 0" "a_tx_mem al \<noteq> 0" "a_tx_bufs al \<noteq> 0" "a_ev_mem al \<noteq> 0"
  shows "\<exists>m'. bring_up p hw al cb nb mult m = Some (Some
      \<lparr>common_base = cb, notify_base = nb, notify_mult = mult, rx_mem = a_rx_mem al, rx_bufs = a_rx_bufs al,
       rx_last_used = 0, rx_next_avail = 8, rx_notify_off = noff 0, tx_mem = a_tx_mem al, tx_bufs = a_tx_bufs al,
       tx_next_avail = 0, tx_notify_off = noff 1, fwd_cnt = 0\<rparr>, m')
    \<and> ram m' = laid_out al m \<and> regs (dev m') = programmed al r0
    \<and> view (dev m') = \<lparr>rx_seen = 0, tx_seen = 0, outbox = [], peer_state = h\<rparr>"
proof -
  obtain m1 where 1: "negotiate p hw cb m = Some (True, m1)" "ram m1 = ram m"
    "regs (dev m1) = r0\<lparr>cc_status := 11, cc_fsel := 1, cc_feat := (cc_feat r0)(0 := 0, 1 := 1)\<rparr>"
    "view (dev m1) = \<lparr>rx_seen = 0, tx_seen = 0, outbox = [], peer_state = h\<rparr>"
    using negotiates [of p m] ok by auto
  obtain m2 where 2: "reg16w p hw cb OFF_MSIX_VEC 0xFFFF m1 = Some m2"
    "configured regs view m1 ((regs (dev m1))\<lparr>cc_msix := 0xFFFF\<rparr>) m2" using set_regs(3) by blast
  obtain m3 where 3: "select_queue p hw cb 0 8 m2 = Some m3" "configured regs view m2
     (set_queue (\<lambda>r. r\<lparr>cq_size := of_nat 8, cq_msix := 0xFFFF\<rparr>) ((regs (dev m2))\<lparr>cc_qsel := 0\<rparr>)) m3"
    using selects by blast
  obtain m4 where 4: "reg16r p hw cb OFF_Q_NOTIFY_OFF m3 = Some (noff (cc_qsel (regs (dev m3))), m4)"
    "configured regs view m3 (regs (dev m3)) m4" using read_regs(2) by blast
  let ?m5 = "post_buffers (a_rx_mem al) (a_rx_bufs al)
      (alloc_zeroed (a_rx_bufs al) (QUEUE_SIZE * VS_BUF_SIZE) (alloc_zeroed (a_rx_mem al) q_bytes m4))"
  obtain m6 where 6: "enable_queue p hw cb (a_rx_mem al) 8 ?m5 = Some m6" "configured regs view ?m5
     (set_queue (\<lambda>r. r\<lparr>cq_desc := of_nat (a_rx_mem al),
        cq_driver := of_nat (a_rx_mem al + unat (vs_avail_offset (of_nat 8))),
        cq_device := of_nat (a_rx_mem al + unat (vs_used_offset (of_nat 8))), cq_enable := 1\<rparr>) (regs (dev ?m5))) m6"
    using enables by blast
  obtain m7 where 7: "select_queue p hw cb 1 8 m6 = Some m7" "configured regs view m6
     (set_queue (\<lambda>r. r\<lparr>cq_size := of_nat 8, cq_msix := 0xFFFF\<rparr>) ((regs (dev m6))\<lparr>cc_qsel := 1\<rparr>)) m7"
    using selects by blast
  obtain m8 where 8: "reg16r p hw cb OFF_Q_NOTIFY_OFF m7 = Some (noff (cc_qsel (regs (dev m7))), m8)"
    "configured regs view m7 (regs (dev m7)) m8" using read_regs(2) by blast
  let ?m9 = "alloc_zeroed (a_tx_bufs al) (QUEUE_SIZE * VS_BUF_SIZE) (alloc_zeroed (a_tx_mem al) q_bytes m8)"
  obtain m10 where 10: "enable_queue p hw cb (a_tx_mem al) 8 ?m9 = Some m10" "configured regs view ?m9
     (set_queue (\<lambda>r. r\<lparr>cq_desc := of_nat (a_tx_mem al),
        cq_driver := of_nat (a_tx_mem al + unat (vs_avail_offset (of_nat 8))),
        cq_device := of_nat (a_tx_mem al + unat (vs_used_offset (of_nat 8))), cq_enable := 1\<rparr>) (regs (dev ?m9))) m10"
    using enables by blast
  obtain m11 where 11: "select_queue p hw cb 2 2 m10 = Some m11" "configured regs view m10
     (set_queue (\<lambda>r. r\<lparr>cq_size := of_nat 2, cq_msix := 0xFFFF\<rparr>) ((regs (dev m10))\<lparr>cc_qsel := 2\<rparr>)) m11"
    using selects by blast
  let ?m12 = "alloc_zeroed (a_ev_mem al) (unat VS_PAGE_SIZE) m11"
  obtain m13 where 13: "enable_queue p hw cb (a_ev_mem al) 2 ?m12 = Some m13" "configured regs view ?m12
     (set_queue (\<lambda>r. r\<lparr>cq_desc := of_nat (a_ev_mem al),
        cq_driver := of_nat (a_ev_mem al + unat (vs_avail_offset (of_nat 2))),
        cq_device := of_nat (a_ev_mem al + unat (vs_used_offset (of_nat 2))), cq_enable := 1\<rparr>) (regs (dev ?m12))) m13"
    using enables by blast
  obtain m14 where 14: "reg8w p hw cb OFF_DEV_STATUS 15 m13 = Some m14"
    "configured regs view m13 ((regs (dev m13))\<lparr>cc_status := 15\<rparr>) m14" using set_status(2) [of 15 p m13] by auto
  let ?m15 = "mm16w hw (nb + ucast (noff 0) * ucast mult) 0 m14"
  have 15: "configured regs view m14 ((regs (dev m14))\<lparr>cc_bells := cc_bells (regs (dev m14)) @ [0]\<rparr>) ?m15"
    by (rule read_regs(3))
  have q3: "cc_qsel (regs (dev m3)) = 0" "cc_qsel (regs (dev m7)) = 1"
    using 3(2) 7(2) by (simp_all add: configured_def set_queue_def)
  have run: "bring_up p hw al cb nb mult m = Some (Some
      \<lparr>common_base = cb, notify_base = nb, notify_mult = mult, rx_mem = a_rx_mem al, rx_bufs = a_rx_bufs al,
       rx_last_used = 0, rx_next_avail = 8, rx_notify_off = noff 0, tx_mem = a_tx_mem al, tx_bufs = a_tx_bufs al,
       tx_next_avail = 0, tx_notify_off = noff 1, fwd_cnt = 0\<rparr>, ?m15)"
    using 1(1) 2(1) 3(1) 4(1) 6(1) 7(1) 8(1) 10(1) 11(1) 13(1) 14(1) nz
    by (simp add: bring_up_def Let_def q3 notify_at QUEUE_SIZE_def QUEUE_RX_def QUEUE_TX_def QUEUE_EVENT_def
        STATUS_ACKNOWLEDGE_def STATUS_DRIVER_def STATUS_FEATURES_OK_def STATUS_DRIVER_OK_def)
  have m5: "dev ?m5 = dev m4" by (simp add: dev_posted)
  have "regs (dev m3) = r0\<lparr>cc_status := 11, cc_fsel := 1, cc_feat := (cc_feat r0)(0 := 0, 1 := 1), cc_msix := 0xFFFF,
      cc_qsel := 0, cc_queue := (cc_queue r0)(0 := (cc_queue r0 0)\<lparr>cq_size := 8, cq_msix := 0xFFFF\<rparr>)\<rparr>"
    using 1(3) 2(2) 3(2) by (simp add: configured_def set_queue_def)
  then have r6: "regs (dev m6) = r0\<lparr>cc_status := 11, cc_fsel := 1, cc_feat := (cc_feat r0)(0 := 0, 1 := 1), cc_msix := 0xFFFF,
      cc_qsel := 0, cc_queue := (cc_queue r0)(0 := \<lparr>cq_size = 8, cq_msix = 0xFFFF, cq_enable = 1,
        cq_desc = of_nat (a_rx_mem al), cq_driver = of_nat (a_rx_mem al + 128), cq_device = of_nat (a_rx_mem al + 4096)\<rparr>)\<rparr>"
    using 4(2) 6(2) m5 by (simp add: configured_def set_queue_def full_queue vs.avail_at vs.used_at area_offsets)
  have r10: "regs (dev m10) = r0\<lparr>cc_status := 11, cc_fsel := 1, cc_feat := (cc_feat r0)(0 := 0, 1 := 1), cc_msix := 0xFFFF,
      cc_qsel := 1, cc_queue := (cc_queue r0)(0 := \<lparr>cq_size = 8, cq_msix = 0xFFFF, cq_enable = 1,
        cq_desc = of_nat (a_rx_mem al), cq_driver = of_nat (a_rx_mem al + 128), cq_device = of_nat (a_rx_mem al + 4096)\<rparr>,
       1 := \<lparr>cq_size = 8, cq_msix = 0xFFFF, cq_enable = 1,
        cq_desc = of_nat (a_tx_mem al), cq_driver = of_nat (a_tx_mem al + 128), cq_device = of_nat (a_tx_mem al + 4096)\<rparr>)\<rparr>"
    using r6 7(2) 8(2) 10(2) by (simp add: configured_def set_queue_def full_queue area_offsets)
  have regs: "regs (dev ?m15) = programmed al r0"
    using r10 11(2) 13(2) 14(2) 15 by (simp add: configured_def set_queue_def full_queue area_offsets programmed_def)
  have view: "view (dev ?m15) = \<lparr>rx_seen = 0, tx_seen = 0, outbox = [], peer_state = h\<rparr>"
    using 1(4) 2(2) 3(2) 4(2) 6(2) m5 7(2) 8(2) 10(2) 11(2) 13(2) 14(2) 15 by (simp add: configured_def)
  have "ram m4 = ram m" using 1(2) 2(2) 3(2) 4(2) by (simp add: configured_def)
  then have "ram ?m15 = laid_out al m"
    using 6(2) 7(2) 8(2) 10(2) 11(2) 13(2) 14(2) 15
      ram_post_cong [of "alloc_zeroed (a_rx_bufs al) 32768 (alloc_zeroed (a_rx_mem al) 8192 m4)"
        "alloc_zeroed (a_rx_bufs al) 32768 (alloc_zeroed (a_rx_mem al) 8192 m)" "a_rx_mem al" "a_rx_bufs al"]
    by (simp add: configured_def laid_out_def Let_def ram_alloc q_bytes_8192 QUEUE_SIZE_def VS_BUF_SIZE_def VS_PAGE_SIZE_def)
  then show ?thesis using run regs view by blast
qed

lemma refuses:
  assumes "\<not> accept ((cc_feat r0)(0 := 0, 1 := 1))"
  shows "\<exists>m'. bring_up p hw al cb nb mult m = Some (None, m') \<and> cc_status (regs (dev m')) = 11"
  using negotiates [of p m] assms by (auto simp: bring_up_def)

end

text \<open>The five allocations: apart, below \<open>2 ^ 64\<close>, the buffer areas included.\<close>

definition place_of :: "vs_alloc \<Rightarrow> vsock \<Rightarrow> place" where
  "place_of al d =
     \<lparr>rxm = a_rx_mem al, rxb = a_rx_bufs al, txm = a_tx_mem al, txb = a_tx_bufs al,
      rxn = notify_base d + ucast (rx_notify_off d) * ucast (notify_mult d),
      txn = notify_base d + ucast (tx_notify_off d) * ucast (notify_mult d)\<rparr>"

definition alloc_ok :: "vs_alloc \<Rightarrow> bool" where
  "alloc_ok al \<longleftrightarrow>
     vs_placed \<lparr>rxm = a_rx_mem al, rxb = a_rx_bufs al, txm = a_tx_mem al, txb = a_tx_bufs al, rxn = 0, txn = 0\<rparr>
     \<and> apart (a_ev_mem al) 4096 (a_rx_mem al) 8192 \<and> apart (a_ev_mem al) 4096 (a_tx_mem al) 8192"

lemma placed_of: "alloc_ok al \<Longrightarrow> vs_placed (place_of al d)"
  by (simp add: alloc_ok_def vs_placed_def place_of_def)

lemma laid_out_cells:
  assumes "alloc_ok al" and nz: "a_rx_mem al \<noteq> 0" "a_rx_bufs al \<noteq> 0" "a_tx_mem al \<noteq> 0" "a_tx_bufs al \<noteq> 0" "a_ev_mem al \<noteq> 0"
  shows "rx_ok (place_of al d) (laid_out al m) 0 0" and "c16 (laid_out al m) (a_tx_mem al + 130) = 0"
proof -
  let ?pl = "place_of al d"
  have ap: "apart (a_rx_mem al) 8192 (a_rx_bufs al) 32768" "apart (a_rx_mem al) 8192 (a_tx_mem al) 8192"
    "apart (a_rx_mem al) 8192 (a_tx_bufs al) 32768" "apart (a_tx_mem al) 8192 (a_tx_bufs al) 32768"
    "apart (a_rx_mem al) 8192 (a_ev_mem al) 4096" "apart (a_tx_mem al) 8192 (a_ev_mem al) 4096"
    and b: "rxb ?pl + 32768 \<le> 2 ^ 64"
    using assms(1) by (simp_all add: alloc_ok_def vs_placed_def place_of_def apart_sym)
  let ?m0 = "alloc_zeroed (a_rx_bufs al) 32768 (alloc_zeroed (a_rx_mem al) 8192 m)"
  let ?m1 = "post_buffers (a_rx_mem al) (a_rx_bufs al) ?m0"
  have c_apart: "c16 (mem_write r y (replicate k 0)) (x + off) = c16 r (x + off)"
    if "apart x n y k" "off + 2 \<le> n" for r x y off n k
    using apart_part [OF that] by (simp add: c16_def mem_read_apart)
  have z: "c16 (ram ?m0) (rxm ?pl + 4098) = 0"
    using nz zero_cell [of "a_rx_mem al" "a_rx_mem al + 4098" 8192 "ram m"] c_apart [OF ap(1), of 4098]
    by (simp add: ram_alloc place_of_def)
  have ring: "rx_ok ?pl (ram ?m1) 0 0" using post_buffers_ring(1) [OF b z] by (simp add: place_of_def)
  have o: "x < y \<or> y + k \<le> x" if "apart (a_rx_mem al) 8192 y k" "a_rx_mem al \<le> x \<and> x < a_rx_mem al + 8192" for x y k
    using that by (auto simp: apart_def)
  have out: "laid_out al m x = ram ?m1 x" if "a_rx_mem al \<le> x \<and> x < a_rx_mem al + 8192" for x
    using nz o [OF ap(2) that] o [OF ap(3) that] o [OF ap(5) that]
    by (simp add: laid_out_def Let_def ram_alloc mem_write_outside)
  have cells: "mem_read (laid_out al m) (a_rx_mem al + k) n = mem_read (ram ?m1) (a_rx_mem al + k) n" if "k + n \<le> 8192" for k n
    by (intro mem_read_cong out) (use that in auto)
  show "rx_ok ?pl (laid_out al m) 0 0"
    using ring cells [of 4098 2] cells [of 130 2] cells [of "132 + 2 * i" 2 for i] cells [of "16 * i" 8 for i]
    by (simp add: rx_ok_def place_of_def c16_def c64_def add.assoc)
  show "c16 (laid_out al m) (a_tx_mem al + 130) = 0"
    using nz c_apart [OF ap(4), of 130] c_apart [OF ap(6), of 130]
    by (simp add: laid_out_def Let_def ram_alloc zero_cell)
qed

text \<open>
  C26. \<open>init\<close> programs the device and lays out the rings of the link. On a device behind the registers
  of the VirtIO specification, in any state, \<open>bring_up\<close> gets through when the device accepts the version
  feature, and then the registers are exactly these: the three queues have their sizes, no vectors, the
  addresses of the descriptors, of the available ring and of the used ring of their allocations, and are
  enabled; the version feature is set; the status is acknowledged, driver, features and running; and
  the receive queue has been notified once. Driver, rings and device are in the initial state of the
  link: all eight receive buffers are available, nothing has arrived, nothing has been sent. When the
  device does not accept the feature, there is no driver and the device is not set running.
\<close>

theorem bring_up_establishes_link:
  assumes "common_conforming hw regs view r0 h accept noff cb nb mult"
    and "unat cb + 56 < 2 ^ 64" and "unat nb + 65535 * unat mult < 2 ^ 64" and "alloc_ok al"
    and "a_rx_mem al \<noteq> 0" and "a_rx_bufs al \<noteq> 0" and "a_tx_mem al \<noteq> 0" and "a_tx_bufs al \<noteq> 0" and "a_ev_mem al \<noteq> 0"
  shows "if accept ((cc_feat r0)(0 := 0, 1 := 1))
    then \<exists>d m'. bring_up p hw al cb nb mult m = Some (Some d, m') \<and> regs (dev m') = programmed al r0
      \<and> vs_placed (place_of al d) \<and> vs_inv view (place_of al d) (d, m') \<and> vs_inbox view (place_of al d) (d, m') = []
      \<and> place_of al d = \<lparr>rxm = a_rx_mem al, rxb = a_rx_bufs al, txm = a_tx_mem al, txb = a_tx_bufs al,
          rxn = nb + ucast (noff 0) * ucast mult, txn = nb + ucast (noff 1) * ucast mult\<rparr>
    else \<exists>m'. bring_up p hw al cb nb mult m = Some (None, m') \<and> cc_status (regs (dev m')) = 1 + 2 + 8"
proof (cases "accept ((cc_feat r0)(0 := 0, 1 := 1))")
  case True
  have dv: "common_device hw regs view r0 h accept noff cb nb mult" using assms(1-3) by unfold_locales
  let ?d = "\<lparr>common_base = cb, notify_base = nb, notify_mult = mult, rx_mem = a_rx_mem al, rx_bufs = a_rx_bufs al,
       rx_last_used = 0, rx_next_avail = 8, rx_notify_off = noff 0, tx_mem = a_tx_mem al, tx_bufs = a_tx_bufs al,
       tx_next_avail = 0, tx_notify_off = noff 1, fwd_cnt = 0\<rparr>"
  obtain m' where up: "bring_up p hw al cb nb mult m = Some (Some ?d, m')" "ram m' = laid_out al m"
    "regs (dev m') = programmed al r0" "view (dev m') = \<lparr>rx_seen = 0, tx_seen = 0, outbox = [], peer_state = h\<rparr>"
    using common_device.brings_up [OF dv True assms(5-9), of p m] by blast
  note cells = laid_out_cells(1) [OF assms(4-9), of ?d m, folded up(2)] laid_out_cells(2) [OF assms(4-9), of m, folded up(2)]
  have "c16 (ram m') (a_rx_mem al + 4098) = 0" using cells(1) by (simp add: rx_ok_def place_of_def)
  then have "fresh (place_of al ?d) (?d, m') = 0" by (simp add: fresh_def place_of_def)
  then have "vs_inv view (place_of al ?d) (?d, m')" "vs_inbox view (place_of al ?d) (?d, m') = []"
    using cells up(4) common_device.notify_at [OF dv]
    by (simp_all add: vs_inv_def vs_inbox_def vs_ready_def front_ok_def place_of_def arrived_def)
  moreover have "place_of al ?d = \<lparr>rxm = a_rx_mem al, rxb = a_rx_bufs al, txm = a_tx_mem al, txb = a_tx_bufs al,
      rxn = nb + ucast (noff 0) * ucast mult, txn = nb + ucast (noff 1) * ucast mult\<rparr>"
    by (simp add: place_of_def)
  ultimately show ?thesis using True up(1,3) placed_of [OF assms(4), of ?d] by auto
next
  case False
  then show ?thesis
    using common_device.refuses [OF common_device.intro [OF assms(1-3)] False, of p al m] by simp
qed

text \<open>
  A device that keeps what is written: its registers at 0xFE000000, the notifications of all queues at
  0xFE003000. It accepts exactly the version feature.
\<close>

definition reset_regs :: common_regs where
  "reset_regs = \<lparr>cc_status = 0, cc_fsel = 0, cc_feat = \<lambda>_. 0, cc_msix = 0, cc_qsel = 0,
     cc_queue = (\<lambda>_. \<lparr>cq_size = 256, cq_msix = 0, cq_enable = 0, cq_desc = 0, cq_driver = 0, cq_device = 0\<rparr>), cc_bells = []\<rparr>"

definition accepts_v1 :: "(u32 \<Rightarrow> u32) \<Rightarrow> bool" where
  "accepts_v1 feat \<longleftrightarrow> feat 0 = 0 \<and> feat 1 = 1"

abbreviation empty_link :: "nat vdev" where
  "empty_link \<equiv> \<lparr>rx_seen = 0, tx_seen = 0, outbox = [], peer_state = 0\<rparr>"

definition register_hw :: "(common_regs \<times> nat vdev) hw" where
  "register_hw =
     \<lparr>port_in = (\<lambda>w port m. (0, m)), port_out = (\<lambda>w port v m. m),
      mmio_in = (\<lambda>w a m. let c = fst (dev m) in
        (if a = 0xFE000014 then ucast (if accepts_v1 (cc_feat c) then cc_status c else cc_status c AND NOT 8) else 0, m)),
      mmio_out = (\<lambda>w a v m. let (c, l) = dev m in
        if a = 0xFE003000 then m\<lparr>dev := (c\<lparr>cc_bells := cc_bells c @ [ucast v]\<rparr>, l)\<rparr>
        else case common_write reset_regs w (unat (a - 0xFE000000)) v c of
            None \<Rightarrow> m
          | Some c' \<Rightarrow> m\<lparr>dev := (c', if a = 0xFE000014 \<and> v = 0 then empty_link else l)\<rparr>),
      sync = (\<lambda>m. m)\<rparr>"

lemma common_offsets: "common_write r0 w off v c = Some c' \<Longrightarrow>
    off = 8 \<or> off = 12 \<or> off = 16 \<or> off = 20 \<or> off = 22 \<or> off = 24 \<or> off = 26 \<or> off = 28 \<or> off = 32 \<or> off = 40 \<or> off = 48"
  by (auto simp: common_write.simps split: if_splits)

lemma register_conforming:
  "common_conforming register_hw fst snd reset_regs 0 accepts_v1 (\<lambda>_. 0) 0xFE000000 0xFE003000 4"
proof -
  have w: "let m' = mmio_out register_hw w (0xFE000000 + of_nat off) v m
         in ram m' = ram m \<and> fst (dev m') = c \<and> snd (dev m') = (if (w, off) = (1, 20) \<and> v = 0 then empty_link else snd (dev m))"
    if "common_write reset_regs w off v (fst (dev m)) = Some c" for m w off v c
    using that common_offsets [OF that]
    by (cases "dev m"; elim disjE) (auto simp: register_hw_def Let_def common_write.simps split: if_splits)
  have b: "bit ((if A then st else st AND NOT 8) :: u8) 3 \<longleftrightarrow> bit st 3 \<and> A" for A st
    by (simp add: bit_simps bit_numeral_rec)
  have s: "let (st, m') = mm8r register_hw (0xFE000000 + 20) m; c = fst (dev m)
         in (bit st 3 \<longleftrightarrow> bit (cc_status c) 3 \<and> accepts_v1 (cc_feat c))
           \<and> ram m' = ram m \<and> fst (dev m') = c \<and> snd (dev m') = snd (dev m)" for m
    by (simp add: register_hw_def mm8r_def Let_def b)
  show ?thesis
    unfolding common_conforming_def
    using w s by (auto simp: register_hw_def mm16r_def mm16w_def Let_def split: prod.split)
qed

interpretation register: common_device register_hw fst snd reset_regs 0 accepts_v1 "\<lambda>_. 0" "0xFE000000" "0xFE003000" 4
  by unfold_locales (simp_all add: register_conforming)

definition sample_alloc :: vs_alloc where
  "sample_alloc = \<lparr>a_rx_mem = 0x100000, a_rx_bufs = 0x110000, a_tx_mem = 0x120000, a_tx_bufs = 0x130000, a_ev_mem = 0x140000\<rparr>"

lemma sample_alloc_ok: "alloc_ok sample_alloc"
  by (simp add: alloc_ok_def vs_placed_def apart_def sample_alloc_def)

theorem bring_up_establishes_link_witness:
  "\<exists>d m'. bring_up Dev register_hw sample_alloc 0xFE000000 0xFE003000 4
       \<lparr>ram = \<lambda>_. 0xFF, dev = (reset_regs\<lparr>cc_status := 7\<rparr>, \<lparr>rx_seen = 3, tx_seen = 5, outbox = [], peer_state = 9\<rparr>)\<rparr> = Some (Some d, m')
     \<and> fst (dev m') = programmed sample_alloc reset_regs
     \<and> vs_inv snd (place_of sample_alloc d) (d, m')"
proof -
  have "accepts_v1 ((cc_feat reset_regs)(0 := 0, 1 := 1))" by (simp add: accepts_v1_def)
  then show ?thesis
    using bring_up_establishes_link [OF register_conforming _ _ sample_alloc_ok, of Dev
        "\<lparr>ram = \<lambda>_. 0xFF, dev = (reset_regs\<lparr>cc_status := 7\<rparr>, \<lparr>rx_seen = 3, tx_seen = 5, outbox = [], peer_state = 9\<rparr>)\<rparr>"]
    by (simp add: sample_alloc_def) blast
qed

section \<open>The event queue\<close>

text \<open>
  The event queue's used ring, which the device may write, starts one page behind the queue's
  descriptors, and one page is all that \<open>bring_up\<close> allocates for it: the device is given 22 bytes of
  someone else's memory.
\<close>

theorem event_used_ring_outside:
  "enable_queue p hw cb mem 2 m = do {
     m \<leftarrow> reg64w p hw cb OFF_Q_DESC (of_nat mem) m;
     m \<leftarrow> reg64w p hw cb OFF_Q_DRIVER (of_nat (mem + 32)) m;
     m \<leftarrow> reg64w p hw cb OFF_Q_DEVICE (of_nat (mem + unat VS_PAGE_SIZE)) m;
     reg16w p hw cb OFF_Q_ENABLE 1 m }
   \<and> unat VS_PAGE_SIZE + 22 \<le> unat (vs_queue_mem_size 2)"
  by (simp add: enable_queue_def vs.avail_at vs.used_at vs.size_at VS_PAGE_SIZE_def)

end
