(* ===== verification/VsockFile.thy ===== *)
theory VsockFile
  imports VsockInit
begin

text \<open>
  The file client of \<^verbatim>\<open>vsock.rs\<close> over its own rings, against a conforming device and a file server:
  the properties, and a model of the other side that shows the assumptions can be met. The model
  server keeps files in a map and sends its responses in packets of at most 1000 bytes; the model
  device lets three polls pass before it delivers a packet.
\<close>

section \<open>Sequences of file operations\<close>

datatype file_cmd = FRead bytes | FWrite bytes bytes | FList bytes

datatype file_ans = Contents "bytes option" | Written bool

definition file_exec :: "profile \<Rightarrow> 'd hw \<Rightarrow> vs_alloc \<Rightarrow> file_cmd \<Rightarrow> vsock option \<times> 'd machine \<Rightarrow>
    (file_ans \<times> vsock option \<times> 'd machine) option" where
  "file_exec p hw al c fs =
     (case c of
        FRead path \<Rightarrow> map_option (\<lambda>(r, fs). (Contents r, fs)) (file_read p hw al path fs)
      | FWrite path data \<Rightarrow> map_option (\<lambda>(r, fs). (Written r, fs)) (file_write p hw al path data fs)
      | FList dir \<Rightarrow> map_option (\<lambda>(r, fs). (Contents r, fs)) (file_list p hw al dir fs))"

fun file_run :: "profile \<Rightarrow> 'd hw \<Rightarrow> vs_alloc \<Rightarrow> file_cmd list \<Rightarrow> vsock option \<times> 'd machine \<Rightarrow>
    (file_ans list \<times> vsock option \<times> 'd machine) option" where
  "file_run p hw al [] fs = Some ([], fs)"
| "file_run p hw al (c # cs) fs = do {
     (r, fs) \<leftarrow> file_exec p hw al c fs;
     (rs, fs) \<leftarrow> file_run p hw al cs fs;
     Some (r # rs, fs)
   }"

text \<open>The same operations on the server's state, by what it answers.\<close>

fun file_call :: "file_cmd \<Rightarrow> u8 \<times> bytes \<times> bytes" where
  "file_call (FRead path) = (FILE_OP_READ, path, [])"
| "file_call (FWrite path data) = (FILE_OP_WRITE, path, data)"
| "file_call (FList dir) = (FILE_OP_LIST, dir, [])"

fun file_answer :: "file_cmd \<Rightarrow> u8 \<Rightarrow> bytes \<Rightarrow> file_ans" where
  "file_answer (FWrite path data) status body = Written (status = 0)"
| "file_answer _ status body = Contents (if status = 0 then Some body else None)"

fun spec_run :: "('f \<Rightarrow> u8 \<times> bytes \<times> bytes \<Rightarrow> 'f \<times> u8 \<times> bytes) \<Rightarrow> file_cmd list \<Rightarrow> 'f \<Rightarrow> file_ans list \<times> 'f" where
  "spec_run answer [] fs = ([], fs)"
| "spec_run answer (c # cs) fs =
     (case answer fs (file_call c) of (fs, status, body) \<Rightarrow>
        case spec_run answer cs fs of (rs, fs) \<Rightarrow> (file_answer c status body # rs, fs))"

fun cmd_size :: "file_cmd \<Rightarrow> nat" where
  "cmd_size (FWrite path data) = 7 + length path + length data"
| "cmd_size (FRead path) = 7 + length path"
| "cmd_size (FList dir) = 7 + length dir"

lemma file_exec_op:
  "file_exec p hw al c fs = (case file_call c of (op, path, data) \<Rightarrow>
     map_option (\<lambda>(r, fs). (case r of None \<Rightarrow> (case c of FWrite _ _ \<Rightarrow> Written False | _ \<Rightarrow> Contents None)
       | Some (ok, body) \<Rightarrow> file_answer c (if ok then 0 else 1) body, fs)) (file_op p hw al op path data fs))"
  by (cases c) (auto simp: file_exec_def file_read_def file_write_def file_list_def ok_data_def
      split: option.splits bool.splits Option.bind_splits)

context file_host
begin

lemma exec_answered:
  assumes "between inv inbox burst (d, m)" and "cmd_size c \<le> 4052" and "tidy (files (peer (d, m)))"
    and "answer (files (peer (d, m))) (file_call c) = (fs, status, body)"
  shows "\<exists>d' m'. file_exec p hw al c (Some d, m) = Some (file_answer c status body, Some d', m')
    \<and> between inv inbox burst (d', m') \<and> files (peer (d', m')) = fs \<and> tidy fs"
proof -
  obtain op path data where call: "file_call c = (op, path, data)" by (cases "file_call c")
  have "7 + length path + length data \<le> 4052" using assms(2) call by (cases c) auto
  from file_op_answered [OF assms(1) this assms(3) assms(4) [unfolded call], of al] show ?thesis
    by (auto simp: file_exec_op call) (cases c; simp)+
qed

lemma run_answered:
  assumes "between inv inbox burst (d, m)" and "list_all (\<lambda>c. cmd_size c \<le> 4052) cs" and "tidy (files (peer (d, m)))"
    and "spec_run answer cs (files (peer (d, m))) = (rs, fs)"
  shows "\<exists>d' m'. file_run p hw al cs (Some d, m) = Some (rs, Some d', m')
    \<and> between inv inbox burst (d', m') \<and> files (peer (d', m')) = fs"
  using assms
proof (induction cs arbitrary: d m rs)
  case (Cons c cs)
  obtain fs1 status body where a: "answer (files (peer (d, m))) (file_call c) = (fs1, status, body)"
    by (metis prod_cases3)
  obtain rs' where rs: "rs = file_answer c status body # rs'" "spec_run answer cs fs1 = (rs', fs)"
    using Cons.prems(4) a by (auto split: prod.splits)
  from exec_answered [OF Cons.prems(1) _ Cons.prems(3) a, of al] Cons.prems(2)
  obtain d1 m1 where 1: "file_exec p hw al c (Some d, m) = Some (file_answer c status body, Some d1, m1)"
    "between inv inbox burst (d1, m1)" "files (peer (d1, m1)) = fs1" "tidy fs1" by auto
  from Cons.IH [OF 1(2)] Cons.prems(2) 1(3,4) rs(2) obtain d2 m2 where
    "file_run p hw al cs (Some d1, m1) = Some (rs', Some d2, m2)" "between inv inbox burst (d2, m2)"
    "files (peer (d2, m2)) = fs" by auto
  with 1(1) rs(1) show ?case by auto
qed simp

end

section \<open>A driver with its server\<close>

context virtio_vsock
begin

lemma is_packet_link:
  "packet_link p hw (vs_inv view pl) (vs_inbox view pl) (vs_peer view) react (vs_lag wait pl) D"
  by unfold_locales

end

definition served :: "'d hw \<Rightarrow> ('d \<Rightarrow> 'h vdev) \<Rightarrow> ('d \<Rightarrow> nat) \<Rightarrow> nat \<Rightarrow> place \<Rightarrow>
    ('h \<Rightarrow> packet \<Rightarrow> 'h \<times> packet list) \<Rightarrow> ('h \<Rightarrow> 'f) \<Rightarrow> ('h \<Rightarrow> bool) \<Rightarrow> ('f \<Rightarrow> bool) \<Rightarrow> nat \<Rightarrow>
    ('f \<Rightarrow> u8 \<times> bytes \<times> bytes \<Rightarrow> 'f \<times> u8 \<times> bytes) \<Rightarrow> vsock \<times> 'd machine \<Rightarrow> bool" where
  "served hw view wait D pl react files connected tidy burst answer s \<longleftrightarrow>
     vs_conforming hw view wait D pl react \<and> vs_placed pl \<and> (\<forall>h pk. list_all wf_packet (snd (react h pk)))
     \<and> file_server react files connected tidy burst answer \<and> 4 * burst * (D + 1) \<le> POLLS
     \<and> 6 * burst * 4052 < 2 ^ 32
     \<and> between (vs_inv view pl) (vs_inbox view pl) burst s \<and> tidy (files (vs_peer view s))"

lemma served_host:
  assumes "served hw view wait D pl react files connected tidy burst answer s"
  shows "file_host p hw (vs_inv view pl) (vs_inbox view pl) (vs_peer view) react (vs_lag wait pl) D
    files connected tidy burst answer"
  using assms
  by (intro file_host.intro file_host_axioms.intro virtio_vsock.is_packet_link virtio_vsock.intro)
     (simp_all only: served_def)

section \<open>A model of the other side\<close>

record fhost =
  fh_files :: "8 word list \<Rightarrow> 8 word list option"
  fh_connected :: bool

function cut :: "nat \<Rightarrow> bytes \<Rightarrow> bytes list" where
  "cut k xs = (if xs = [] \<or> k = 0 then [] else take k xs # cut k (drop k xs))"
  by auto

termination by (relation "measure (\<lambda>(k, xs). length xs)") auto

declare cut.simps [simp del]

lemma cut_Nil [simp]: "cut k [] = []"
  by (simp add: cut.simps)

lemma cut_parts: "0 < k \<Longrightarrow> concat (cut k xs) = xs \<and> list_all (\<lambda>c. length c \<le> k) (cut k xs)
    \<and> length (cut k xs) \<le> length xs div k + 1"
proof (induction k xs rule: cut.induct)
  case (1 k xs)
  show ?case
  proof (cases "xs = []")
    case True
    then show ?thesis by simp
  next
    case False
    with 1 have ih: "concat (cut k (drop k xs)) = drop k xs" "list_all (\<lambda>c. length c \<le> k) (cut k (drop k xs))"
      "length (cut k (drop k xs)) \<le> length (drop k xs) div k + 1" by simp_all
    have "length xs < k \<Longrightarrow> drop k xs = []" by simp
    then have "length (cut k (drop k xs)) + 1 \<le> length xs div k + 1"
    proof (cases "length xs < k")
      case False
      then have "length xs div k = (length xs - k) div k + 1" using "1.prems" by (simp add: le_div_geq)
      with ih(3) show ?thesis by simp
    qed simp
    with False 1 ih(1,2) show ?thesis by (simp add: cut.simps [of k xs])
  qed
qed

text \<open>The server on a flat directory, as \<^verbatim>\<open>handle_connection\<close> answers.\<close>

definition flat_answer :: "(bytes \<Rightarrow> bytes option) \<Rightarrow> u8 \<times> bytes \<times> bytes \<Rightarrow> (bytes \<Rightarrow> bytes option) \<times> u8 \<times> bytes" where
  "flat_answer fs = (\<lambda>(op, path, data).
     if op = FILE_OP_READ then
       (case fs path of None \<Rightarrow> (fs, 1, str ''file not found'') | Some body \<Rightarrow> (fs, 0, body))
     else if op = FILE_OP_WRITE then (fs(path \<mapsto> data), 0, [])
     else if op = FILE_OP_LIST then (fs, 1, str ''not a directory'')
     else (fs, 1, str ''unknown operation''))"

definition host_pkt :: "u16 \<Rightarrow> bytes \<Rightarrow> packet" where
  "host_pkt op data =
     (write_hdr HOST_CID GUEST_CID HOST_FILE_PORT GUEST_FILE_PORT (of_nat (length data)) op BUF_ALLOC 0 (replicate 44 0),
      data)"

definition flat_react :: "fhost \<Rightarrow> packet \<Rightarrow> fhost \<times> packet list" where
  "flat_react h = (\<lambda>(hdr, data).
     if hdr_op hdr = VSOCK_OP_REQUEST then (h\<lparr>fh_connected := True\<rparr>, [host_pkt VSOCK_OP_RESPONSE []])
     else if hdr_op hdr = VSOCK_OP_RST then (h\<lparr>fh_connected := False\<rparr>, [])
     else if hdr_op hdr = VSOCK_OP_RW \<and> fh_connected h then
       (case parse_file_req data of
          None \<Rightarrow> (h, [])
        | Some (op, path, payload, rest) \<Rightarrow>
            (case flat_answer (fh_files h) (op, path, payload) of (fs, status, body) \<Rightarrow>
               (h\<lparr>fh_files := fs\<rparr>, map (host_pkt VSOCK_OP_RW) (cut 1000 (file_resp status body)))))
     else (h, []))"

definition flat_tidy :: "(bytes \<Rightarrow> bytes option) \<Rightarrow> bool" where
  "flat_tidy fs \<longleftrightarrow> (\<forall>path body. fs path = Some body \<longrightarrow> length body \<le> 4052)"

lemma host_pkt_op [simp]: "pkt_op (host_pkt op data) = op" "snd (host_pkt op data) = data"
  by (simp_all add: host_pkt_def pkt_op_def hdr_op_def parse_write_hdr)

lemma flat_answer_tidy:
  assumes "flat_tidy fs" and "length data \<le> 4052" and "flat_answer fs (op, path, data) = (fs', status, body)"
  shows "flat_tidy fs' \<and> length body \<le> 4052"
  using assms by (auto simp: flat_answer_def flat_tidy_def split: if_splits option.splits)

lemma response_packets:
  assumes "length body \<le> 4052"
  shows "carries status body (map (host_pkt VSOCK_OP_RW) (cut 1000 (file_resp status body)))"
    and "length (cut 1000 (file_resp status body)) \<le> 5"
proof -
  let ?r = "file_resp status body"
  have len: "length ?r = 5 + length body" by (simp add: file_resp_def)
  have parts: "concat (cut 1000 ?r) = ?r" "length (cut 1000 ?r) \<le> length ?r div 1000 + 1"
    using cut_parts [of 1000 ?r] by simp_all
  have "length ?r div 1000 \<le> 4" using assms len by simp
  with parts(2) show "length (cut 1000 ?r) \<le> 5" by simp
  have rw: "rw_data (map (host_pkt VSOCK_OP_RW) xs) = xs" for xs
    by (induction xs) (simp_all add: rw_data_def)
  have st: "stale (host_pkt VSOCK_OP_RW c)" "list_all stale (map (host_pkt VSOCK_OP_RW) xs)" for c xs
    by (induction xs) (simp_all add: stale_def vs_ops)
  have "?r \<noteq> []" by (simp add: file_resp_def)
  then have "cut 1000 ?r = take 1000 ?r # cut 1000 (drop 1000 ?r)" by (simp add: cut.simps [of 1000 ?r])
  then show "carries status body (map (host_pkt VSOCK_OP_RW) (cut 1000 ?r))"
    using assms parts(1) len unfolding carries_def rw by (auto simp: st intro!: exI [of _ "[]"])
qed

lemma accepts_one: "accepts [host_pkt VSOCK_OP_RESPONSE []]"
  unfolding accepts_def
  by (intro exI [of _ "[]"] exI [of _ "host_pkt VSOCK_OP_RESPONSE []"] conjI) simp_all

lemma flat_server: "file_server flat_react fh_files fh_connected flat_tidy 5 flat_answer"
  unfolding file_server_def
proof (intro conjI allI impI)
  fix h :: fhost and hdr op and path data :: bytes
  assume a: "hdr_op hdr = VSOCK_OP_RW \<and> p_dst_port (parse_hdr hdr) = HOST_FILE_PORT \<and> fh_connected h
    \<and> flat_tidy (fh_files h) \<and> 7 + length path + length data \<le> 4052"
  obtain fs status body where ans: "flat_answer (fh_files h) (op, path, data) = (fs, status, body)"
    by (metis prod_cases3)
  have ok: "flat_tidy fs" "length body \<le> 4052" using flat_answer_tidy [OF _ _ ans] a by simp_all
  have "parse_file_req (file_req op path data) = Some (op, path, data, [])"
    using parse_file_req_append [of path data op "[]"] a by simp
  then have re: "flat_react h (hdr, file_req op path data)
      = (h\<lparr>fh_files := fs\<rparr>, map (host_pkt VSOCK_OP_RW) (cut 1000 (file_resp status body)))"
    using a ans by (simp add: flat_react_def vs_ops)
  show "case flat_answer (fh_files h) (op, path, data) of (fs, status, body) \<Rightarrow>
      fh_files (fst (flat_react h (hdr, file_req op path data))) = fs \<and> flat_tidy fs
      \<and> carries status body (snd (flat_react h (hdr, file_req op path data)))"
    using ok response_packets(1) [OF ok(2)] by (simp add: ans re)
  show "length (snd (flat_react h (hdr, file_req op path data))) \<le> 5"
    using response_packets(2) [OF ok(2)] by (simp add: re)
qed (use accepts_one in \<open>auto simp: flat_react_def vs_ops\<close>)

lemma flat_well_formed: "list_all wf_packet (snd (flat_react h pk))"
proof -
  have "list_all wf_packet (map (host_pkt VSOCK_OP_RW) (cut 1000 xs))" for xs
    using cut_parts [of 1000 xs] by (fastforce simp: list_all_iff wf_packet_def host_pkt_def)
  then show ?thesis
    by (auto simp: flat_react_def wf_packet_def host_pkt_def split: option.splits prod.splits)
qed

text \<open>The device: three empty polls before a packet, transmission at the doorbell.\<close>

definition model_vs_hw :: "place \<Rightarrow> ('h \<Rightarrow> packet \<Rightarrow> 'h \<times> packet list) \<Rightarrow> ('h vdev \<times> nat) hw" where
  "model_vs_hw pl react =
     \<lparr>port_in = (\<lambda>w port m. (0, m)), port_out = (\<lambda>w port v m. m), mmio_in = (\<lambda>w a m. (0, m)),
      mmio_out = (\<lambda>w a v m. if a = txn pl \<and> v = 1
        then (case take_tx pl react (fst (dev m), ram m) of (x, r) \<Rightarrow> m\<lparr>ram := r, dev := (x, snd (dev m))\<rparr>) else m),
      sync = (\<lambda>m. if min (snd (dev m)) 3 = 0
        then (case deliver pl (fst (dev m), ram m) of (x, r) \<Rightarrow> m\<lparr>ram := r, dev := (x, 3)\<rparr>)
        else m\<lparr>dev := (fst (dev m), min (snd (dev m)) 3 - 1)\<rparr>)\<rparr>"

lemma model_vs_conforming: "vs_conforming (model_vs_hw pl react) fst (\<lambda>x. min (snd x) 3) 3 pl react"
  unfolding vs_conforming_def
proof (intro conjI allI)
  fix m :: "('a vdev \<times> nat) machine"
  let ?hw = "model_vs_hw pl react"
  show "min (snd x) 3 \<le> (3::nat)" for x :: "'a vdev \<times> nat" by simp
  show "\<exists>k. (fst (dev (sync ?hw m)), ram (sync ?hw m)) = (deliver pl ^^ k) (fst (dev m), ram m)
      \<and> (k = 0 \<and> outbox (fst (dev m)) \<noteq> [] \<longrightarrow> min (snd (dev (sync ?hw m))) 3 < min (snd (dev m)) 3)"
  proof (cases "min (snd (dev m)) 3 = 0")
    case True
    then show ?thesis by (intro exI [of _ 1]) (simp add: model_vs_hw_def split: prod.split)
  next
    case False
    then show ?thesis by (intro exI [of _ 0]) (auto simp: model_vs_hw_def)
  qed
  show "\<exists>k. let m' = mm16w ?hw (rxn pl) QUEUE_RX m in (fst (dev m'), ram m') = (deliver pl ^^ k) (fst (dev m), ram m)"
    by (intro exI [of _ 0]) (simp add: model_vs_hw_def mm16w_def QUEUE_RX_def)
  show "let m' = mm16w ?hw (txn pl) QUEUE_TX m in (fst (dev m'), ram m') = take_tx pl react (fst (dev m), ram m)"
    by (simp add: model_vs_hw_def mm16w_def QUEUE_TX_def split: prod.split)
qed

definition model_place :: place where
  "model_place = \<lparr>rxm = 0x100000, rxb = 0x110000, txm = 0x120000, txb = 0x130000, rxn = 0xFE003000, txn = 0xFE003004\<rparr>"

lemma model_vs_placed: "vs_placed model_place"
  by (simp add: vs_placed_def model_place_def apart_def)

interpretation model_vsock: virtio_vsock Dev "model_vs_hw model_place flat_react" fst "\<lambda>x. min (snd x) 3" 3
    model_place flat_react
  using model_vs_conforming model_vs_placed flat_well_formed by unfold_locales

interpretation model_files: file_host Dev "model_vs_hw model_place flat_react" "vs_inv fst model_place"
    "vs_inbox fst model_place" "vs_peer fst" flat_react "vs_lag (\<lambda>x. min (snd x) 3) model_place" 3
    fh_files fh_connected flat_tidy 5 flat_answer
  using flat_server by unfold_locales (simp_all add: POLLS_def)

definition model_vsock_dev :: vsock where
  "model_vsock_dev =
     \<lparr>common_base = 0xFE000000, notify_base = 0xFE003000, notify_mult = 4, rx_mem = 0x100000, rx_bufs = 0x110000,
      rx_last_used = 0, rx_next_avail = 8, rx_notify_off = 0, tx_mem = 0x120000, tx_bufs = 0x130000,
      tx_next_avail = 0, tx_notify_off = 1, fwd_cnt = 0\<rparr>"

text \<open>The state after \<open>init\<close>, with some packets already on their way.\<close>

definition model_mach :: "(bytes \<Rightarrow> bytes option) \<Rightarrow> packet list \<Rightarrow> (fhost vdev \<times> nat) machine" where
  "model_mach fs ps =
     (\<lparr>ram = laid_out sample_alloc \<lparr>ram = \<lambda>_. 0, dev = ()\<rparr>,
       dev = (\<lparr>rx_seen = 0, tx_seen = 0, outbox = ps, peer_state = \<lparr>fh_files = fs, fh_connected = False\<rparr>\<rparr>, 3)\<rparr>)"

lemma model_place_of: "place_of sample_alloc model_vsock_dev = model_place"
  by (simp add: place_of_def sample_alloc_def model_vsock_dev_def model_place_def)

lemma sample_alloc_nonzero:
  "a_rx_mem sample_alloc \<noteq> 0" "a_rx_bufs sample_alloc \<noteq> 0" "a_tx_mem sample_alloc \<noteq> 0"
  "a_tx_bufs sample_alloc \<noteq> 0" "a_ev_mem sample_alloc \<noteq> 0"
  by (simp_all add: sample_alloc_def)

lemma model_start_inv:
  assumes "list_all wf_packet ps"
  shows "vs_inv fst model_place (model_vsock_dev, model_mach fs ps)" and "vs_inbox fst model_place (model_vsock_dev, model_mach fs ps) = ps"
    and "vs_peer fst (model_vsock_dev, model_mach fs ps) = \<lparr>fh_files = fs, fh_connected = False\<rparr>"
proof -
  note nz = sample_alloc_nonzero
  let ?r = "laid_out sample_alloc \<lparr>ram = \<lambda>_. 0, dev = ()\<rparr>"
  have rx: "rx_ok model_place ?r 0 0"
    using laid_out_cells(1) [OF sample_alloc_ok nz, of model_vsock_dev] by (simp add: model_place_of)
  have tx: "c16 ?r (txm model_place + 130) = 0"
    using laid_out_cells(2) [OF sample_alloc_ok nz] by (simp add: model_place_def sample_alloc_def)
  have fr: "fresh model_place (model_vsock_dev, model_mach fs ps) = 0"
    using rx by (simp add: fresh_def model_mach_def rx_ok_def model_vsock_dev_def)
  have na: "notify_addr q 0xFE003000 0 4 = Some 0xFE003000" "notify_addr q 0xFE003000 1 4 = Some 0xFE003004" for q
    by (simp_all add: notify_addr_def add_ovf_def)
  have rdy: "vs_ready model_place model_vsock_dev"
    by (simp add: vs_ready_def model_vsock_dev_def model_place_def na)
  show "vs_inv fst model_place (model_vsock_dev, model_mach fs ps)"
    using rx tx fr rdy assms
    by (simp add: vs_inv_def model_mach_def front_ok_def) (simp add: model_vsock_dev_def)
  show "vs_inbox fst model_place (model_vsock_dev, model_mach fs ps) = ps"
    using fr by (simp add: vs_inbox_def model_mach_def arrived_def)
  show "vs_peer fst (model_vsock_dev, model_mach fs ps) = \<lparr>fh_files = fs, fh_connected = False\<rparr>"
    by (simp add: vs_peer_def model_mach_def)
qed

lemma model_served:
  assumes "flat_tidy fs"
  shows "served (model_vs_hw model_place flat_react) fst (\<lambda>x. min (snd x) 3) 3 model_place flat_react
    fh_files fh_connected flat_tidy 5 flat_answer (model_vsock_dev, model_mach fs [])"
  using model_start_inv [of "[]" fs] assms model_vs_conforming model_vs_placed flat_well_formed flat_server
  by (simp add: served_def between_def POLLS_def traffic_def) (simp add: model_mach_def model_vsock_dev_def)

section \<open>Properties\<close>

text \<open>
  C19. The file client is a remote file system: on a conforming device and with a file server, any
  sequence of reads, writes and listings that fit a packet answers, through the rings and whatever the
  delays, exactly as the server's own operations in that order, and leaves the server in that state.
\<close>

theorem file_sequence:
  assumes "served hw view wait D pl react files connected tidy burst answer (d, m)"
    and "list_all (\<lambda>c. cmd_size c \<le> 4052) cs"
    and "spec_run answer cs (files (vs_peer view (d, m))) = (rs, fs)"
  shows "\<exists>d' m'. file_run p hw al cs (Some d, m) = Some (rs, Some d', m') \<and> files (vs_peer view (d', m')) = fs"
  using file_host.run_answered [OF served_host [OF assms(1)] _ assms(2) _ assms(3), of p al] assms(1)
  by (auto simp: served_def)

theorem file_sequence_witness:
  "\<exists>d' m'. file_run Dev (model_vs_hw model_place flat_react) sample_alloc
      [FWrite (str ''a'') [1, 2], FRead (str ''a''), FRead (str ''b'')]
      (Some model_vsock_dev, model_mach Map.empty [])
    = Some ([Written True, Contents (Some [1, 2]), Contents None], Some d', m')
    \<and> fh_files (vs_peer fst (d', m')) = [str ''a'' \<mapsto> [1, 2]]"
proof -
  have "flat_tidy Map.empty" by (simp add: flat_tidy_def)
  from file_sequence [OF model_served [OF this],
      where cs = "[FWrite (str ''a'') [1, 2], FRead (str ''a''), FRead (str ''b'')]" and p = Dev and al = sample_alloc]
  show ?thesis
    using model_start_inv(3) [of "[]" Map.empty]
    by (simp add: flat_answer_def FILE_OP_READ_def FILE_OP_WRITE_def str_Cons)
qed

text \<open>
  A request that does not fit one packet halts the kernel: an application that writes more than
  4045 bytes, its path included, to a file meets the assertion in \<open>send_raw\<close>.
\<close>

theorem file_request_too_long:
  assumes "served hw view wait D pl react files connected tidy burst answer (d, m)"
    and "4045 < length path + length data"
  shows "file_write p hw al path data (Some d, m) = None"
  using file_host.file_op_too_long [OF served_host [OF assms(1)], where path = path and data = data and p = p and al = al and op = FILE_OP_WRITE] assms
  by (auto simp: file_write_def served_def)

theorem file_request_too_long_witness:
  "file_write Dev (model_vs_hw model_place flat_react) sample_alloc (str ''a'') (replicate 5000 0)
     (Some model_vsock_dev, model_mach Map.empty []) = None"
proof -
  have "flat_tidy Map.empty" by (simp add: flat_tidy_def)
  from file_request_too_long [OF model_served [OF this]]
  show ?thesis by simp
qed

text \<open>
  Discarding what is left of the previous connection ends, although its loop has no bound: every
  round but the last takes a packet of the finitely many that are to come, and those it leaves are
  still to come in their order.
\<close>

theorem drain_terminates:
  assumes "served hw view wait D pl react files connected tidy burst answer s"
  shows "\<exists>s' ps. drain_rx p hw s = Some s' \<and> vs_inbox view pl s = ps @ vs_inbox view pl s'"
proof -
  have "vs_inv view pl s" "traffic (fst s) (vs_inbox view pl s) < 2 ^ 32"
    using assms by (auto simp: served_def between_def)
  from packet_link.drain_ends [OF file_host.axioms(1) [OF served_host [OF assms]] this] show ?thesis by blast
qed

theorem drain_terminates_witness:
  "\<exists>s'. drain_rx Dev (model_vs_hw model_place flat_react) (model_vsock_dev, model_mach Map.empty []) = Some s'"
  using drain_terminates [OF model_served, of Map.empty Dev] by (auto simp: flat_tidy_def)

text \<open>
  Discarding is not enough: the drain stops at the first empty poll, and all connections use the
  same two ports, so a reset of the previous connection that arrives a little later refuses the next
  one, and a file that exists is reported as missing.
\<close>

theorem late_reset_refuses:
  assumes "vs_conforming hw view wait D pl react" and "vs_placed pl" and "\<forall>h pk. list_all wf_packet (snd (react h pk))"
    and "vs_inv view pl (d, m)" and "vs_inbox view pl (d, m) = (hdr, data) # rest" and "hdr_op hdr = VSOCK_OP_RST"
    and "try_recv p hw (d, m) = Some (None, s1)" and "traffic d (vs_inbox view pl (d, m)) < 2 ^ 32"
    and "\<forall>h hdr. hdr_op hdr = VSOCK_OP_REQUEST \<longrightarrow>
      pkt_bytes (vs_inbox view pl (d, m)) + pkt_bytes (snd (react h (hdr, []))) < 2 ^ 32"
    and "D < POLLS"
  shows "\<exists>fs. file_read p hw al path (Some d, m) = Some (None, fs)"
proof -
  have "virtio_vsock hw view wait D pl react" using assms(1-3) by unfold_locales auto
  from packet_link.late_reset [OF virtio_vsock.is_packet_link [OF this] assms(4,7,5,6) _ assms(9,10),
      of GUEST_FILE_PORT HOST_FILE_PORT] assms(8)
  obtain s' where "connect_port p hw GUEST_FILE_PORT HOST_FILE_PORT (d, m) = Some (False, s')" by auto
  then show ?thesis by (simp add: file_read_def file_op_def ensure_file_dev_def ok_data_def)
qed

theorem late_reset_refuses_witness:
  "\<exists>fs. file_read Dev (model_vs_hw model_place flat_react) sample_alloc (str ''a'')
     (Some model_vsock_dev, model_mach [str ''a'' \<mapsto> [1, 2]] [host_pkt VSOCK_OP_RST []]) = Some (None, fs)"
proof -
  let ?fs = "[str ''a'' \<mapsto> [1 :: u8, 2]]" and ?ps = "[host_pkt VSOCK_OP_RST []]"
  have wf: "list_all wf_packet ?ps" by (simp add: wf_packet_def host_pkt_def)
  note st = model_start_inv [OF wf, of ?fs]
  obtain hdr where pk: "host_pkt VSOCK_OP_RST [] = (hdr, [])" "hdr_op hdr = VSOCK_OP_RST"
    by (simp add: host_pkt_def hdr_op_def parse_write_hdr)
  have "rx_ok model_place (ram (model_mach ?fs ?ps)) 0 0"
    using laid_out_cells(1) [OF sample_alloc_ok sample_alloc_nonzero, of model_vsock_dev]
    by (simp add: model_place_of model_mach_def)
  then have "c16 (ram (model_mach ?fs ?ps)) (0x100000 + 4098) = 0" by (simp add: rx_ok_def model_place_def)
  then have first: "\<exists>s1. try_recv Dev (model_vs_hw model_place flat_react) (model_vsock_dev, model_mach ?fs ?ps) = Some (None, s1)"
    by (simp add: try_recv_def model_vsock_dev_def vs_cells rd16_def c16_def model_vs_hw_def model_mach_def Let_def)
  then obtain s1 where s1: "try_recv Dev (model_vs_hw model_place flat_react) (model_vsock_dev, model_mach ?fs ?ps) = Some (None, s1)" ..
  have box: "vs_inbox fst model_place (model_vsock_dev, model_mach ?fs ?ps) = [(hdr, [])]"
    using st(2) pk(1) by simp
  have tr: "traffic model_vsock_dev (vs_inbox fst model_place (model_vsock_dev, model_mach ?fs ?ps)) < 2 ^ 32"
    unfolding box by (simp add: traffic_def model_vsock_dev_def)
  have re: "\<forall>h hdr'. hdr_op hdr' = VSOCK_OP_REQUEST \<longrightarrow>
      pkt_bytes (vs_inbox fst model_place (model_vsock_dev, model_mach ?fs ?ps)) + pkt_bytes (snd (flat_react h (hdr', []))) < 2 ^ 32"
    unfolding box by (simp add: flat_react_def)
  show ?thesis
    by (rule late_reset_refuses [OF model_vs_conforming model_vs_placed _ st(1) box pk(2) s1 tr re])
       (simp_all add: flat_well_formed POLLS_def)
qed

end
