(* ===== verification/Serial.thy ===== *)
theory Serial
  imports Machine
begin

text \<open>
  The serial console (\<^verbatim>\<open>serial.rs\<close>): initialisation of the 16550 UART at COM1, and output with a busy
  wait for the transmit register before every byte. The wait has no bound, so it is a partial
  function: \<open>None\<close> means that it does not return.
\<close>

definition COM1 :: u16 where "COM1 = 0x3F8"

definition serial_init :: "'d hw \<Rightarrow> 'd machine \<Rightarrow> 'd machine" where
  "serial_init hw m =
     (let m = outb hw (COM1 + 1) 0x00 m;
          m = outb hw (COM1 + 3) 0x80 m;
          m = outb hw (COM1 + 0) 0x03 m;
          m = outb hw (COM1 + 1) 0x00 m;
          m = outb hw (COM1 + 3) 0x03 m;
          m = outb hw (COM1 + 2) 0xC7 m
      in outb hw (COM1 + 4) 0x0B m)"

text \<open>\<open>while inb(COM1 + 5) & 0x20 == 0 {}\<close>\<close>

partial_function (option) wait_transmit :: "'d hw \<Rightarrow> 'd machine \<Rightarrow> 'd machine option" where
  "wait_transmit hw m =
     (case inb hw (COM1 + 5) m of (v, m) \<Rightarrow> if v AND 0x20 = 0 then wait_transmit hw m else Some m)"

definition write_byte :: "'d hw \<Rightarrow> u8 \<Rightarrow> 'd machine \<Rightarrow> 'd machine option" where
  "write_byte hw b m = do { m \<leftarrow> wait_transmit hw m; Some (outb hw COM1 b m) }"

fun serial_print :: "'d hw \<Rightarrow> bytes \<Rightarrow> 'd machine \<Rightarrow> 'd machine option" where
  "serial_print hw [] m = Some m"
| "serial_print hw (b # bs) m = do {
     m \<leftarrow> (if b = 10 then write_byte hw 13 m else Some m);
     m \<leftarrow> write_byte hw b m;
     serial_print hw bs m
   }"

section \<open>The UART\<close>

text \<open>
  The part of a 16550 the driver configures, and the transmitter. Registers 0 and 1 are the divisor
  while bit 7 of the line control is set. A byte written while the transmit register is full replaces
  the byte that waits there, which the line then never carries.
\<close>

record uart =
  u_divisor :: nat
  u_line :: "8 word"
  u_irqs :: "8 word"
  u_fifo :: "8 word"
  u_modem :: "8 word"
  u_free :: bool
  u_sent :: "8 word list"

definition uart_out :: "nat \<Rightarrow> u8 \<Rightarrow> uart \<Rightarrow> uart" where
  "uart_out reg v u =
     (if reg = 0 then
        (if u_line u AND 0x80 \<noteq> 0 then u\<lparr>u_divisor := u_divisor u div 256 * 256 + unat v\<rparr>
         else if u_free u then u\<lparr>u_sent := u_sent u @ [v], u_free := False\<rparr>
         else u\<lparr>u_sent := butlast (u_sent u) @ [v]\<rparr>)
      else if reg = 1 then
        (if u_line u AND 0x80 \<noteq> 0 then u\<lparr>u_divisor := u_divisor u mod 256 + 256 * unat v\<rparr> else u\<lparr>u_irqs := v\<rparr>)
      else if reg = 2 then u\<lparr>u_fifo := v\<rparr>
      else if reg = 3 then u\<lparr>u_line := v\<rparr>
      else if reg = 4 then u\<lparr>u_modem := v\<rparr>
      else u)"

text \<open>
  A conforming UART behind the ports: writes reach its registers, the status register shows whether
  the transmit register is free, and after at most \<open>wait\<close> looks it is.
\<close>

definition uart_conforming :: "'d hw \<Rightarrow> ('d \<Rightarrow> uart) \<Rightarrow> ('d \<Rightarrow> nat) \<Rightarrow> bool" where
  "uart_conforming hw view wait \<longleftrightarrow>
     (\<forall>m reg v. reg < 5 \<longrightarrow> ram (outb hw (0x3F8 + of_nat reg) v m) = ram m \<and>
        view (dev (outb hw (0x3F8 + of_nat reg) v m)) = uart_out reg v (view (dev m)))
     \<and> (\<forall>m. let (s, m') = inb hw 0x3FD m in
          ram m' = ram m \<and> (\<exists>free. view (dev m') = (view (dev m))\<lparr>u_free := free\<rparr> \<and> (s AND 0x20 \<noteq> 0 \<longleftrightarrow> free)
            \<and> (u_free (view (dev m)) \<longrightarrow> free) \<and> (\<not> free \<longrightarrow> wait (dev m') < wait (dev m))))"

text \<open>What the line carries for a text: a carriage return before every line feed.\<close>

fun crlf :: "bytes \<Rightarrow> bytes" where
  "crlf [] = []"
| "crlf (b # bs) = (if b = 10 then [13, 10] else [b]) @ crlf bs"

locale serial_line =
  fixes hw :: "'d hw" and view :: "'d \<Rightarrow> uart" and wait :: "'d \<Rightarrow> nat"
  assumes conforming: "uart_conforming hw view wait"
begin

lemma out: "reg < 5 \<Longrightarrow> ram (outb hw (0x3F8 + of_nat reg) v m) = ram m
    \<and> view (dev (outb hw (0x3F8 + of_nat reg) v m)) = uart_out reg v (view (dev m))"
  using conforming by (simp add: uart_conforming_def)

lemma wait_ends:
  "\<exists>m'. wait_transmit hw m = Some m' \<and> ram m' = ram m \<and> view (dev m') = (view (dev m))\<lparr>u_free := True\<rparr>"
proof (induction "wait (dev m)" arbitrary: m rule: less_induct)
  case less
  obtain s m1 where i: "inb hw 0x3FD m = (s, m1)" by (cases "inb hw 0x3FD m")
  have "let (s, m') = inb hw 0x3FD m in
      ram m' = ram m \<and> (\<exists>free. view (dev m') = (view (dev m))\<lparr>u_free := free\<rparr> \<and> (s AND 0x20 \<noteq> 0 \<longleftrightarrow> free)
        \<and> (u_free (view (dev m)) \<longrightarrow> free) \<and> (\<not> free \<longrightarrow> wait (dev m') < wait (dev m)))"
    using conforming unfolding uart_conforming_def by blast
  then obtain free where f: "ram m1 = ram m" "view (dev m1) = (view (dev m))\<lparr>u_free := free\<rparr>"
    "s AND 0x20 \<noteq> 0 \<longleftrightarrow> free" "\<not> free \<longrightarrow> wait (dev m1) < wait (dev m)"
    unfolding i by (simp only: Let_def prod.case) blast
  show ?case
  proof (cases free)
    case True
    then show ?thesis using i f by (subst wait_transmit.simps) (simp add: COM1_def)
  next
    case False
    from less [OF f(4) [rule_format, OF this]] show ?thesis
      using i f False by (subst wait_transmit.simps) (simp add: COM1_def)
  qed
qed

lemma byte_sent:
  assumes "u_line (view (dev m)) AND 0x80 = 0"
  shows "\<exists>m'. write_byte hw b m = Some m' \<and> ram m' = ram m
    \<and> view (dev m') = (view (dev m))\<lparr>u_sent := u_sent (view (dev m)) @ [b], u_free := False\<rparr>"
  using wait_ends [of m] out [of 0 b] assms
  by (fastforce simp: write_byte_def COM1_def uart_out_def)

lemma text_sent:
  assumes "u_line (view (dev m)) AND 0x80 = 0"
  shows "\<exists>m'. serial_print hw bs m = Some m' \<and> ram m' = ram m \<and> u_line (view (dev m')) = u_line (view (dev m))
    \<and> u_divisor (view (dev m')) = u_divisor (view (dev m))
    \<and> u_sent (view (dev m')) = u_sent (view (dev m)) @ crlf bs"
  using assms
proof (induction bs arbitrary: m)
  case (Cons b bs)
  obtain m1 where 1: "(if b = 10 then write_byte hw 13 m else Some m) = Some m1" "ram m1 = ram m"
    "u_line (view (dev m1)) = u_line (view (dev m))" "u_divisor (view (dev m1)) = u_divisor (view (dev m))"
    "u_sent (view (dev m1)) = u_sent (view (dev m)) @ (if b = 10 then [13] else [])"
    using byte_sent [OF Cons.prems, of 13] by (cases "b = 10") auto
  obtain m2 where 2: "write_byte hw b m1 = Some m2" "ram m2 = ram m1"
    "view (dev m2) = (view (dev m1))\<lparr>u_sent := u_sent (view (dev m1)) @ [b], u_free := False\<rparr>"
    using byte_sent [of m1 b] Cons.prems 1(3) by auto
  from Cons.IH [of m2] Cons.prems 1(3) 2(3) obtain m3 where
    "serial_print hw bs m2 = Some m3" "ram m3 = ram m2" "u_line (view (dev m3)) = u_line (view (dev m2))"
    "u_divisor (view (dev m3)) = u_divisor (view (dev m2))" "u_sent (view (dev m3)) = u_sent (view (dev m2)) @ crlf bs"
    by auto
  with 1 2 show ?case by simp
qed simp

lemma line_set_up:
  defines "u m \<equiv> view (dev (serial_init hw m))"
  shows "ram (serial_init hw m) = ram m \<and> u_divisor (u m) = 3 \<and> u_line (u m) = 0x03
    \<and> (u_line (view (dev m)) AND 0x80 = 0 \<longrightarrow> u_irqs (u m) = 0)
    \<and> u_fifo (u m) = 0xC7 \<and> u_modem (u m) = 0x0B \<and> u_sent (u m) = u_sent (view (dev m))"
  using out [of 0] out [of 1] out [of 2] out [of 3] out [of 4]
  by (simp add: u_def serial_init_def COM1_def Let_def uart_out_def)

end

section \<open>A model UART\<close>

text \<open>It needs two looks to get a byte out.\<close>

definition model_uart_hw :: "(uart \<times> nat) hw" where
  "model_uart_hw =
     \<lparr>port_in = (\<lambda>w port m. if port = 0x3FD
        then (if snd (dev m) = 0 \<or> u_free (fst (dev m)) then (0x20, m\<lparr>dev := ((fst (dev m))\<lparr>u_free := True\<rparr>, 2)\<rparr>)
              else (0, m\<lparr>dev := (fst (dev m), snd (dev m) - 1)\<rparr>))
        else (0, m)),
      port_out = (\<lambda>w port v m. m\<lparr>dev := (uart_out (unat (port - 0x3F8)) (ucast v) (fst (dev m)), snd (dev m))\<rparr>),
      mmio_in = (\<lambda>w a m. (0, m)), mmio_out = (\<lambda>w a v m. m), sync = (\<lambda>m. m)\<rparr>"

lemma model_uart_conforming: "uart_conforming model_uart_hw fst snd"
  unfolding uart_conforming_def
proof (intro conjI allI impI)
  fix m :: "(uart \<times> nat) machine" and reg :: nat and v :: u8
  assume "reg < 5"
  then have "unat (of_nat reg :: u16) = reg" by (simp add: unat_of_nat)
  then show "ram (outb model_uart_hw (0x3F8 + of_nat reg) v m) = ram m"
    "fst (dev (outb model_uart_hw (0x3F8 + of_nat reg) v m)) = uart_out reg v (fst (dev m))"
    by (simp_all add: outb_def model_uart_hw_def)
next
  fix m :: "(uart \<times> nat) machine"
  show "let (s, m') = inb model_uart_hw 0x3FD m in
      ram m' = ram m \<and> (\<exists>free. fst (dev m') = (fst (dev m))\<lparr>u_free := free\<rparr> \<and> (s AND 0x20 \<noteq> 0 \<longleftrightarrow> free)
        \<and> (u_free (fst (dev m)) \<longrightarrow> free) \<and> (\<not> free \<longrightarrow> snd (dev m') < snd (dev m)))"
    by (cases "snd (dev m) = 0 \<or> u_free (fst (dev m))")
       (auto simp: inb_def model_uart_hw_def intro: exI [of _ True] exI [of _ False])
qed

interpretation model_uart: serial_line model_uart_hw fst snd
  by unfold_locales (rule model_uart_conforming)

definition idle_uart :: uart where
  "idle_uart = \<lparr>u_divisor = 0, u_line = 0, u_irqs = 0, u_fifo = 0, u_modem = 0, u_free = True, u_sent = []\<rparr>"

section \<open>Properties\<close>

text \<open>
  C36. The console prints what it is given: whatever state the UART is in, \<open>init\<close> sets it to divisor 3
  (38400 baud) and eight data bits, and after it every text comes out on the line
  completely and in order, with a carriage return before each line feed; every wait ends.
\<close>

theorem console_prints:
  assumes "uart_conforming hw view wait"
  shows "\<exists>m'. serial_print hw bs (serial_init hw m) = Some m' \<and> ram m' = ram m
    \<and> u_sent (view (dev m')) = u_sent (view (dev m)) @ crlf bs
    \<and> u_divisor (view (dev m')) = 3 \<and> u_line (view (dev m')) = 0x03"
proof -
  have line: "serial_line hw view wait" by unfold_locales (rule assms)
  show ?thesis
    using serial_line.text_sent [OF line, of "serial_init hw m" bs] serial_line.line_set_up [OF line, of m] by auto
qed

theorem console_prints_witness:
  "\<exists>m'. serial_print model_uart_hw [72, 105, 10] (serial_init model_uart_hw \<lparr>ram = \<lambda>_. 0, dev = (idle_uart, 0)\<rparr>) = Some m'
     \<and> u_sent (fst (dev m')) = [72, 105, 13, 10]"
  using console_prints [OF model_uart_conforming, of "[72, 105, 10]" "\<lparr>ram = \<lambda>_. 0, dev = (idle_uart, 0)\<rparr>"]
  by (auto simp: idle_uart_def)

end
