(* ===== verification/WasmRt.thy ===== *)
theory WasmRt
  imports Server VsockFile Serial
begin

text \<open>
  The WebAssembly runtime (\<^verbatim>\<open>wasm_rt.rs\<close>): loading a module, the host functions a module may call, and
  one request. The interpreter (wasmi) is a parameter: a record of what parsing and instantiating a
  module return and of how an instance runs until it finishes, traps or calls a host function. The
  host functions, all accesses of the kernel to linear memory and the fuel bookkeeping are modelled.

  An \<open>i32\<close> argument is a 32-bit word; \<open>as usize\<close> extends its sign. A result \<open>None\<close> is a kernel that
  does not come back: a panic, or a wait without end.
\<close>

section \<open>Constants\<close>

definition MAX_WASM_BYTES :: nat where "MAX_WASM_BYTES = 1024 * 1024"
definition MAX_WASM_MEMORY_PAGES :: nat where "MAX_WASM_MEMORY_PAGES = 16"
definition FUEL_PER_REQUEST :: nat where "FUEL_PER_REQUEST = 100000000"
definition METHOD_OFF :: nat where "METHOD_OFF = 65536"
definition METHOD_MAX :: nat where "METHOD_MAX = 256"
definition PATH_OFF :: nat where "PATH_OFF = METHOD_OFF + METHOD_MAX"
definition PATH_MAX :: nat where "PATH_MAX = 1024"
definition BODY_OFF :: nat where "BODY_OFF = PATH_OFF + PATH_MAX"
definition BODY_MAX :: nat where "BODY_MAX = 32768"

lemmas area_defs = METHOD_OFF_def METHOD_MAX_def PATH_OFF_def PATH_MAX_def BODY_OFF_def BODY_MAX_def

section \<open>Linear memory\<close>

definition i32_as_usize :: "u32 \<Rightarrow> usize" where "i32_as_usize w = scast w"

text \<open>\<open>&data[a..b]\<close> and \<open>data[a..b].copy_from_slice(src)\<close> panic outside the memory.\<close>

definition slice_at :: "nat \<Rightarrow> nat \<Rightarrow> bytes \<Rightarrow> bytes option" where
  "slice_at a b mem = (if a \<le> b \<and> b \<le> length mem then Some (bslice a (b - a) mem) else None)"

definition copy_at :: "nat \<Rightarrow> nat \<Rightarrow> bytes \<Rightarrow> bytes \<Rightarrow> bytes option" where
  "copy_at a b src mem =
     (if a \<le> b \<and> b \<le> length mem \<and> length src = b - a then Some (splice_at a src mem) else None)"

text \<open>What a host function reads: \<open>data[start..(start + len as usize).min(data.len())]\<close>.\<close>

definition host_bytes :: "profile \<Rightarrow> bytes \<Rightarrow> u32 \<Rightarrow> u32 \<Rightarrow> bytes option" where
  "host_bytes p mem ptr len = do {
     let start = i32_as_usize ptr;
     end \<leftarrow> add_ovf p start (i32_as_usize len);
     slice_at (unat start) (min (unat end) (length mem)) mem
   }"

text \<open>What a host function writes back: at most \<open>out_max\<close> bytes, and -1 when they do not fit.\<close>

definition host_copy :: "profile \<Rightarrow> u32 \<Rightarrow> u32 \<Rightarrow> bytes \<Rightarrow> bytes \<Rightarrow> (u32 \<times> bytes) option" where
  "host_copy p out_ptr out_max src mem = do {
     let copy_len = min (length src) (unat (i32_as_usize out_max));
     let start = i32_as_usize out_ptr;
     end \<leftarrow> add_ovf p start (of_nat copy_len);
     if unat end \<le> length mem then do {
       mem \<leftarrow> copy_at (unat start) (unat end) (take copy_len src) mem;
       Some (of_nat copy_len, mem)
     }
     else Some (-1, mem)
   }"

section \<open>Host functions\<close>

datatype wasm_value = NoValue | I32 "32 word" | I64 "64 word"

datatype host_call =
    HostLog "32 word" "32 word"
  | HostNow
  | HostRandom
  | HostGetFeed "32 word" "32 word"
  | HostFileRead "32 word" "32 word" "32 word" "32 word"
  | HostFileWrite "32 word" "32 word" "32 word" "32 word"
  | HostFileList "32 word" "32 word" "32 word" "32 word"

text \<open>
  The kernel under the applications: the build, the devices, the addresses for the socket driver, and
  the random number instruction with its retries (\<open>rdrand; jnc\<close>), which may never deliver.
\<close>

record 'd platform =
  pf_profile :: profile
  pf_hw :: "'d hw"
  pf_alloc :: vs_alloc
  pf_rdrand :: "'d machine \<Rightarrow> (64 word \<times> 'd machine) option"

text \<open>
  The state a host call sees and changes: the memory, if the module exports one, and the static file
  device with the machine. \<open>feed\<close> is \<open>feed_cache\<close>.
\<close>

definition host_log :: "'d platform \<Rightarrow> u32 \<Rightarrow> u32 \<Rightarrow> bytes option \<Rightarrow> 'd machine \<Rightarrow> 'd machine option" where
  "host_log pf ptr len mem m =
     (case mem of
        None \<Rightarrow> Some m
      | Some data \<Rightarrow> do {
          s \<leftarrow> host_bytes (pf_profile pf) data ptr len;
          if utf8_valid s then do {
            m \<leftarrow> serial_print (pf_hw pf) (str ''[WASM LOG] '') m;
            m \<leftarrow> serial_print (pf_hw pf) s m;
            serial_print (pf_hw pf) [10] m
          }
          else Some m
        })"

definition host_now :: "'d platform \<Rightarrow> 'd machine \<Rightarrow> (u64 \<times> 'd machine) option" where
  "host_now pf m = do {
     (t, m) \<leftarrow> read_unix_timestamp (pf_hw pf) m;
     t \<leftarrow> t;
     Some (word_of_int t, m)
   }"

definition host_get_feed :: "'d platform \<Rightarrow> bytes \<Rightarrow> u32 \<Rightarrow> u32 \<Rightarrow> bytes option \<Rightarrow> (u32 \<times> bytes option) option" where
  "host_get_feed pf feed out_ptr out_max mem =
     (if feed = [] then Some (0, mem)
      else case mem of
        None \<Rightarrow> Some (-1, mem)
      | Some data \<Rightarrow> do {
          (r, data) \<leftarrow> host_copy (pf_profile pf) out_ptr out_max feed data;
          Some (r, Some data)
        })"

text \<open>\<open>file_read\<close> and \<open>file_list\<close> differ in the operation of the file client they call.\<close>

definition host_file_get :: "(bytes \<Rightarrow> 'f \<Rightarrow> (bytes option \<times> 'f) option) \<Rightarrow> 'd platform \<Rightarrow>
    u32 \<Rightarrow> u32 \<Rightarrow> u32 \<Rightarrow> u32 \<Rightarrow> bytes option \<times> 'f \<Rightarrow> (u32 \<times> bytes option \<times> 'f) option" where
  "host_file_get op pf path_ptr path_len out_ptr out_max = (\<lambda>(mem, fs).
     case mem of
       None \<Rightarrow> Some (-1, mem, fs)
     | Some data \<Rightarrow> do {
         path \<leftarrow> host_bytes (pf_profile pf) data path_ptr path_len;
         if utf8_valid path then do {
           (result, fs) \<leftarrow> op path fs;
           (case result of
              None \<Rightarrow> Some (-1, mem, fs)
            | Some v \<Rightarrow> do {
                (r, data) \<leftarrow> host_copy (pf_profile pf) out_ptr out_max v data;
                Some (r, Some data, fs)
              })
         }
         else Some (-1, mem, fs)
       })"

definition host_file_read :: "'d platform \<Rightarrow> u32 \<Rightarrow> u32 \<Rightarrow> u32 \<Rightarrow> u32 \<Rightarrow> bytes option \<times> vsock option \<times> 'd machine \<Rightarrow>
    (u32 \<times> bytes option \<times> vsock option \<times> 'd machine) option" where
  "host_file_read pf = host_file_get (file_read (pf_profile pf) (pf_hw pf) (pf_alloc pf)) pf"

definition host_file_list :: "'d platform \<Rightarrow> u32 \<Rightarrow> u32 \<Rightarrow> u32 \<Rightarrow> u32 \<Rightarrow> bytes option \<times> vsock option \<times> 'd machine \<Rightarrow>
    (u32 \<times> bytes option \<times> vsock option \<times> 'd machine) option" where
  "host_file_list pf = host_file_get (file_list (pf_profile pf) (pf_hw pf) (pf_alloc pf)) pf"

definition host_file_write :: "'d platform \<Rightarrow> u32 \<Rightarrow> u32 \<Rightarrow> u32 \<Rightarrow> u32 \<Rightarrow> bytes option \<times> vsock option \<times> 'd machine \<Rightarrow>
    (u32 \<times> bytes option \<times> vsock option \<times> 'd machine) option" where
  "host_file_write pf path_ptr path_len data_ptr data_len = (\<lambda>(mem, fs).
     case mem of
       None \<Rightarrow> Some (-1, mem, fs)
     | Some raw \<Rightarrow> do {
         path \<leftarrow> host_bytes (pf_profile pf) raw path_ptr path_len;
         if utf8_valid path then do {
           write_data \<leftarrow> host_bytes (pf_profile pf) raw data_ptr data_len;
           (ok, fs) \<leftarrow> file_write (pf_profile pf) (pf_hw pf) (pf_alloc pf) path write_data fs;
           Some (if ok then 0 else -1, mem, fs)
         }
         else Some (-1, mem, fs)
       })"

definition host_function :: "'d platform \<Rightarrow> bytes \<Rightarrow> host_call \<Rightarrow> bytes option \<times> vsock option \<times> 'd machine \<Rightarrow>
    (wasm_value \<times> bytes option \<times> vsock option \<times> 'd machine) option" where
  "host_function pf feed c = (\<lambda>(mem, fd, m).
     case c of
       HostLog ptr len \<Rightarrow> do { m \<leftarrow> host_log pf ptr len mem m; Some (NoValue, mem, fd, m) }
     | HostNow \<Rightarrow> do { (t, m) \<leftarrow> host_now pf m; Some (I64 t, mem, fd, m) }
     | HostRandom \<Rightarrow> do { (v, m) \<leftarrow> pf_rdrand pf m; Some (I64 v, mem, fd, m) }
     | HostGetFeed out_ptr out_max \<Rightarrow> do {
         (r, mem) \<leftarrow> host_get_feed pf feed out_ptr out_max mem;
         Some (I32 r, mem, fd, m)
       }
     | HostFileRead a b c d \<Rightarrow> do { (r, s) \<leftarrow> host_file_read pf a b c d (mem, fd, m); Some (I32 r, s) }
     | HostFileWrite a b c d \<Rightarrow> do { (r, s) \<leftarrow> host_file_write pf a b c d (mem, fd, m); Some (I32 r, s) }
     | HostFileList a b c d \<Rightarrow> do { (r, s) \<leftarrow> host_file_list pf a b c d (mem, fd, m); Some (I32 r, s) })"

section \<open>Running an instance\<close>

datatype wasm_entry =
    StartFunction
  | HandleRequest "32 word" "32 word" "32 word" "32 word" "32 word" "32 word"
  | GetResponsePtr

datatype wasm_input = Enter wasm_entry | Resume wasm_value

datatype wasm_event = Finished "32 word" | Trapped | HostCall host_call

text \<open>
  The interpreter: \<open>wi_parse\<close> is \<open>Module::new\<close>, \<open>wi_minima\<close> the minimum sizes of the exported memories,
  \<open>wi_link\<close> the instance before its start function runs with the memory it exports as \<open>memory\<close>,
  \<open>wi_typed\<close> whether a function is exported with the expected type. \<open>wi_run\<close> runs with some fuel, from
  a call or from the result of a host function, to the next event, and returns the fuel left.
\<close>

record ('m, 'g) wasmi =
  wi_parse :: "8 word list \<Rightarrow> 'm option"
  wi_minima :: "'m \<Rightarrow> nat list"
  wi_link :: "'m \<Rightarrow> ('g \<times> 8 word list option) option"
  wi_typed :: "'m \<Rightarrow> string \<Rightarrow> bool"
  wi_run :: "nat \<Rightarrow> wasm_input \<Rightarrow> 'g \<times> 8 word list option \<Rightarrow> wasm_event \<times> nat \<times> 'g \<times> 8 word list option"

text \<open>A call into an instance: \<open>None\<close> inside is a trap. The number is the fuel left.\<close>

partial_function (option) guest_run :: "'d platform \<Rightarrow> ('m, 'g) wasmi \<Rightarrow> bytes \<Rightarrow> nat \<Rightarrow> wasm_input \<Rightarrow>
    ('g \<times> bytes option) \<Rightarrow> vsock option \<times> 'd machine \<Rightarrow>
    (u32 option \<times> nat \<times> ('g \<times> bytes option) \<times> vsock option \<times> 'd machine) option" where
  "guest_run pf wi feed fuel inp gm fs =
     (case wi_run wi fuel inp gm of (event, fuel, g, mem) \<Rightarrow>
        (case event of
           Finished v \<Rightarrow> Some (Some v, fuel, (g, mem), fs)
         | Trapped \<Rightarrow> Some (None, fuel, (g, mem), fs)
         | HostCall c \<Rightarrow>
             Option.bind (host_function pf feed c (mem, fs))
               (\<lambda>(v, mem, fs). guest_run pf wi feed fuel (Resume v) (g, mem) fs)))"

section \<open>An application\<close>

record 'g wasm_app =
  wa_inst :: 'g
  wa_mem :: "8 word list option"
  wa_fuel :: nat
  wa_feed :: "8 word list"

definition update_feed :: "bytes \<Rightarrow> 'g wasm_app \<Rightarrow> 'g wasm_app" where
  "update_feed data app = app\<lparr>wa_feed := data\<rparr>"

definition wasm_say :: "'d platform \<Rightarrow> string \<Rightarrow> vsock option \<times> 'd machine \<Rightarrow> (vsock option \<times> 'd machine) option" where
  "wasm_say pf text = (\<lambda>(fd, m). do { m \<leftarrow> serial_print (pf_hw pf) (str text @ [10]) m; Some (fd, m) })"

text \<open>
  The end of \<open>load\<close>: the instance, its two functions and its memory. A new store has no fuel, so a start
  function traps at once.
\<close>

definition wasm_start :: "'d platform \<Rightarrow> ('m, 'g) wasmi \<Rightarrow> 'm \<Rightarrow> vsock option \<times> 'd machine \<Rightarrow>
    ('g wasm_app option \<times> vsock option \<times> 'd machine) option" where
  "wasm_start pf wi module fs =
     (case wi_link wi module of
        None \<Rightarrow> do { fs \<leftarrow> wasm_say pf ''[WASM] instantiate failed'' fs; Some (None, fs) }
      | Some gm \<Rightarrow> do {
          (r, fuel, (g, mem), fs) \<leftarrow> guest_run pf wi [] 0 (Enter StartFunction) gm fs;
          if r = None then do { fs \<leftarrow> wasm_say pf ''[WASM] instantiate failed'' fs; Some (None, fs) }
          else if \<not> wi_typed wi module ''handle_request''
          then do { fs \<leftarrow> wasm_say pf ''[WASM] handle_request not found'' fs; Some (None, fs) }
          else if \<not> wi_typed wi module ''get_response_ptr''
          then do { fs \<leftarrow> wasm_say pf ''[WASM] get_response_ptr not found'' fs; Some (None, fs) }
          else if mem = None
          then do { fs \<leftarrow> wasm_say pf ''[WASM] memory not found'' fs; Some (None, fs) }
          else do {
            fs \<leftarrow> wasm_say pf ''[WASM] Layer B ready'' fs;
            Some (Some \<lparr>wa_inst = g, wa_mem = mem, wa_fuel = fuel, wa_feed = []\<rparr>, fs)
          }
        })"

definition wasm_load :: "'d platform \<Rightarrow> ('m, 'g) wasmi \<Rightarrow> bytes \<Rightarrow> vsock option \<times> 'd machine \<Rightarrow>
    ('g wasm_app option \<times> vsock option \<times> 'd machine) option" where
  "wasm_load pf wi wasm_bytes fs =
     (case wi_parse wi wasm_bytes of
        None \<Rightarrow> do { fs \<leftarrow> wasm_say pf ''[WASM] module parse failed'' fs; Some (None, fs) }
      | Some module \<Rightarrow>
          if \<not> list_all (\<lambda>pages. pages \<le> MAX_WASM_MEMORY_PAGES) (wi_minima wi module)
          then do { fs \<leftarrow> wasm_say pf ''[WASM] memory limit exceeded, rejected'' fs; Some (None, fs) }
          else wasm_start pf wi module fs)"

definition from_bytes :: "'d platform \<Rightarrow> ('m, 'g) wasmi \<Rightarrow> bytes \<Rightarrow> vsock option \<times> 'd machine \<Rightarrow>
    ('g wasm_app option \<times> vsock option \<times> 'd machine) option" where
  "from_bytes pf wi wasm_bytes fs =
     (if MAX_WASM_BYTES < length wasm_bytes
      then do { fs \<leftarrow> wasm_say pf ''[WASM] too large, rejected'' fs; Some (None, fs) }
      else do { fs \<leftarrow> wasm_say pf ''[WASM] loading module...'' fs; wasm_load pf wi wasm_bytes fs })"

text \<open>The module built into the kernel is a parameter.\<close>

definition wasm_init :: "'d platform \<Rightarrow> ('m, 'g) wasmi \<Rightarrow> bytes \<Rightarrow> vsock option \<times> 'd machine \<Rightarrow>
    ('g wasm_app option \<times> vsock option \<times> 'd machine) option" where
  "wasm_init pf wi fallback_wasm = from_bytes pf wi fallback_wasm"

section \<open>One request\<close>

text \<open>The three copies into linear memory.\<close>

definition place_request :: "bytes \<Rightarrow> bytes \<Rightarrow> bytes \<Rightarrow> bytes \<Rightarrow> bytes option" where
  "place_request method path body mem = do {
     let ml = min (length method) METHOD_MAX;
     mem \<leftarrow> copy_at METHOD_OFF (METHOD_OFF + ml) (take ml method) mem;
     let pl = min (length path) PATH_MAX;
     mem \<leftarrow> copy_at PATH_OFF (PATH_OFF + pl) (take pl path) mem;
     let bl = min (length body) BODY_MAX;
     copy_at BODY_OFF (BODY_OFF + bl) (take bl body) mem
   }"

text \<open>
  \<open>mem[resp_ptr..end]\<close> with the check \<open>end > mem.len()\<close> before it; \<open>resp_len\<close> is positive here.
\<close>

definition take_response :: "profile \<Rightarrow> u32 \<Rightarrow> u32 \<Rightarrow> bytes \<Rightarrow> bytes option option" where
  "take_response p ptr resp_len mem = do {
     let resp_ptr = i32_as_usize ptr;
     end \<leftarrow> add_ovf p resp_ptr (i32_as_usize resp_len);
     if length mem < unat end then Some None
     else do { resp \<leftarrow> slice_at (unat resp_ptr) (unat end) mem; Some (Some resp) }
   }"

definition handle_request :: "'d platform \<Rightarrow> ('m, 'g) wasmi \<Rightarrow> bytes \<Rightarrow> bytes \<Rightarrow> bytes \<Rightarrow>
    'g wasm_app \<times> vsock option \<times> 'd machine \<Rightarrow> (bytes option \<times> 'g wasm_app \<times> vsock option \<times> 'd machine) option" where
  "handle_request pf wi method path body = (\<lambda>(app, fs). do {
     mem \<leftarrow> wa_mem app;
     mem \<leftarrow> place_request method path body mem;
     let inp = Enter (HandleRequest
       (of_nat METHOD_OFF) (of_nat (min (length method) METHOD_MAX))
       (of_nat PATH_OFF) (of_nat (min (length path) PATH_MAX))
       (of_nat BODY_OFF) (of_nat (min (length body) BODY_MAX)));
     (r, fuel, (g, mem), fs) \<leftarrow> guest_run pf wi (wa_feed app) FUEL_PER_REQUEST inp (wa_inst app, Some mem) fs;
     let app = app\<lparr>wa_inst := g, wa_mem := mem, wa_fuel := fuel\<rparr>;
     (case r of
        None \<Rightarrow> Some (None, app, fs)
      | Some resp_len \<Rightarrow>
          if sint resp_len \<le> 0 then Some (None, app, fs)
          else do {
            (r, fuel, (g, mem), fs) \<leftarrow> guest_run pf wi (wa_feed app) fuel (Enter GetResponsePtr) (g, mem) fs;
            let app = app\<lparr>wa_inst := g, wa_mem := mem, wa_fuel := fuel\<rparr>;
            (case r of
               None \<Rightarrow> Some (None, app, fs)
             | Some ptr \<Rightarrow> do {
                 mem \<leftarrow> mem;
                 resp \<leftarrow> take_response (pf_profile pf) ptr resp_len mem;
                 Some (resp, app, fs)
               })
          })
   })"

text \<open>
  The runtime behind the main loop: the three entry points on the loop's world, whose first part holds
  the static file device beside the stack.
\<close>

definition wasm_ops :: "'d platform \<Rightarrow> ('m, 'g) wasmi \<Rightarrow> ('g wasm_app, ('n \<times> vsock option, 'd) world) app_ops" where
  "wasm_ops pf wi =
     \<lparr>app_load = (\<lambda>bs w. do {
        (r, fd, m) \<leftarrow> from_bytes pf wi bs (snd (socks w), mach w);
        Some (r, w\<lparr>socks := (fst (socks w), fd), mach := m\<rparr>)
      }),
      app_feed = update_feed,
      app_request = (\<lambda>method path body (app, w). do {
        (r, app, fd, m) \<leftarrow> handle_request pf wi method path body (app, snd (socks w), mach w);
        Some (r, app, w\<lparr>socks := (fst (socks w), fd), mach := m\<rparr>)
      })\<rparr>"

section \<open>Pointers\<close>

lemma sint_range: "- 2147483648 \<le> sint w" "sint w < 2147483648" for w :: u32
  using sint_ge [of w] sint_lt [of w] by simp_all

lemma usize_range: "unat w < 18446744073709551616" for w :: usize
  using unsigned_less [of w, where ?'a = nat] by simp

lemma i32_as_usize_value:
  "\<exists>s. unat (i32_as_usize w) = s \<and> s < 18446744073709551616
    \<and> int s = (if 0 \<le> sint w then sint w else 18446744073709551616 + sint w)"
proof -
  let ?q = "18446744073709551616 :: int"
  have m: "uint (i32_as_usize w) = sint w mod ?q"
    by (simp only: i32_as_usize_def scast_eq uint_word_of_int) simp
  have "sint w mod ?q = (if 0 \<le> sint w then sint w else ?q + sint w)"
  proof (cases "0 \<le> sint w")
    case True
    then show ?thesis using sint_range(2) [of w] by (simp add: mod_pos_pos_trivial)
  next
    case False
    have "sint w mod ?q = (sint w + ?q) mod ?q" by (simp only: mod_add_self2)
    also have "\<dots> = sint w + ?q" using False sint_range(1) [of w] by (intro mod_pos_pos_trivial) simp_all
    finally show ?thesis using False by simp
  qed
  then show ?thesis using usize_range [of "i32_as_usize w"] m by simp
qed

text \<open>An addition of two sizes, by whether it fits.\<close>

lemma add_sizes:
  fixes a b :: usize
  assumes "unat a + unat b < 18446744073709551616"
  shows "add_ovf p a b = Some (a + b)" and "unat (a + b) = unat a + unat b"
  using assms by (simp_all add: add_ovf_exact)

definition bad_range :: "nat \<Rightarrow> u32 \<Rightarrow> u32 \<Rightarrow> bool" where
  "bad_range n ptr len \<longleftrightarrow> sint ptr < 0 \<or> int n < sint ptr \<or> (sint len < 0 \<and> 0 \<le> sint ptr + sint len)"

lemma host_bytes_None:
  assumes "length mem < 4294967296"
  shows "host_bytes p mem ptr len = None \<longleftrightarrow> bad_range (length mem) ptr len"
proof -
  obtain s where s: "unat (i32_as_usize ptr) = s" "s < 18446744073709551616"
      "int s = (if 0 \<le> sint ptr then sint ptr else 18446744073709551616 + sint ptr)"
    using i32_as_usize_value by blast
  obtain l where l: "unat (i32_as_usize len) = l" "l < 18446744073709551616"
      "int l = (if 0 \<le> sint len then sint len else 18446744073709551616 + sint len)"
    using i32_as_usize_value by blast
  note r = sint_range [of ptr] sint_range [of len]
  show ?thesis
  proof (cases "s + l < 18446744073709551616")
    case True
    then have "host_bytes p mem ptr len = None \<longleftrightarrow> \<not> s \<le> min (s + l) (length mem)"
      using add_sizes [of "i32_as_usize ptr" "i32_as_usize len"] s(1) l(1)
      by (simp add: host_bytes_def slice_at_def Let_def)
    moreover have "s \<le> min (s + l) (length mem) \<longleftrightarrow> \<not> bad_range (length mem) ptr len"
      unfolding bad_range_def using True s(3) l(3) r assms by (simp split: if_splits) linarith+
    ultimately show ?thesis by simp
  next
    case False
    then have w: "unat (i32_as_usize ptr + i32_as_usize len) = s + l - 18446744073709551616"
      using s(1,2) l(1,2) by (simp add: unat_word_ariths mod_if)
    have "host_bytes p mem ptr len = None"
    proof (cases p)
      case Release
      have "\<not> s \<le> s + l - 18446744073709551616" using False l(2) by linarith
      then show ?thesis using Release w s(1) by (simp add: host_bytes_def slice_at_def Let_def)
    next
      case Dev
      then show ?thesis using False s(1) l(1) by (simp add: host_bytes_def add_ovf_def)
    qed
    moreover have "bad_range (length mem) ptr len"
      unfolding bad_range_def using False s(3) l(3) r by (simp split: if_splits)
    ultimately show ?thesis by simp
  qed
qed

definition readable :: "nat \<Rightarrow> u32 \<Rightarrow> u32 \<Rightarrow> bool" where
  "readable n ptr len \<longleftrightarrow> 0 \<le> sint ptr \<and> sint ptr \<le> int n \<and> 0 \<le> sint len"

lemma host_bytes_readable:
  assumes "readable (length mem) ptr len"
  shows "\<exists>bs. host_bytes p mem ptr len = Some bs \<and> int (length bs) \<le> sint len"
proof -
  obtain s where s: "unat (i32_as_usize ptr) = s" "int s = sint ptr"
    using assms i32_as_usize_value [of ptr] by (auto simp: readable_def)
  obtain l where l: "unat (i32_as_usize len) = l" "int l = sint len"
    using assms i32_as_usize_value [of len] by (auto simp: readable_def)
  have "s + l < 18446744073709551616" "s \<le> length mem"
    using s(2) l(2) sint_range(2) [of ptr] sint_range(2) [of len] assms by (simp_all add: readable_def)
  then show ?thesis
    using add_sizes [of "i32_as_usize ptr" "i32_as_usize len"] s(1) l by (simp add: host_bytes_def slice_at_def Let_def bslice_def)
qed

lemma host_copy_cases:
  assumes "host_copy p out_ptr out_max src mem = Some (r, mem')"
  shows "(r = -1 \<and> mem' = mem) \<or> (\<exists>a n. a = unat (i32_as_usize out_ptr) \<and> r = of_nat n \<and> n = min (length src) (unat (i32_as_usize out_max))
    \<and> a + n \<le> length mem \<and> mem' = splice_at a (take n src) mem)"
proof -
  let ?n = "min (length src) (unat (i32_as_usize out_max))"
  obtain e where e: "add_ovf p (i32_as_usize out_ptr) (of_nat ?n) = Some e"
    using assms by (auto simp: host_copy_def Let_def split: Option.bind_splits)
  then show ?thesis using assms
    by (auto simp: host_copy_def Let_def copy_at_def split: if_splits)
qed

lemma host_copy_ok:
  assumes "0 \<le> sint out_ptr" and "0 \<le> sint out_max"
  shows "\<exists>r mem'. host_copy p out_ptr out_max src mem = Some (r, mem') \<and> length mem' = length mem"
proof -
  obtain s where s: "unat (i32_as_usize out_ptr) = s" "int s = sint out_ptr"
    using assms(1) i32_as_usize_value [of out_ptr] by auto
  obtain l where l: "unat (i32_as_usize out_max) = l" "int l = sint out_max"
    using assms(2) i32_as_usize_value [of out_max] by auto
  let ?n = "min (length src) l"
  have r: "s < 2147483648" "?n < 2147483648"
    using s(2) l(2) sint_range(2) [of out_ptr] sint_range(2) [of out_max] by simp_all
  then have k: "unat (of_nat ?n :: usize) = ?n" by (simp add: unat_of_nat)
  with r show ?thesis
    using add_sizes [of "i32_as_usize out_ptr" "of_nat ?n"] s(1) l(1)
    by (simp add: host_copy_def copy_at_def Let_def del: of_nat_min)
qed

section \<open>What the kernel provides to an application\<close>

definition polite :: "nat \<Rightarrow> host_call \<Rightarrow> bool" where
  "polite n c \<longleftrightarrow>
     (case c of
        HostLog ptr len \<Rightarrow> readable n ptr len
      | HostNow \<Rightarrow> True
      | HostRandom \<Rightarrow> True
      | HostGetFeed out_ptr out_max \<Rightarrow> 0 \<le> sint out_ptr \<and> 0 \<le> sint out_max
      | HostFileRead ptr len out_ptr out_max \<Rightarrow>
          readable n ptr len \<and> sint len \<le> 4045 \<and> 0 \<le> sint out_ptr \<and> 0 \<le> sint out_max
      | HostFileWrite ptr len data data_len \<Rightarrow>
          readable n ptr len \<and> readable n data data_len \<and> sint len + sint data_len \<le> 4045
      | HostFileList ptr len out_ptr out_max \<Rightarrow>
          readable n ptr len \<and> sint len \<le> 4045 \<and> 0 \<le> sint out_ptr \<and> 0 \<le> sint out_max)"

text \<open>
  The services behind the host functions, on the states a predicate keeps: the console prints, the
  clock and the random number generator deliver, and the file client comes back from requests that
  fit a packet.
\<close>

definition services_ok :: "'d platform \<Rightarrow> (vsock option \<times> 'd machine \<Rightarrow> bool) \<Rightarrow> bool" where
  "services_ok pf ok \<longleftrightarrow>
     (\<forall>fd m text. ok (fd, m) \<longrightarrow> (\<exists>m'. serial_print (pf_hw pf) text m = Some m' \<and> ok (fd, m')))
     \<and> (\<forall>fd m. ok (fd, m) \<longrightarrow> (\<exists>t m'. read_unix_timestamp (pf_hw pf) m = Some (Some t, m') \<and> ok (fd, m')))
     \<and> (\<forall>fd m. ok (fd, m) \<longrightarrow> (\<exists>v m'. pf_rdrand pf m = Some (v, m') \<and> ok (fd, m')))
     \<and> (\<forall>fs path. ok fs \<and> length path \<le> 4045 \<longrightarrow>
          (\<exists>r fs'. file_read (pf_profile pf) (pf_hw pf) (pf_alloc pf) path fs = Some (r, fs') \<and> ok fs'))
     \<and> (\<forall>fs path data. ok fs \<and> length path + length data \<le> 4045 \<longrightarrow>
          (\<exists>r fs'. file_write (pf_profile pf) (pf_hw pf) (pf_alloc pf) path data fs = Some (r, fs') \<and> ok fs'))
     \<and> (\<forall>fs path. ok fs \<and> length path \<le> 4045 \<longrightarrow>
          (\<exists>r fs'. file_list (pf_profile pf) (pf_hw pf) (pf_alloc pf) path fs = Some (r, fs') \<and> ok fs'))"

text \<open>
  A metered interpreter uses fuel up before it calls a host function, and an application behaves when
  its memory stays, its calls are polite and its functions return no negative numbers.
\<close>

definition metered :: "('m, 'g) wasmi \<Rightarrow> bool" where
  "metered wi \<longleftrightarrow> (\<forall>fuel inp gm. case wi_run wi fuel inp gm of (ev, fuel', gm') \<Rightarrow>
     (case ev of HostCall c \<Rightarrow> fuel' < fuel | _ \<Rightarrow> True))"

definition well_behaved :: "('m, 'g) wasmi \<Rightarrow> bool" where
  "well_behaved wi \<longleftrightarrow> (\<forall>fuel inp g mem. case wi_run wi fuel inp (g, Some mem) of (ev, fuel', g', mem') \<Rightarrow>
     (\<exists>mem1. mem' = Some mem1 \<and> length mem \<le> length mem1
       \<and> (case ev of HostCall c \<Rightarrow> polite (length mem1) c | Finished v \<Rightarrow> 0 \<le> sint v | Trapped \<Rightarrow> True)))"

locale host_services =
  fixes pf :: "'d platform" and ok :: "vsock option \<times> 'd machine \<Rightarrow> bool"
  assumes services: "services_ok pf ok"
begin

lemma prints: "ok (fd, m) \<Longrightarrow> \<exists>m'. serial_print (pf_hw pf) text m = Some m' \<and> ok (fd, m')"
  using services unfolding services_ok_def by blast

lemma clock: "ok (fd, m) \<Longrightarrow> \<exists>t m'. read_unix_timestamp (pf_hw pf) m = Some (Some t, m') \<and> ok (fd, m')"
  using services unfolding services_ok_def by blast

lemma random: "ok (fd, m) \<Longrightarrow> \<exists>v m'. pf_rdrand pf m = Some (v, m') \<and> ok (fd, m')"
  using services unfolding services_ok_def by blast

lemma file_reads: "ok fs \<Longrightarrow> length path \<le> 4045 \<Longrightarrow>
    \<exists>r fs'. file_read (pf_profile pf) (pf_hw pf) (pf_alloc pf) path fs = Some (r, fs') \<and> ok fs'"
  using services unfolding services_ok_def by blast

lemma file_writes: "ok fs \<Longrightarrow> length path + length data \<le> 4045 \<Longrightarrow>
    \<exists>r fs'. file_write (pf_profile pf) (pf_hw pf) (pf_alloc pf) path data fs = Some (r, fs') \<and> ok fs'"
  using services unfolding services_ok_def by blast

lemma file_lists: "ok fs \<Longrightarrow> length path \<le> 4045 \<Longrightarrow>
    \<exists>r fs'. file_list (pf_profile pf) (pf_hw pf) (pf_alloc pf) path fs = Some (r, fs') \<and> ok fs'"
  using services unfolding services_ok_def by blast

lemma log_returns:
  assumes "readable (length mem) ptr len" and "ok (fd, m)"
  shows "\<exists>m'. host_log pf ptr len (Some mem) m = Some m' \<and> ok (fd, m')"
proof -
  obtain s where s: "host_bytes (pf_profile pf) mem ptr len = Some s"
    using host_bytes_readable [OF assms(1)] by blast
  obtain m1 where 1: "serial_print (pf_hw pf) (str ''[WASM LOG] '') m = Some m1" "ok (fd, m1)"
    using prints [OF assms(2)] by blast
  obtain m2 where 2: "serial_print (pf_hw pf) s m1 = Some m2" "ok (fd, m2)" using prints [OF 1(2)] by blast
  obtain m3 where 3: "serial_print (pf_hw pf) [10] m2 = Some m3" "ok (fd, m3)" using prints [OF 2(2)] by blast
  show ?thesis using s 1(1) 2(1) 3 assms(2) by (simp add: host_log_def del: serial_print.simps)
qed

lemma file_get_returns:
  assumes "\<And>fs path. ok fs \<Longrightarrow> length path \<le> 4045 \<Longrightarrow> \<exists>r fs'. op path fs = Some (r, fs') \<and> ok fs'"
    and "readable (length mem) ptr len" and "sint len \<le> 4045" and "0 \<le> sint out_ptr" and "0 \<le> sint out_max" and "ok fs"
  shows "\<exists>r mem' fs'. host_file_get op pf ptr len out_ptr out_max (Some mem, fs) = Some (r, Some mem', fs')
    \<and> length mem' = length mem \<and> ok fs'"
proof -
  obtain path where p: "host_bytes (pf_profile pf) mem ptr len = Some path" "length path \<le> 4045"
    using host_bytes_readable [OF assms(2), of "pf_profile pf"] assms(3) by auto
  obtain r fs1 where r: "op path fs = Some (r, fs1)" "ok fs1" using assms(1) [OF assms(6) p(2)] by blast
  show ?thesis
  proof (cases "utf8_valid path")
    case False
    then show ?thesis using p assms(6) by (simp add: host_file_get_def)
  next
    case True
    show ?thesis
    proof (cases r)
      case None
      then show ?thesis using True p r by (simp add: host_file_get_def)
    next
      case (Some v)
      then show ?thesis
        using True p r host_copy_ok [OF assms(4,5), of "pf_profile pf" v mem] by (cases fs1) (auto simp: host_file_get_def)
    qed
  qed
qed

lemma write_returns:
  assumes "readable (length mem) ptr len" and "readable (length mem) data data_len"
    and "sint len + sint data_len \<le> 4045" and "ok fs"
  shows "\<exists>r fs'. host_file_write pf ptr len data data_len (Some mem, fs) = Some (r, Some mem, fs') \<and> ok fs'"
proof -
  obtain path where p: "host_bytes (pf_profile pf) mem ptr len = Some path" "int (length path) \<le> sint len"
    using host_bytes_readable [OF assms(1)] by blast
  obtain bs where b: "host_bytes (pf_profile pf) mem data data_len = Some bs" "int (length bs) \<le> sint data_len"
    using host_bytes_readable [OF assms(2)] by blast
  have "length path + length bs \<le> 4045" using p(2) b(2) assms(3) by linarith
  from file_writes [OF assms(4) this] obtain r fs1 where
    "file_write (pf_profile pf) (pf_hw pf) (pf_alloc pf) path bs fs = Some (r, fs1)" "ok fs1" by blast
  then show ?thesis using p b assms(4) by (cases fs; cases fs1) (auto simp: host_file_write_def)
qed

lemma function_returns:
  assumes "polite (length mem) c" and "ok (fd, m)"
  shows "\<exists>v mem' fs'. host_function pf feed c (Some mem, fd, m) = Some (v, Some mem', fs')
    \<and> length mem' = length mem \<and> ok fs'"
proof (cases c)
  case (HostLog ptr len)
  then show ?thesis using log_returns [OF _ assms(2)] assms(1) by (fastforce simp: host_function_def polite_def)
next
  case HostNow
  then show ?thesis using clock [OF assms(2)] by (auto simp: host_function_def host_now_def)
next
  case HostRandom
  then show ?thesis using random [OF assms(2)] by (auto simp: host_function_def)
next
  case (HostGetFeed out_ptr out_max)
  with assms(1) have "0 \<le> sint out_ptr" "0 \<le> sint out_max" by (simp_all add: polite_def)
  from host_copy_ok [OF this, of "pf_profile pf" feed mem] show ?thesis
    using HostGetFeed assms(2) by (cases "feed = []") (auto simp: host_function_def host_get_feed_def)
next
  case (HostFileRead ptr len out_ptr out_max)
  with assms(1) have p: "readable (length mem) ptr len" "sint len \<le> 4045" "0 \<le> sint out_ptr" "0 \<le> sint out_max"
    by (simp_all add: polite_def)
  show ?thesis using file_get_returns [OF file_reads p assms(2)] HostFileRead
    by (fastforce simp: host_function_def host_file_read_def)
next
  case (HostFileWrite ptr len data data_len)
  with assms(1) have p: "readable (length mem) ptr len" "readable (length mem) data data_len"
      "sint len + sint data_len \<le> 4045"
    by (simp_all add: polite_def)
  show ?thesis using write_returns [OF p assms(2)] HostFileWrite by (fastforce simp: host_function_def)
next
  case (HostFileList ptr len out_ptr out_max)
  with assms(1) have p: "readable (length mem) ptr len" "sint len \<le> 4045" "0 \<le> sint out_ptr" "0 \<le> sint out_max"
    by (simp_all add: polite_def)
  show ?thesis using file_get_returns [OF file_lists p assms(2)] HostFileList
    by (fastforce simp: host_function_def host_file_list_def)
qed

lemma run_ends:
  assumes "metered wi" and "well_behaved wi" and "ok fs"
  shows "\<exists>r fuel' g' mem' fs'. guest_run pf wi feed fuel inp (g, Some mem) fs = Some (r, fuel', (g', Some mem'), fs')
    \<and> length mem \<le> length mem' \<and> ok fs' \<and> (case r of None \<Rightarrow> True | Some v \<Rightarrow> 0 \<le> sint v)"
  using assms(3)
proof (induction fuel arbitrary: inp g mem fs rule: less_induct)
  case (less fuel)
  obtain ev fuel1 g1 mem' where e: "wi_run wi fuel inp (g, Some mem) = (ev, fuel1, g1, mem')" by (metis prod_cases4)
  have "case wi_run wi fuel inp (g, Some mem) of (ev, fuel', g', mem') \<Rightarrow>
     (\<exists>mem1. mem' = Some mem1 \<and> length mem \<le> length mem1
       \<and> (case ev of HostCall c \<Rightarrow> polite (length mem1) c | Finished v \<Rightarrow> 0 \<le> sint v | Trapped \<Rightarrow> True))"
    by (rule assms(2) [unfolded well_behaved_def, THEN spec, THEN spec, THEN spec, THEN spec])
  then obtain mem1 where m: "mem' = Some mem1" "length mem \<le> length mem1"
    "case ev of HostCall c \<Rightarrow> polite (length mem1) c | Finished v \<Rightarrow> 0 \<le> sint v | Trapped \<Rightarrow> True"
    unfolding e by auto
  show ?case
  proof (cases ev)
    case (HostCall c)
    have "case wi_run wi fuel inp (g, Some mem) of (ev, fuel', gm') \<Rightarrow>
        (case ev of HostCall c \<Rightarrow> fuel' < fuel | _ \<Rightarrow> True)"
      by (rule assms(1) [unfolded metered_def, THEN spec, THEN spec, THEN spec])
    then have f: "fuel1 < fuel" using e HostCall by simp
    obtain fd mach where fs: "fs = (fd, mach)" by (cases fs)
    obtain v mem2 fs2 where h: "host_function pf feed c (Some mem1, fs) = Some (v, Some mem2, fs2)"
        "length mem2 = length mem1" "ok fs2"
      using function_returns [of mem1 c fd mach feed] less.prems m(3) HostCall fs by auto
    from less.IH [OF f h(3), of "Resume v" g1 mem2] obtain r fuel' g' mem3 fs' where
      "guest_run pf wi feed fuel1 (Resume v) (g1, Some mem2) fs2 = Some (r, fuel', (g', Some mem3), fs')"
      "length mem2 \<le> length mem3" "ok fs'" "case r of None \<Rightarrow> True | Some v \<Rightarrow> 0 \<le> sint v" by blast
    then show ?thesis using e m(1,2) h(1,2) HostCall by (subst guest_run.simps) auto
  qed (use e m less.prems in \<open>subst guest_run.simps, simp\<close>)+
qed

end

end
