(* ===== verification/WasmApp.thy ===== *)
theory WasmApp
  imports WasmRt
begin

text \<open>
  Properties of the WebAssembly runtime: what an application can do to the kernel through the host
  functions, where a request lies in its memory, and that a request ends. The services behind the host
  functions are interpreted on a machine with a console, a clock and the file server of the socket
  driver's theory.
\<close>

section \<open>Where a request lies\<close>

lemma take_of_min: "take (min (length xs) n) xs = take n xs"
  by (simp add: min_def)

lemma copy_at_here: "length src = n \<Longrightarrow> copy_at a (a + n) src mem = (if a + n \<le> length mem then Some (splice_at a src mem) else None)"
  by (simp add: copy_at_def)

lemma place_request_cases:
  "place_request meth path body mem =
     (if METHOD_OFF + min (length meth) METHOD_MAX \<le> length mem \<and> PATH_OFF + min (length path) PATH_MAX \<le> length mem
       \<and> BODY_OFF + min (length body) BODY_MAX \<le> length mem
      then Some (splice_at BODY_OFF (take BODY_MAX body) (splice_at PATH_OFF (take PATH_MAX path)
        (splice_at METHOD_OFF (take METHOD_MAX meth) mem)))
      else None)"
  by (simp add: place_request_def copy_at_here Let_def take_of_min)

lemma bslice_take: "take n xs = bslice 0 n xs"
  by (simp add: bslice_def)

lemma bslice_drop: "drop n xs = bslice n (length xs - n) xs"
  by (simp add: bslice_def)

definition placed :: "bytes \<Rightarrow> bytes \<Rightarrow> bytes \<Rightarrow> bytes \<Rightarrow> bytes \<Rightarrow> bool" where
  "placed meth path body mem mem' \<longleftrightarrow>
     length mem' = length mem
     \<and> bslice METHOD_OFF (min (length meth) METHOD_MAX) mem' = take METHOD_MAX meth
     \<and> bslice PATH_OFF (min (length path) PATH_MAX) mem' = take PATH_MAX path
     \<and> bslice BODY_OFF (min (length body) BODY_MAX) mem' = take BODY_MAX body
     \<and> take METHOD_OFF mem' = take METHOD_OFF mem
     \<and> drop (BODY_OFF + BODY_MAX) mem' = drop (BODY_OFF + BODY_MAX) mem"

lemma request_lies:
  assumes "99584 \<le> length mem"
  shows "\<exists>mem'. place_request meth path body mem = Some mem' \<and> placed meth path body mem mem'"
proof -
  let ?m = "take METHOD_MAX meth" and ?p = "take PATH_MAX path" and ?b = "take BODY_MAX body"
  let ?m1 = "splice_at METHOD_OFF ?m mem"
  let ?m2 = "splice_at PATH_OFF ?p ?m1"
  let ?m3 = "splice_at BODY_OFF ?b ?m2"
  have l: "METHOD_OFF + METHOD_MAX = PATH_OFF" "PATH_OFF + PATH_MAX = BODY_OFF" "BODY_OFF + BODY_MAX = 99584"
    by (simp_all add: area_defs)
  have n: "length ?m \<le> METHOD_MAX" "length ?p \<le> PATH_MAX" "length ?b \<le> BODY_MAX" by simp_all
  have 1: "METHOD_OFF + length ?m \<le> length mem" "length ?m1 = length mem"
    using assms l n(1) by (simp_all del: length_take)
  have 2: "PATH_OFF + length ?p \<le> length ?m1" "length ?m2 = length mem"
    using assms l n(2) 1(2) by (simp_all del: length_take)
  have 3: "BODY_OFF + length ?b \<le> length ?m2" "length ?m3 = length mem"
    using assms l n(3) 2(2) by (simp_all del: length_take)
  have s: "place_request meth path body mem = Some ?m3"
    using 1(1) 2(1) 3(1) 1(2) 2(2) by (simp add: place_request_cases min.commute)
  have "bslice METHOD_OFF (length ?m) ?m3 = ?m"
  proof -
    have "bslice METHOD_OFF (length ?m) ?m3 = bslice METHOD_OFF (length ?m) ?m2"
      using 1 2 3 l n(1) by (intro slice_splice_disjoint) (simp_all del: length_take)
    also have "\<dots> = bslice METHOD_OFF (length ?m) ?m1"
      using 1 2 l n(1) by (intro slice_splice_disjoint) (simp_all del: length_take)
    also have "\<dots> = ?m" using 1(1) by (intro slice_splice_same) simp_all
    finally show ?thesis .
  qed
  moreover have "bslice PATH_OFF (length ?p) ?m3 = ?p"
  proof -
    have "bslice PATH_OFF (length ?p) ?m3 = bslice PATH_OFF (length ?p) ?m2"
      using 2 3 l n(2) by (intro slice_splice_disjoint) (simp_all del: length_take)
    also have "\<dots> = ?p" using 2(1) by (intro slice_splice_same) simp_all
    finally show ?thesis .
  qed
  moreover have "bslice BODY_OFF (length ?b) ?m3 = ?b" using 3(1) by (intro slice_splice_same) simp_all
  moreover have "bslice 0 METHOD_OFF ?m3 = bslice 0 METHOD_OFF mem"
    using 1 2 3 assms l by (simp add: slice_splice_disjoint del: length_take)
  then have "take METHOD_OFF ?m3 = take METHOD_OFF mem" by (simp only: bslice_take)
  moreover have "bslice 99584 (length mem - 99584) ?m3 = bslice 99584 (length mem - 99584) mem"
    using 1 2 3 assms l n by (simp add: slice_splice_disjoint del: length_take)
  then have "drop 99584 ?m3 = drop 99584 mem" using 3(2) by (simp only: bslice_drop)
  ultimately show ?thesis using s 3(2) by (simp add: placed_def l(3) min.commute)
qed

section \<open>What a host function writes\<close>

text \<open>The window of a call by its result: where, how much, and the most it may be.\<close>

definition out_window :: "host_call \<Rightarrow> wasm_value \<Rightarrow> nat \<times> nat \<times> nat" where
  "out_window c v =
     (case v of
        I32 r \<Rightarrow>
          (let window = (\<lambda>a b. if r = -1 then (0, 0, 0) else (unat (i32_as_usize a), unat r, unat (i32_as_usize b))) in
           case c of
             HostGetFeed out_ptr out_max \<Rightarrow> window out_ptr out_max
           | HostFileRead ptr len out_ptr out_max \<Rightarrow> window out_ptr out_max
           | HostFileList ptr len out_ptr out_max \<Rightarrow> window out_ptr out_max
           | _ \<Rightarrow> (0, 0, 0))
      | _ \<Rightarrow> (0, 0, 0))"

definition confined :: "nat \<times> nat \<times> nat \<Rightarrow> bytes \<Rightarrow> bytes \<Rightarrow> bool" where
  "confined w mem mem' \<longleftrightarrow>
     (case w of (a, n, k) \<Rightarrow> length mem' = length mem \<and> n \<le> k
        \<and> (n = 0 \<or> a + n \<le> length mem) \<and> take a mem' = take a mem \<and> drop (a + n) mem' = drop (a + n) mem)"

lemma confined_nothing: "confined (0, 0, 0) mem mem"
  by (simp add: confined_def)

lemma confined_copy:
  assumes "host_copy p out_ptr out_max src mem = Some (r, mem')" and "length mem < 2147483648"
  shows "confined (if r = -1 then (0, 0, 0) else (unat (i32_as_usize out_ptr), unat r, unat (i32_as_usize out_max))) mem mem'"
  using host_copy_cases [OF assms(1)]
proof (elim disjE exE conjE)
  assume "r = -1" "mem' = mem"
  then show ?thesis by (simp add: confined_nothing)
next
  fix a n
  assume h: "a = unat (i32_as_usize out_ptr)" "r = of_nat n" "n = min (length src) (unat (i32_as_usize out_max))"
    "a + n \<le> length mem" "mem' = splice_at a (take n src) mem"
  have n: "n < 2147483648" using h(4) assms(2) by linarith
  have r: "unat r = n" using n unfolding h(2) by (simp add: unat_of_nat)
  moreover have "unat (-1 :: u32) = 4294967295" by (simp add: unsigned_minus_1_eq_mask mask_eq_exp_minus_1)
  ultimately have "r \<noteq> -1" using n by auto
  moreover have "length (take n src) = n" using h(3) by simp
  moreover have "n \<le> unat (i32_as_usize out_max)" using h(3) by simp
  ultimately show ?thesis
    using h(4) by (simp add: confined_def r h(5) flip: h(1)) (simp add: splice_at_def)
qed

lemma get_feed_confined:
  assumes "host_get_feed pf feed out_ptr out_max (Some mem) = Some (r, mem')" and "length mem < 2147483648"
  shows "\<exists>mem1. mem' = Some mem1 \<and> confined (out_window (HostGetFeed out_ptr out_max) (I32 r)) mem mem1"
proof (cases "feed = []")
  case True
  then have "r = 0" "mem' = Some mem" using assms(1) by (simp_all add: host_get_feed_def)
  then show ?thesis by (simp add: out_window_def confined_def)
next
  case False
  then obtain mem1 where "host_copy (pf_profile pf) out_ptr out_max feed mem = Some (r, mem1)" "mem' = Some mem1"
    using assms(1) by (auto simp: host_get_feed_def split: Option.bind_splits)
  then show ?thesis using confined_copy assms(2) by (simp add: out_window_def)
qed

lemma file_get_confined:
  assumes "host_file_get op pf ptr len out_ptr out_max (Some mem, fs) = Some (r, mem', fs')" and "length mem < 2147483648"
  shows "\<exists>mem1. mem' = Some mem1
    \<and> confined (if r = -1 then (0, 0, 0) else (unat (i32_as_usize out_ptr), unat r, unat (i32_as_usize out_max))) mem mem1"
proof -
  have "(r = -1 \<and> mem' = Some mem) \<or> (\<exists>v mem1. host_copy (pf_profile pf) out_ptr out_max v mem = Some (r, mem1) \<and> mem' = Some mem1)"
    using assms(1) unfolding host_file_get_def
    by (force split: Option.bind_splits if_splits option.splits)
  then show ?thesis
  proof (elim disjE exE conjE)
    assume "r = -1" "mem' = Some mem"
    then show ?thesis by (simp add: confined_nothing)
  next
    fix v mem1
    assume "host_copy (pf_profile pf) out_ptr out_max v mem = Some (r, mem1)" "mem' = Some mem1"
    then show ?thesis using confined_copy [OF _ assms(2)] by blast
  qed
qed

section \<open>A request\<close>

definition answer_in :: "bytes option \<Rightarrow> bytes \<Rightarrow> bool" where
  "answer_in r mem \<longleftrightarrow>
     (case r of
        None \<Rightarrow> True
      | Some resp \<Rightarrow> resp \<noteq> [] \<and> (\<exists>i. i + length resp \<le> length mem \<and> bslice i (length resp) mem = resp))"

lemma response_cases:
  assumes "0 \<le> sint ptr" and "0 < sint resp_len"
  shows "take_response p ptr resp_len mem =
    (if sint ptr + sint resp_len \<le> int (length mem) then Some (Some (bslice (nat (sint ptr)) (nat (sint resp_len)) mem))
     else Some None)"
proof -
  obtain s where s: "unat (i32_as_usize ptr) = s" "int s = sint ptr"
    using assms(1) i32_as_usize_value [of ptr] by auto
  obtain l where l: "unat (i32_as_usize resp_len) = l" "int l = sint resp_len"
    using assms(2) i32_as_usize_value [of resp_len] by auto
  have "s + l < 18446744073709551616"
    using s(2) l(2) sint_range(2) [of ptr] sint_range(2) [of resp_len] by simp
  then have "take_response p ptr resp_len mem = (if s + l \<le> length mem then Some (Some (bslice s l mem)) else Some None)"
    using add_sizes [of "i32_as_usize ptr" "i32_as_usize resp_len"] s(1) l(1)
    by (simp add: take_response_def slice_at_def Let_def)
  moreover have "nat (sint ptr) = s" "nat (sint resp_len) = l" using s(2) l(2) by simp_all
  moreover have "s + l \<le> length mem \<longleftrightarrow> sint ptr + sint resp_len \<le> int (length mem)" using s(2) l(2) by linarith
  ultimately show ?thesis by simp
qed

lemma response_in_memory:
  assumes "0 \<le> sint ptr" and "0 < sint resp_len"
  shows "\<exists>r. take_response p ptr resp_len mem = Some r \<and> answer_in r mem"
proof (cases "sint ptr + sint resp_len \<le> int (length mem)")
  case True
  let ?s = "nat (sint ptr)" and ?l = "nat (sint resp_len)"
  have b: "?s + ?l \<le> length mem" "0 < ?l" using True assms by linarith+
  then have k: "length (bslice ?s ?l mem) = ?l" by simp
  moreover have "bslice ?s ?l mem \<noteq> []" using k b(2) by (metis length_0_conv less_irrefl)
  ultimately have "answer_in (Some (bslice ?s ?l mem)) mem" using b(1) unfolding answer_in_def by auto
  then show ?thesis using True by (simp add: response_cases [OF assms])
qed (simp add: response_cases [OF assms] answer_in_def)

context host_services
begin

lemma request_returns:
  assumes "metered wi" and "well_behaved wi" and "ok fs" and "wa_mem app = Some mem" and "99584 \<le> length mem"
  shows "\<exists>r app' mem' fs'. handle_request pf wi meth path body (app, fs) = Some (r, app', fs')
    \<and> ok fs' \<and> wa_feed app' = wa_feed app \<and> wa_mem app' = Some mem' \<and> length mem \<le> length mem' \<and> answer_in r mem'"
proof -
  obtain mem1 where p: "place_request meth path body mem = Some mem1" "length mem1 = length mem"
    using request_lies [OF assms(5), of meth path body] unfolding placed_def by blast
  define inp where "inp = Enter (HandleRequest
       (of_nat METHOD_OFF) (of_nat (min (length meth) METHOD_MAX))
       (of_nat PATH_OFF) (of_nat (min (length path) PATH_MAX))
       (of_nat BODY_OFF) (of_nat (min (length body) BODY_MAX)))"
  obtain r f2 g2 mem2 fs2 where 2:
      "guest_run pf wi (wa_feed app) FUEL_PER_REQUEST inp (wa_inst app, Some mem1) fs = Some (r, f2, (g2, Some mem2), fs2)"
      "length mem1 \<le> length mem2" "ok fs2"
    using run_ends [OF assms(1,2,3)] by blast
  show ?thesis
  proof (cases "r = None \<or> (\<exists>v. r = Some v \<and> sint v \<le> 0)")
    case True
    then show ?thesis using p 2 assms(4) by (cases fs2) (auto simp: handle_request_def answer_in_def simp flip: inp_def)
  next
    case False
    then obtain v where v: "r = Some v" "0 < sint v" by auto
    obtain r3 f3 g3 mem3 fs3 where 3:
        "guest_run pf wi (wa_feed app) f2 (Enter GetResponsePtr) (g2, Some mem2) fs2 = Some (r3, f3, (g3, Some mem3), fs3)"
        "length mem2 \<le> length mem3" "ok fs3" "case r3 of None \<Rightarrow> True | Some v \<Rightarrow> 0 \<le> sint v"
      using run_ends [OF assms(1,2) 2(3)] by blast
    show ?thesis
    proof (cases r3)
      case None
      then show ?thesis using p 2 3 v assms(4) by (cases fs3) (simp add: handle_request_def answer_in_def flip: inp_def)
    next
      case (Some ptr)
      then obtain resp where "take_response (pf_profile pf) ptr v mem3 = Some resp" "answer_in resp mem3"
        using response_in_memory [OF _ v(2)] 3(4) by fastforce
      then show ?thesis using Some p 2 3 v assms(4) by (cases fs3) (simp add: handle_request_def flip: inp_def)
    qed
  qed
qed

lemma says: "ok fs \<Longrightarrow> \<exists>fs'. wasm_say pf text fs = Some fs' \<and> ok fs'"
proof (cases fs)
  case (Pair fd m)
  assume "ok fs"
  with Pair obtain m' where "serial_print (pf_hw pf) (str text @ [10]) m = Some m'" "ok (fd, m')"
    using prints [of fd m "str text @ [10]"] by blast
  then show ?thesis using Pair by (simp add: wasm_say_def)
qed

lemma load_accepts:
  assumes "ok fs" and "length bs \<le> MAX_WASM_BYTES" and "wi_parse wi bs = Some md"
    and "list_all (\<lambda>pages. pages \<le> MAX_WASM_MEMORY_PAGES) (wi_minima wi md)" and "wi_link wi md = Some gm"
    and "wi_run wi 0 (Enter StartFunction) gm = (Finished v, 0, g, Some mem)"
    and "wi_typed wi md ''handle_request''" and "wi_typed wi md ''get_response_ptr''"
  shows "\<exists>app fs'. from_bytes pf wi bs fs = Some (Some app, fs') \<and> ok fs' \<and> wa_mem app = Some mem"
proof -
  obtain fs1 where 1: "wasm_say pf ''[WASM] loading module...'' fs = Some fs1" "ok fs1" using says [OF assms(1)] by blast
  obtain fs2 where 2: "wasm_say pf ''[WASM] Layer B ready'' fs1 = Some fs2" "ok fs2" using says [OF 1(2)] by blast
  have "guest_run pf wi [] 0 (Enter StartFunction) gm fs1 = Some (Some v, 0, (g, Some mem), fs1)"
    using assms(6) by (subst guest_run.simps) simp
  then show ?thesis using 1 2 assms by (cases fs1; cases fs2) (simp add: from_bytes_def wasm_load_def wasm_start_def)
qed

lemma log_panics:
  assumes "length mem < 4294967296" and "ok (fd, m)"
  shows "host_function pf feed (HostLog ptr len) (Some mem, fd, m) = None \<longleftrightarrow> bad_range (length mem) ptr len"
proof (cases "host_bytes (pf_profile pf) mem ptr len")
  case None
  then show ?thesis using host_bytes_None [OF assms(1), of "pf_profile pf" ptr len] by (simp add: host_function_def host_log_def)
next
  case (Some s)
  obtain m1 where 1: "serial_print (pf_hw pf) (str ''[WASM LOG] '') m = Some m1" "ok (fd, m1)"
    using prints [OF assms(2)] by blast
  obtain m2 where 2: "serial_print (pf_hw pf) s m1 = Some m2" "ok (fd, m2)" using prints [OF 1(2)] by blast
  obtain m3 where 3: "serial_print (pf_hw pf) [10] m2 = Some m3" using prints [OF 2(2)] by blast
  show ?thesis
    using Some host_bytes_None [OF assms(1), of "pf_profile pf" ptr len] 1(1) 2(1) 3
    by (simp add: host_function_def host_log_def del: serial_print.simps)
qed

end

lemma small_memory_panics:
  assumes "wa_mem app = Some mem" and "length mem \<le> 65536" and "meth \<noteq> []"
  shows "handle_request pf wi meth path body (app, fs) = None"
proof -
  have "0 < min (length meth) METHOD_MAX" using assms(3) by (simp add: METHOD_MAX_def)
  then have "\<not> METHOD_OFF + min (length meth) METHOD_MAX \<le> length mem" using assms(2) by (simp only: METHOD_OFF_def)
  then have "place_request meth path body mem = None" by (simp only: place_request_cases) simp
  then show ?thesis using assms(1) by (simp add: handle_request_def)
qed

section \<open>The services on a machine with a file server\<close>

text \<open>
  The model of the socket device and the file server with two more chips on its ports: a UART whose
  transmitter is always free and a clock that stands still.
\<close>

definition desk_hw :: "(fhost vdev \<times> nat) hw" where
  "desk_hw = (model_vs_hw model_place flat_react)
     \<lparr>port_in := (\<lambda>w port m. (if port = 0x3FD then 0x20 else if port = 0x71 then 1 else 0xFFFFFFFF, m))\<rparr>"

definition desk :: "(fhost vdev \<times> nat) platform" where
  "desk = \<lparr>pf_profile = Dev, pf_hw = desk_hw, pf_alloc = sample_alloc, pf_rdrand = (\<lambda>m. Some (4, m))\<rparr>"

definition desk_ok :: "vsock option \<times> (fhost vdev \<times> nat) machine \<Rightarrow> bool" where
  "desk_ok = (\<lambda>(fd, m). case fd of None \<Rightarrow> False | Some d \<Rightarrow>
     served desk_hw fst (\<lambda>x. min (snd x) 3) 3 model_place flat_react fh_files fh_connected flat_tidy 5 flat_answer (d, m))"

lemma desk_conforming: "vs_conforming desk_hw fst (\<lambda>x. min (snd x) 3) 3 model_place flat_react"
  using model_vs_conforming [of model_place flat_react]
  by (simp add: vs_conforming_def desk_hw_def mm16w_def)

lemma desk_starts:
  assumes "flat_tidy fs"
  shows "desk_ok (Some model_vsock_dev, model_mach fs [])"
  using model_served [OF assms] desk_conforming by (simp add: served_def desk_ok_def)

lemma desk_ports: "inb desk_hw port m = (if port = 0x3FD then 0x20 else if port = 0x71 then 1 else 0xFF, m)"
    "outb desk_hw port v m = m"
  by (simp_all add: inb_def outb_def desk_hw_def model_vs_hw_def)

lemma desk_prints: "serial_print desk_hw bs m = Some m"
proof (induction bs)
  case (Cons b bs)
  have "write_byte desk_hw b m = Some m" for b
    unfolding write_byte_def by (subst wait_transmit.simps) (simp add: desk_ports COM1_def)
  then show ?case using Cons by simp
qed simp

lemma desk_clock: "\<exists>t. read_unix_timestamp desk_hw m = Some (Some t, m)"
proof -
  have r: "cmos_read desk_hw reg m = (1, m)" for reg
    by (simp add: cmos_read_def desk_ports CMOS_ADDR_def CMOS_DATA_def)
  have "wait_update desk_hw m = Some m" by (subst wait_update.simps) (simp add: r)
  moreover have "decode_reg 1 1 = 1" by (simp add: decode_reg_def bcd_to_bin_def)
  ultimately show ?thesis
    by (simp add: read_unix_timestamp_def r timestamp_def i64_as_usize_def month_loop.simps Let_def)
qed

lemma desk_exec:
  assumes "desk_ok (fd, m)" and "cmd_size c \<le> 4052"
  shows "\<exists>r fs'. file_exec Dev desk_hw sample_alloc c (fd, m) = Some (r, fs') \<and> desk_ok fs'"
proof -
  obtain d where d: "fd = Some d" "served desk_hw fst (\<lambda>x. min (snd x) 3) 3 model_place flat_react fh_files fh_connected
      flat_tidy 5 flat_answer (d, m)"
    using assms(1) by (auto simp: desk_ok_def split: option.splits)
  obtain fs status body where a: "flat_answer (fh_files (vs_peer fst (d, m))) (file_call c) = (fs, status, body)"
    by (metis prod_cases3)
  from file_host.exec_answered [OF served_host [OF d(2)] _ assms(2) _ a, of Dev sample_alloc] d
  show ?thesis by (auto simp: served_def desk_ok_def)
qed

lemma desk_services: "services_ok desk desk_ok"
proof -
  have get: "\<exists>r fs'. file_read Dev desk_hw sample_alloc path fs = Some (r, fs') \<and> desk_ok fs'"
    if "desk_ok fs" "length path \<le> 4045" for fs path
    using desk_exec [of "fst fs" "snd fs" "FRead path"] that by (auto simp: file_exec_def)
  have put: "\<exists>r fs'. file_write Dev desk_hw sample_alloc path data fs = Some (r, fs') \<and> desk_ok fs'"
    if "desk_ok fs" "length path + length data \<le> 4045" for fs path data
    using desk_exec [of "fst fs" "snd fs" "FWrite path data"] that by (auto simp: file_exec_def)
  have list: "\<exists>r fs'. file_list Dev desk_hw sample_alloc path fs = Some (r, fs') \<and> desk_ok fs'"
    if "desk_ok fs" "length path \<le> 4045" for fs path
    using desk_exec [of "fst fs" "snd fs" "FList path"] that by (auto simp: file_exec_def)
  show ?thesis
    unfolding services_ok_def using get put list desk_clock by (simp add: desk_def desk_prints) blast
qed

interpretation desk_host: host_services desk desk_ok
  by unfold_locales (rule desk_services)

section \<open>Sample applications\<close>

text \<open>
  The interpreter of two small modules. The first byte of a module is the size of its memory in
  pages. On a request, module 1 reads a file through the kernel and answers \<open>OK\<close>; module 2 answers with
  the path of the request.
\<close>

definition sample_run :: "nat \<Rightarrow> wasm_input \<Rightarrow> nat \<times> bytes option \<Rightarrow> wasm_event \<times> nat \<times> nat \<times> bytes option" where
  "sample_run fuel inp = (\<lambda>(kind, mem).
     case mem of
       None \<Rightarrow> (Trapped, fuel, kind, mem)
     | Some data \<Rightarrow>
         (case inp of
            Enter StartFunction \<Rightarrow> (Finished 0, fuel, kind, mem)
          | Enter GetResponsePtr \<Rightarrow> (Finished 0, fuel, kind, mem)
          | Resume v \<Rightarrow> (Finished 2, fuel, kind, Some (str ''OK'' @ drop 2 data))
          | Enter (HandleRequest mp ml pp pl bp bl) \<Rightarrow>
              if fuel = 0 \<or> length data < 99584 \<or> sint pl < 0 \<or> 1024 < unat pl then (Trapped, fuel, kind, mem)
              else if kind = 1 then (HostCall (HostFileRead 65792 1 0 16), fuel - 1, kind, mem)
              else (Finished pl, fuel - 1, kind, Some (bslice PATH_OFF (unat pl) data @ drop (unat pl) data))))"

definition sample_wasmi :: "(bytes, nat) wasmi" where
  "sample_wasmi =
     \<lparr>wi_parse = (\<lambda>bs. if length bs < 2 then None else Some bs), wi_minima = (\<lambda>bs. [unat (bs ! 0)]),
      wi_link = (\<lambda>bs. Some (unat (bs ! 1), Some (replicate (unat (bs ! 0) * 65536) 0))),
      wi_typed = (\<lambda>bs name. True), wi_run = sample_run\<rparr>"

definition sample_app :: "nat \<Rightarrow> nat wasm_app" where
  "sample_app kind = \<lparr>wa_inst = kind, wa_mem = Some (replicate 131072 0), wa_fuel = 0, wa_feed = []\<rparr>"

lemma sample_metered: "metered sample_wasmi"
  by (auto simp: metered_def sample_wasmi_def sample_run_def split: option.split wasm_input.split wasm_entry.split)

lemma sample_behaves: "well_behaved sample_wasmi"
  by (auto simp: well_behaved_def sample_wasmi_def sample_run_def polite_def readable_def bslice_def PATH_OFF_def METHOD_OFF_def METHOD_MAX_def
      split: wasm_input.split wasm_entry.split)

section \<open>Properties\<close>

text \<open>
  C20. A request to an application ends, and the kernel survives it: on a metered interpreter and with
  an application that behaves (its pointers lie in its memory, its file requests fit a packet), the
  handler returns, whatever the request is and whatever the host functions answer; the services, the
  feed and the memory are kept, and a response is a piece of the application's memory that is not empty.
\<close>

theorem request_ends:
  assumes "services_ok pf ok" and "metered wi" and "well_behaved wi"
    and "ok fs" and "wa_mem app = Some mem" and "99584 \<le> length mem"
  shows "\<exists>r app' mem' fs'. handle_request pf wi meth path body (app, fs) = Some (r, app', fs')
    \<and> ok fs' \<and> wa_feed app' = wa_feed app \<and> wa_mem app' = Some mem' \<and> length mem \<le> length mem' \<and> answer_in r mem'"
proof -
  have "host_services pf ok" by unfold_locales (rule assms(1))
  from host_services.request_returns [OF this assms(2-6)] show ?thesis .
qed

theorem request_ends_witness:
  "\<exists>r app' mem' fs'. handle_request desk sample_wasmi (str ''GET'') (str ''/'') []
      (sample_app 1, Some model_vsock_dev, model_mach Map.empty []) = Some (r, app', fs')
    \<and> desk_ok fs' \<and> wa_feed app' = [] \<and> wa_mem app' = Some mem' \<and> 131072 \<le> length mem' \<and> answer_in r mem'"
proof -
  have "flat_tidy Map.empty" by (simp add: flat_tidy_def)
  from request_ends [OF desk_services sample_metered sample_behaves desk_starts [OF this],
      where app = "sample_app 1" and mem = "replicate 131072 0"]
  show ?thesis by (simp add: sample_app_def)
qed

text \<open>
  An application that computes \<open>resp\<close>: started on the placed request, it finishes with a positive length,
  and the piece of its memory that it then points to is \<open>resp\<close>.
\<close>

definition computes :: "('m, 'g) wasmi \<Rightarrow> 'g wasm_app \<Rightarrow> bytes \<Rightarrow> bytes \<Rightarrow> bytes \<Rightarrow> bytes \<Rightarrow> bool" where
  "computes wi app meth path body resp \<longleftrightarrow> (\<exists>mem ptr len. wa_mem app = Some mem \<and> 99584 \<le> length mem
     \<and> 0 \<le> sint ptr \<and> 0 < sint len \<and> (\<forall>mem1. placed meth path body mem mem1 \<longrightarrow> (\<exists>mem2 fuel g fuel' g'.
      wi_run wi FUEL_PER_REQUEST (Enter (HandleRequest
          65536 (of_nat (min (length meth) 256)) 65792 (of_nat (min (length path) 1024))
          66816 (of_nat (min (length body) 32768)))) (wa_inst app, Some mem1) = (Finished len, fuel, g, Some mem2)
      \<and> wi_run wi fuel (Enter GetResponsePtr) (g, Some mem2) = (Finished ptr, fuel', g', Some mem2)
      \<and> sint ptr + sint len \<le> int (length mem2) \<and> bslice (nat (sint ptr)) (nat (sint len)) mem2 = resp)))"

lemma page_computed:
  assumes "computes wi app meth path body resp"
  shows "\<exists>app'. handle_request pf wi meth path body (app, fs) = Some (Some resp, app', fs)"
proof -
  obtain mem ptr len where app: "wa_mem app = Some mem" "99584 \<le> length mem" "0 \<le> sint ptr" "0 < sint len"
    and run: "\<forall>mem1. placed meth path body mem mem1 \<longrightarrow> (\<exists>mem2 fuel g fuel' g'.
      wi_run wi FUEL_PER_REQUEST (Enter (HandleRequest
          65536 (of_nat (min (length meth) 256)) 65792 (of_nat (min (length path) 1024))
          66816 (of_nat (min (length body) 32768)))) (wa_inst app, Some mem1) = (Finished len, fuel, g, Some mem2)
      \<and> wi_run wi fuel (Enter GetResponsePtr) (g, Some mem2) = (Finished ptr, fuel', g', Some mem2)
      \<and> sint ptr + sint len \<le> int (length mem2) \<and> bslice (nat (sint ptr)) (nat (sint len)) mem2 = resp)"
    using assms unfolding computes_def by blast
  obtain mem1 where p: "place_request meth path body mem = Some mem1" "placed meth path body mem mem1"
    using request_lies [OF app(2)] by blast
  obtain mem2 fuel g fuel' g' where w:
      "wi_run wi FUEL_PER_REQUEST (Enter (HandleRequest
          65536 (of_nat (min (length meth) 256)) 65792 (of_nat (min (length path) 1024))
          66816 (of_nat (min (length body) 32768)))) (wa_inst app, Some mem1) = (Finished len, fuel, g, Some mem2)"
      "wi_run wi fuel (Enter GetResponsePtr) (g, Some mem2) = (Finished ptr, fuel', g', Some mem2)"
      "sint ptr + sint len \<le> int (length mem2)" "bslice (nat (sint ptr)) (nat (sint len)) mem2 = resp"
    using run p(2) by blast
  have t: "take_response (pf_profile pf) ptr len mem2 = Some (Some resp)"
    using w(3,4) by (simp add: response_cases [OF app(3,4)])
  show ?thesis
    using p(1) w(1,2) t app(1,4) by (simp add: handle_request_def area_defs guest_run.simps [of pf wi])
qed

text \<open>
  The same for an application that calls the kernel on the way: from the services' state \<open>fs\<close> to \<open>fs'\<close>,
  with the results that the host functions give it.
\<close>

definition answers :: "'d platform \<Rightarrow> ('m, 'g) wasmi \<Rightarrow> 'g wasm_app \<Rightarrow> vsock option \<times> 'd machine \<Rightarrow>
    bytes \<Rightarrow> bytes \<Rightarrow> bytes \<Rightarrow> bytes \<Rightarrow> vsock option \<times> 'd machine \<Rightarrow> bool" where
  "answers pf wi app fs meth path body resp fs' \<longleftrightarrow> (\<exists>mem ptr len. wa_mem app = Some mem \<and> 99584 \<le> length mem
     \<and> 0 \<le> sint ptr \<and> 0 < sint len \<and> (\<forall>mem1. placed meth path body mem mem1 \<longrightarrow> (\<exists>fuel g mem2 fs1 fuel' g' mem3.
      guest_run pf wi (wa_feed app) FUEL_PER_REQUEST (Enter (HandleRequest
          65536 (of_nat (min (length meth) 256)) 65792 (of_nat (min (length path) 1024))
          66816 (of_nat (min (length body) 32768)))) (wa_inst app, Some mem1) fs = Some (Some len, fuel, (g, mem2), fs1)
      \<and> guest_run pf wi (wa_feed app) fuel (Enter GetResponsePtr) (g, mem2) fs1 = Some (Some ptr, fuel', (g', Some mem3), fs')
      \<and> sint ptr + sint len \<le> int (length mem3) \<and> bslice (nat (sint ptr)) (nat (sint len)) mem3 = resp)))"

lemma page_answered:
  assumes "answers pf wi app fs meth path body resp fs'"
  shows "\<exists>app'. handle_request pf wi meth path body (app, fs) = Some (Some resp, app', fs')"
proof -
  obtain mem ptr len where app: "wa_mem app = Some mem" "99584 \<le> length mem" "0 \<le> sint ptr" "0 < sint len"
    and run: "\<forall>mem1. placed meth path body mem mem1 \<longrightarrow> (\<exists>fuel g mem2 fs1 fuel' g' mem3.
      guest_run pf wi (wa_feed app) FUEL_PER_REQUEST (Enter (HandleRequest
          65536 (of_nat (min (length meth) 256)) 65792 (of_nat (min (length path) 1024))
          66816 (of_nat (min (length body) 32768)))) (wa_inst app, Some mem1) fs = Some (Some len, fuel, (g, mem2), fs1)
      \<and> guest_run pf wi (wa_feed app) fuel (Enter GetResponsePtr) (g, mem2) fs1 = Some (Some ptr, fuel', (g', Some mem3), fs')
      \<and> sint ptr + sint len \<le> int (length mem3) \<and> bslice (nat (sint ptr)) (nat (sint len)) mem3 = resp)"
    using assms unfolding answers_def by blast
  obtain mem1 where p: "place_request meth path body mem = Some mem1" "placed meth path body mem mem1"
    using request_lies [OF app(2)] by blast
  obtain fuel g mem2 fs1 fuel' g' mem3 where w:
      "guest_run pf wi (wa_feed app) FUEL_PER_REQUEST (Enter (HandleRequest
          65536 (of_nat (min (length meth) 256)) 65792 (of_nat (min (length path) 1024))
          66816 (of_nat (min (length body) 32768)))) (wa_inst app, Some mem1) fs = Some (Some len, fuel, (g, mem2), fs1)"
      "guest_run pf wi (wa_feed app) fuel (Enter GetResponsePtr) (g, mem2) fs1 = Some (Some ptr, fuel', (g', Some mem3), fs')"
      "sint ptr + sint len \<le> int (length mem3)" "bslice (nat (sint ptr)) (nat (sint len)) mem3 = resp"
    using run p(2) by blast
  have t: "take_response (pf_profile pf) ptr len mem3 = Some (Some resp)"
    using w(3,4) by (simp add: response_cases [OF app(3,4)])
  show ?thesis using p(1) w(1,2) t app(1,4) by (simp add: handle_request_def area_defs)
qed

text \<open>The first sample application answers through the file client, the second alone.\<close>

lemma sample_answers:
  assumes "path \<noteq> []" and "utf8_valid (take 1 path)" and "desk_ok fs"
  shows "\<exists>fs'. answers desk sample_wasmi (sample_app 1) fs meth path body (str ''OK'') fs' \<and> desk_ok fs'"
proof -
  obtain r fs' where r: "file_read Dev desk_hw sample_alloc (take 1 path) fs = Some (r, fs')" "desk_ok fs'"
    using desk_host.file_reads [OF assms(3), of "take 1 path"] by (auto simp: desk_def min.coboundedI2)
  have "answers desk sample_wasmi (sample_app 1) fs meth path body (str ''OK'') fs'"
    unfolding answers_def
  proof (rule exI [of _ "replicate 131072 0"], rule exI [of _ 0], rule exI [of _ 2], intro conjI allI impI)
    fix mem1 assume p: "placed meth path body (replicate 131072 0) mem1"
    have n: "length mem1 = 131072" using p by (simp add: placed_def)
    have "bslice PATH_OFF (min (length path) 1024) mem1 = take 1024 path" using p by (simp add: placed_def PATH_MAX_def)
    then have "take 1 (bslice PATH_OFF (min (length path) 1024) mem1) = take 1 path" by simp
    then have path: "bslice 65792 (Suc 0) mem1 = take (Suc 0) path"
      using assms(1) by (cases path) (simp_all add: bslice_def PATH_OFF_def METHOD_OFF_def METHOD_MAX_def)
    have b: "host_bytes Dev mem1 65792 1 = Some (take (Suc 0) path)"
      using path n by (simp add: host_bytes_def i32_as_usize_def add_ovf_def slice_at_def)
    let ?inp = "Enter (HandleRequest 65536 (of_nat (min (length meth) 256)) 65792 (of_nat (min (length path) 1024))
          66816 (of_nat (min (length body) 32768)))"
    have pl: "unat (of_nat (min (length path) 1024) :: u32) \<le> 1024" "0 \<le> sint (of_nat (min (length path) 1024) :: u32)"
      by (simp_all add: unat_of_nat signed_of_nat signed_take_bit_int_eq_self)
    have 1: "wi_run sample_wasmi FUEL_PER_REQUEST ?inp (wa_inst (sample_app 1), Some mem1)
        = (HostCall (HostFileRead 65792 1 0 16), FUEL_PER_REQUEST - 1, 1, Some mem1)"
      using n pl by (simp add: sample_wasmi_def sample_run_def sample_app_def FUEL_PER_REQUEST_def not_less)
    have "\<exists>v mem2. host_function desk [] (HostFileRead 65792 1 0 16) (Some mem1, fs) = Some (v, Some mem2, fs')
        \<and> length mem2 = length mem1"
    proof (cases r)
      case None
      then show ?thesis using r(1) b assms(2)
        by (cases fs) (simp add: host_function_def host_file_read_def host_file_get_def desk_def)
    next
      case (Some v)
      then show ?thesis using r(1) b assms(2) host_copy_ok [of 0 16 Dev v mem1]
        by (cases fs) (fastforce simp: host_function_def host_file_read_def host_file_get_def desk_def)
    qed
    then obtain v mem2 where h: "host_function desk [] (HostFileRead 65792 1 0 16) (Some mem1, fs) = Some (v, Some mem2, fs')"
      "length mem2 = length mem1" by blast
    let ?mem3 = "str ''OK'' @ drop 2 mem2"
    have feed: "wa_feed (sample_app 1) = []" by (simp add: sample_app_def)
    have run: "guest_run desk sample_wasmi [] fuel (Resume v) (1, Some mem2) fs' = Some (Some 2, fuel, (1, Some ?mem3), fs')"
      "guest_run desk sample_wasmi [] fuel (Enter GetResponsePtr) (1, Some m) fs' = Some (Some 0, fuel, (1, Some m), fs')" for fuel m
      by (subst guest_run.simps, simp add: sample_wasmi_def sample_run_def)+
    have "guest_run desk sample_wasmi (wa_feed (sample_app 1)) FUEL_PER_REQUEST ?inp (wa_inst (sample_app 1), Some mem1) fs
        = Some (Some 2, FUEL_PER_REQUEST - 1, (1, Some ?mem3), fs')"
      using h(1) run(1) by (subst guest_run.simps) (simp add: 1 feed del: One_nat_def)
    then show "\<exists>fuel g mem2 fs1 fuel' g' mem3.
      guest_run desk sample_wasmi (wa_feed (sample_app 1)) FUEL_PER_REQUEST ?inp (wa_inst (sample_app 1), Some mem1) fs
        = Some (Some 2, fuel, (g, mem2), fs1)
      \<and> guest_run desk sample_wasmi (wa_feed (sample_app 1)) fuel (Enter GetResponsePtr) (g, mem2) fs1
        = Some (Some 0, fuel', (g', Some mem3), fs')
      \<and> sint (0 :: u32) + sint (2 :: u32) \<le> int (length mem3) \<and> bslice (nat (sint (0 :: u32))) (nat (sint (2 :: u32))) mem3 = str ''OK''"
      using run(2) n h(2)
      by (intro exI [of _ "FUEL_PER_REQUEST - 1"] exI [of _ 1] exI [of _ "Some ?mem3"] exI [of _ fs'] exI [of _ ?mem3])
        (simp add: sample_app_def bslice_def str_def)
  qed (simp_all add: sample_app_def)
  with r(2) show ?thesis by blast
qed

text \<open>
  C21. The page an application computes is the page that is sent: it finds method, path and body, cut
  to their limits, at the three places of its memory that it is told, with the rest of the memory as
  it was, and what it names as its response is returned unchanged.
\<close>

theorem page_returned:
  assumes "wa_mem app = Some mem" and "99584 \<le> length mem" and "0 \<le> sint ptr" and "0 < sint len"
    and "\<forall>mem1. placed meth path body mem mem1 \<longrightarrow> (\<exists>mem2.
      wi_run wi FUEL_PER_REQUEST (Enter (HandleRequest
          65536 (of_nat (min (length meth) 256)) 65792 (of_nat (min (length path) 1024))
          66816 (of_nat (min (length body) 32768)))) (wa_inst app, Some mem1) = (Finished len, fuel, g, Some mem2)
      \<and> wi_run wi fuel (Enter GetResponsePtr) (g, Some mem2) = (Finished ptr, fuel', g', Some mem2)
      \<and> sint ptr + sint len \<le> int (length mem2) \<and> bslice (nat (sint ptr)) (nat (sint len)) mem2 = resp)"
  shows "\<exists>app'. handle_request pf wi meth path body (app, fs) = Some (Some resp, app', fs)"
proof (rule page_computed)
  show "computes wi app meth path body resp"
    unfolding computes_def
    by (rule exI [of _ mem], rule exI [of _ ptr], rule exI [of _ len], intro conjI allI impI assms(1-4)) (use assms(5) in blast)
qed


theorem page_returned_witness:
  "\<exists>app'. handle_request desk sample_wasmi (str ''GET'') (str ''/eq'') []
    (sample_app 2, Some model_vsock_dev, model_mach Map.empty [])
    = Some (Some (str ''/eq''), app', Some model_vsock_dev, model_mach Map.empty [])"
proof (rule page_returned)
  show "wa_mem (sample_app 2) = Some (replicate 131072 0)" by (simp add: sample_app_def)
  show "99584 \<le> length (replicate 131072 (0 :: u8))" by simp
  show "0 \<le> sint (0 :: u32)" "0 < sint (3 :: u32)" by simp_all
  show "\<forall>mem1. placed (str ''GET'') (str ''/eq'') [] (replicate 131072 0) mem1 \<longrightarrow> (\<exists>mem2.
      wi_run sample_wasmi FUEL_PER_REQUEST (Enter (HandleRequest
          65536 (of_nat (min (length (str ''GET'')) 256)) 65792 (of_nat (min (length (str ''/eq'')) 1024))
          66816 (of_nat (min (length []) 32768)))) (wa_inst (sample_app 2), Some mem1)
        = (Finished 3, FUEL_PER_REQUEST - 1, 2, Some mem2)
      \<and> wi_run sample_wasmi (FUEL_PER_REQUEST - 1) (Enter GetResponsePtr) (2, Some mem2)
        = (Finished 0, FUEL_PER_REQUEST - 1, 2, Some mem2)
      \<and> sint (0 :: u32) + sint (3 :: u32) \<le> int (length mem2)
      \<and> bslice (nat (sint (0 :: u32))) (nat (sint (3 :: u32))) mem2 = str ''/eq'')"
  proof (intro allI impI)
    fix mem1
    assume p: "placed (str ''GET'') (str ''/eq'') [] (replicate 131072 0) mem1"
    then have "take 3 (drop 65792 mem1) = str ''/eq''" "length mem1 = 131072"
      by (simp_all add: placed_def bslice_def str_def PATH_OFF_def METHOD_OFF_def METHOD_MAX_def PATH_MAX_def numeral_3_eq_3)
    then show "\<exists>mem2.
      wi_run sample_wasmi FUEL_PER_REQUEST (Enter (HandleRequest
          65536 (of_nat (min (length (str ''GET'')) 256)) 65792 (of_nat (min (length (str ''/eq'')) 1024))
          66816 (of_nat (min (length []) 32768)))) (wa_inst (sample_app 2), Some mem1)
        = (Finished 3, FUEL_PER_REQUEST - 1, 2, Some mem2)
      \<and> wi_run sample_wasmi (FUEL_PER_REQUEST - 1) (Enter GetResponsePtr) (2, Some mem2)
        = (Finished 0, FUEL_PER_REQUEST - 1, 2, Some mem2)
      \<and> sint (0 :: u32) + sint (3 :: u32) \<le> int (length mem2)
      \<and> bslice (nat (sint (0 :: u32))) (nat (sint (3 :: u32))) mem2 = str ''/eq''"
      by (simp add: sample_wasmi_def sample_run_def sample_app_def FUEL_PER_REQUEST_def str_def
        PATH_OFF_def METHOD_OFF_def METHOD_MAX_def bslice_def)
  qed
qed

text \<open>
  C22. Linear memory is not written outside the buffer an application hands over: whatever host
  function it calls with whatever arguments, if the call returns, the memory keeps its size and every
  byte outside the buffer; what was written is as long as the result says and no longer than \<open>out_max\<close>.
\<close>

theorem host_call_confined:
  assumes "host_function pf feed c (Some mem, fs) = Some (v, mem', fs')" and "length mem < 2147483648"
  shows "\<exists>mem1. mem' = Some mem1 \<and> confined (out_window c v) mem mem1"
proof -
  obtain fd m where fs: "fs = (fd, m)" by (cases fs)
  show ?thesis
  proof (cases c)
    case (HostGetFeed out_ptr out_max)
    then show ?thesis using assms get_feed_confined [OF _ assms(2)]
      by (auto simp: host_function_def fs split: Option.bind_splits)
  next
    case (HostFileRead ptr len out_ptr out_max)
    then obtain r where "host_file_get (file_read (pf_profile pf) (pf_hw pf) (pf_alloc pf)) pf ptr len out_ptr out_max (Some mem, fs)
        = Some (r, mem', fs')" "v = I32 r"
      using assms(1) by (auto simp: host_function_def host_file_read_def fs split: Option.bind_splits)
    then show ?thesis using file_get_confined [OF _ assms(2)] HostFileRead by (fastforce simp: out_window_def Let_def)
  next
    case (HostFileList ptr len out_ptr out_max)
    then obtain r where "host_file_get (file_list (pf_profile pf) (pf_hw pf) (pf_alloc pf)) pf ptr len out_ptr out_max (Some mem, fs)
        = Some (r, mem', fs')" "v = I32 r"
      using assms(1) by (auto simp: host_function_def host_file_list_def fs split: Option.bind_splits)
    then show ?thesis using file_get_confined [OF _ assms(2)] HostFileList by (fastforce simp: out_window_def Let_def)
  qed (use assms(1) confined_nothing in \<open>auto simp: host_function_def host_file_write_def fs out_window_def
    split: Option.bind_splits if_splits\<close>)
qed

theorem host_call_confined_witness:
  "\<exists>mem1. Some (splice_at 2 [7, 8] (replicate 6 0)) = Some mem1
    \<and> confined (out_window (HostGetFeed 2 3) (I32 2)) (replicate 6 0) mem1"
proof (rule host_call_confined)
  show "host_function desk [7, 8] (HostGetFeed 2 3) (Some (replicate 6 0), None, model_mach Map.empty [])
      = Some (I32 2, Some (splice_at 2 [7, 8] (replicate 6 0)), None, model_mach Map.empty [])"
    by (simp add: host_function_def host_get_feed_def host_copy_def copy_at_def i32_as_usize_def Let_def desk_def
        add_ovf_def)
qed simp

text \<open>
  The pointers that halt the kernel, over the signed numbers that an application passes. What it reads for
  a pointer and a length that are not bad: to the end of the memory when the length is negative. And the
  buffers that are bad to write \<open>k\<close> bytes to, with the machine's addresses (64 bits, a negative number
  counts from their end): those whose end wraps around, in the development profile always and in a
  release when it wraps into the memory.
\<close>

definition arg_bytes :: "bytes \<Rightarrow> u32 \<Rightarrow> u32 \<Rightarrow> bytes" where
  "arg_bytes mem ptr len =
     (if 0 \<le> sint len then take (nat (sint len)) (drop (nat (sint ptr)) mem) else drop (nat (sint ptr)) mem)"

definition bad_copy :: "profile \<Rightarrow> nat \<Rightarrow> nat \<Rightarrow> u32 \<Rightarrow> u32 \<Rightarrow> bool" where
  "bad_copy p n k out_ptr out_max \<longleftrightarrow>
     (let end = sint out_ptr mod 18446744073709551616 + min (int k) (sint out_max mod 18446744073709551616)
      in 18446744073709551616 \<le> end \<and> (p = Dev \<or> end - 18446744073709551616 \<le> int n))"

text \<open>What a file operation with a path does to the kernel, by what its client returns.\<close>

definition get_panics :: "profile \<Rightarrow> nat \<Rightarrow> (bytes option \<times> 'f) option \<Rightarrow> u32 \<Rightarrow> u32 \<Rightarrow> bool" where
  "get_panics p n r out_ptr out_max \<longleftrightarrow>
     (case r of
        None \<Rightarrow> True
      | Some (None, fs) \<Rightarrow> False
      | Some (Some content, fs) \<Rightarrow> bad_copy p n (length content) out_ptr out_max)"

lemma usize_of_i32: "int (unat (i32_as_usize w)) = sint w mod 18446744073709551616"
proof -
  obtain s where s: "unat (i32_as_usize w) = s" "int s = (if 0 \<le> sint w then sint w else 18446744073709551616 + sint w)"
    using i32_as_usize_value by blast
  have "sint w mod 18446744073709551616 = (if 0 \<le> sint w then sint w else 18446744073709551616 + sint w)"
  proof (cases "0 \<le> sint w")
    case True
    then show ?thesis using sint_range(2) [of w] by (simp add: mod_pos_pos_trivial)
  next
    case False
    have "sint w mod 18446744073709551616 = (sint w + 18446744073709551616) mod 18446744073709551616"
      by (simp only: mod_add_self2)
    also have "\<dots> = sint w + 18446744073709551616" using False sint_range(1) [of w] by (intro mod_pos_pos_trivial) simp_all
    finally show ?thesis using False by simp
  qed
  with s show ?thesis by simp
qed

lemma host_copy_None: "host_copy p out_ptr out_max src mem = None \<longleftrightarrow> bad_copy p (length mem) (length src) out_ptr out_max"
proof -
  obtain s where s: "unat (i32_as_usize out_ptr) = s" "int s = sint out_ptr mod 18446744073709551616"
    using usize_of_i32 [of out_ptr] by blast
  obtain l where l: "unat (i32_as_usize out_max) = l" "int l = sint out_max mod 18446744073709551616"
    using usize_of_i32 [of out_max] by blast
  let ?c = "min (length src) l"
  have lt: "s < 18446744073709551616" "l < 18446744073709551616"
    using usize_range [of "i32_as_usize out_ptr"] usize_range [of "i32_as_usize out_max"] s(1) l(1) by simp_all
  then have c: "unat (of_nat ?c :: usize) = ?c" by (simp add: unat_of_nat del: of_nat_min)
  have bad: "bad_copy p (length mem) (length src) out_ptr out_max \<longleftrightarrow>
      18446744073709551616 \<le> s + ?c \<and> (p = Dev \<or> s + ?c - 18446744073709551616 \<le> length mem)"
  proof -
    have "int s + min (int (length src)) (int l) = int (s + ?c)" by simp
    moreover have "18446744073709551616 \<le> int x \<longleftrightarrow> 18446744073709551616 \<le> x" for x by linarith
    moreover have "int x - 18446744073709551616 \<le> int y \<longleftrightarrow> x - 18446744073709551616 \<le> y" if "18446744073709551616 \<le> x" for x y
      using that by linarith
    ultimately show ?thesis unfolding bad_copy_def Let_def s(2) [symmetric] l(2) [symmetric] by metis
  qed
  show ?thesis
  proof (cases "s + ?c < 18446744073709551616")
    case True
    then have "host_copy p out_ptr out_max src mem \<noteq> None"
      using add_sizes [of "i32_as_usize out_ptr" "of_nat ?c"] s(1) l(1) c
      by (simp add: host_copy_def copy_at_def Let_def del: of_nat_min)
    then show ?thesis using True bad by simp
  next
    case False
    then have w: "unat (i32_as_usize out_ptr + of_nat ?c) = s + ?c - 18446744073709551616"
      using s(1) lt c by (simp add: unat_word_ariths mod_if del: of_nat_min)
    show ?thesis
    proof (cases p)
      case Dev
      then show ?thesis using False s(1) l(1) c bad
        by (simp add: host_copy_def add_ovf_def Let_def del: of_nat_min)
    next
      case Release
      have "\<not> s \<le> s + ?c - 18446744073709551616" using False lt by linarith
      then show ?thesis using Release False s(1) l(1) c w bad
        by (simp add: host_copy_def copy_at_def Let_def del: of_nat_min)
    qed
  qed
qed

lemma host_bytes_arg:
  assumes "length mem < 4294967296" and "\<not> bad_range (length mem) ptr len"
  shows "host_bytes p mem ptr len = Some (arg_bytes mem ptr len)"
proof -
  obtain s where s: "unat (i32_as_usize ptr) = s" "int s = sint ptr"
    using assms(2) i32_as_usize_value [of ptr] by (auto simp: bad_range_def)
  obtain l where l: "unat (i32_as_usize len) = l" "int l = (if 0 \<le> sint len then sint len else 18446744073709551616 + sint len)"
    using i32_as_usize_value [of len] by blast
  have fit: "s + l < 18446744073709551616" "s \<le> length mem"
    using assms(2) s(2) l(2) sint_range(2) [of ptr] sint_range(2) [of len] by (auto simp: bad_range_def split: if_splits)
  have "host_bytes p mem ptr len = Some (take l (drop s mem))"
    using add_sizes [of "i32_as_usize ptr" "i32_as_usize len"] s(1) l(1) fit
    by (simp add: host_bytes_def slice_at_def Let_def bslice_def min_def)
  moreover have "nat (sint ptr) = s" using s(2) by simp
  moreover have "l = nat (sint len)" if "0 \<le> sint len" using l(2) that by simp
  moreover have "length mem \<le> l" if "\<not> 0 \<le> sint len" using l(2) that assms(1) sint_range(1) [of len] by simp
  ultimately show ?thesis by (cases "0 \<le> sint len") (simp_all add: arg_bytes_def)
qed

lemma get_panic_cases:
  assumes "length mem < 4294967296"
  shows "host_file_get op pf ptr len out_ptr out_max (Some mem, fs) = None \<longleftrightarrow> bad_range (length mem) ptr len
    \<or> (utf8_valid (arg_bytes mem ptr len) \<and> get_panics (pf_profile pf) (length mem) (op (arg_bytes mem ptr len) fs) out_ptr out_max)"
proof (cases "bad_range (length mem) ptr len")
  case True
  then show ?thesis using host_bytes_None [OF assms, of "pf_profile pf" ptr len] by (simp add: host_file_get_def)
next
  case False
  then show ?thesis
    by (auto simp: host_file_get_def host_bytes_arg [OF assms] get_panics_def split: option.splits Option.bind_splits
        simp flip: host_copy_None)
qed

text \<open>
  C23. Exactly the pointers that halt the kernel. A log call panics for a negative pointer, a pointer
  behind the memory, and a negative length that ends at an address of 0 or more (\<open>bad_range\<close>), and for no
  other. The feed panics, when there is one, for the buffers whose end wraps around (\<open>bad_copy\<close>). A file
  operation panics for a bad path pointer; else, when the path is text, for a bad data pointer, when the
  file client does not come back, and when a content comes back and its buffer is bad.
\<close>

theorem host_pointer_panics:
  assumes "services_ok pf ok" and "ok (fd, m)" and "length mem < 4294967296"
  defines "p \<equiv> pf_profile pf" and "n \<equiv> length mem"
  shows "(host_function pf feed (HostLog ptr len) (Some mem, fd, m) = None \<longleftrightarrow> bad_range n ptr len)
    \<and> (host_function pf feed (HostGetFeed out_ptr out_max) (Some mem, fd, m) = None
      \<longleftrightarrow> feed \<noteq> [] \<and> bad_copy p n (length feed) out_ptr out_max)
    \<and> (host_function pf feed (HostFileRead ptr len out_ptr out_max) (Some mem, fd, m) = None
      \<longleftrightarrow> bad_range n ptr len \<or> (utf8_valid (arg_bytes mem ptr len)
        \<and> get_panics p n (file_read p (pf_hw pf) (pf_alloc pf) (arg_bytes mem ptr len) (fd, m)) out_ptr out_max))
    \<and> (host_function pf feed (HostFileList ptr len out_ptr out_max) (Some mem, fd, m) = None
      \<longleftrightarrow> bad_range n ptr len \<or> (utf8_valid (arg_bytes mem ptr len)
        \<and> get_panics p n (file_list p (pf_hw pf) (pf_alloc pf) (arg_bytes mem ptr len) (fd, m)) out_ptr out_max))
    \<and> (host_function pf feed (HostFileWrite ptr len data data_len) (Some mem, fd, m) = None
      \<longleftrightarrow> bad_range n ptr len \<or> (utf8_valid (arg_bytes mem ptr len) \<and> (bad_range n data data_len
        \<or> file_write p (pf_hw pf) (pf_alloc pf) (arg_bytes mem ptr len) (arg_bytes mem data data_len) (fd, m) = None)))"
proof (intro conjI)
  have hs: "host_services pf ok" by unfold_locales (rule assms(1))
  from host_services.log_panics [OF hs assms(3,2)]
  show "host_function pf feed (HostLog ptr len) (Some mem, fd, m) = None \<longleftrightarrow> bad_range n ptr len"
    by (simp add: n_def)
  show "host_function pf feed (HostGetFeed out_ptr out_max) (Some mem, fd, m) = None
      \<longleftrightarrow> feed \<noteq> [] \<and> bad_copy p n (length feed) out_ptr out_max"
    by (auto simp: host_function_def host_get_feed_def p_def n_def split: Option.bind_splits simp flip: host_copy_None)
  show "host_function pf feed (HostFileRead ptr len out_ptr out_max) (Some mem, fd, m) = None
      \<longleftrightarrow> bad_range n ptr len \<or> (utf8_valid (arg_bytes mem ptr len)
        \<and> get_panics p n (file_read p (pf_hw pf) (pf_alloc pf) (arg_bytes mem ptr len) (fd, m)) out_ptr out_max)"
    unfolding p_def n_def get_panic_cases [OF assms(3), symmetric] by (auto simp: host_function_def host_file_read_def split: Option.bind_splits)
  show "host_function pf feed (HostFileList ptr len out_ptr out_max) (Some mem, fd, m) = None
      \<longleftrightarrow> bad_range n ptr len \<or> (utf8_valid (arg_bytes mem ptr len)
        \<and> get_panics p n (file_list p (pf_hw pf) (pf_alloc pf) (arg_bytes mem ptr len) (fd, m)) out_ptr out_max)"
    unfolding p_def n_def get_panic_cases [OF assms(3), symmetric] by (auto simp: host_function_def host_file_list_def split: Option.bind_splits)
  have arg: "host_bytes p mem a b = (if bad_range n a b then None else Some (arg_bytes mem a b))" for a b
    using host_bytes_None [OF assms(3)] host_bytes_arg [OF assms(3)] by (simp add: n_def)
  show "host_function pf feed (HostFileWrite ptr len data data_len) (Some mem, fd, m) = None
      \<longleftrightarrow> bad_range n ptr len \<or> (utf8_valid (arg_bytes mem ptr len) \<and> (bad_range n data data_len
        \<or> file_write p (pf_hw pf) (pf_alloc pf) (arg_bytes mem ptr len) (arg_bytes mem data data_len) (fd, m) = None))"
    by (auto simp: host_function_def host_file_write_def arg [unfolded p_def] p_def split: Option.bind_splits)
qed

theorem host_pointer_panics_witness:
  "host_function desk [] (HostLog (-1) 1) (Some [0, 0, 0], Some model_vsock_dev, model_mach Map.empty []) = None
    \<and> host_function desk [7] (HostGetFeed (-1) 1) (Some [0, 0, 0], Some model_vsock_dev, model_mach Map.empty []) = None
    \<and> host_function desk [7] (HostGetFeed (-2) 1) (Some [0, 0, 0], Some model_vsock_dev, model_mach Map.empty []) \<noteq> None
    \<and> host_function desk [] (HostFileRead (-1) 1 0 0) (Some [0, 0, 0], Some model_vsock_dev, model_mach Map.empty []) = None
    \<and> host_function desk [] (HostFileWrite 0 1 4 1) (Some [65, 0, 0], Some model_vsock_dev, model_mach Map.empty []) = None"
proof -
  have "flat_tidy Map.empty" by (simp add: flat_tidy_def)
  note panics = host_pointer_panics [OF desk_services desk_starts [OF this]]
  have "utf8_valid (arg_bytes [65, 0, 0] 0 1)" by (rule utf8_valid_ascii) (simp add: arg_bytes_def)
  then show ?thesis
    using panics [where mem = "[0, 0, 0]" and ptr = "-1" and len = 1 and feed = "[]", THEN conjunct1]
      panics [where mem = "[0, 0, 0]" and out_ptr = "-1" and out_max = 1 and feed = "[7]", THEN conjunct2, THEN conjunct1]
      panics [where mem = "[0, 0, 0]" and out_ptr = "-2" and out_max = 1 and feed = "[7]", THEN conjunct2, THEN conjunct1]
      panics [where mem = "[0, 0, 0]" and ptr = "-1" and len = 1 and out_ptr = 0 and out_max = 0 and feed = "[]", THEN conjunct2, THEN conjunct2, THEN conjunct1]
      panics [where mem = "[65, 0, 0]" and ptr = 0 and len = 1 and data = 4 and data_len = 1 and feed = "[]", THEN conjunct2, THEN conjunct2, THEN conjunct2, THEN conjunct2]
    by (simp add: bad_range_def bad_copy_def desk_def)
qed

text \<open>
  C24. A module with one page of memory is accepted and halts the kernel: the loader bounds the memory
  from above only, so the module loads, and the first request with a method panics on the copy behind
  the end of its memory.
\<close>

theorem one_page_panics:
  assumes "services_ok pf ok" and "ok fs" and "length bs \<le> MAX_WASM_BYTES"
    and "wi_parse wi bs = Some md" and "wi_minima wi md = [1]" and "wi_link wi md = Some (g, Some mem)" and "length mem = 65536"
    and "wi_run wi 0 (Enter StartFunction) (g, Some mem) = (Finished v, 0, g, Some mem)"
    and "wi_typed wi md ''handle_request''" and "wi_typed wi md ''get_response_ptr''" and "meth \<noteq> []"
  shows "\<exists>app fs'. from_bytes pf wi bs fs = Some (Some app, fs') \<and> ok fs'
    \<and> handle_request pf wi meth path body (app, fs') = None"
proof -
  have "host_services pf ok" by unfold_locales (rule assms(1))
  from host_services.load_accepts [OF this assms(2,3,4) _ assms(6,8,9,10)]
  obtain app fs' where l: "from_bytes pf wi bs fs = Some (Some app, fs')" "ok fs'" "wa_mem app = Some mem"
    using assms(5) by (auto simp: MAX_WASM_MEMORY_PAGES_def)
  have "handle_request pf wi meth path body (app, fs') = None"
    using assms(7) by (intro small_memory_panics [OF l(3) _ assms(11)]) simp
  with l show ?thesis by blast
qed

theorem one_page_panics_witness:
  "\<exists>app fs'. from_bytes desk sample_wasmi [1, 1] (Some model_vsock_dev, model_mach Map.empty []) = Some (Some app, fs')
    \<and> desk_ok fs' \<and> handle_request desk sample_wasmi (str ''GET'') (str ''/'') [] (app, fs') = None"
proof -
  have "flat_tidy Map.empty" by (simp add: flat_tidy_def)
  from one_page_panics [OF desk_services desk_starts [OF this], where bs = "[1, 1]" and wi = sample_wasmi
      and md = "[1, 1]" and g = 1 and mem = "replicate 65536 0" and v = 0 and meth = "str ''GET''"]
  show ?thesis by (simp add: sample_wasmi_def sample_run_def MAX_WASM_BYTES_def str_def)
qed

end
