(* ===== verification/Serving.thy ===== *)
theory Serving
  imports Upload WasmApp
begin

text \<open>
  Port 80 with the WebAssembly runtime behind it: the parser, the router, the runtime and the answer on
  the socket put together. The stack's state has the static file device beside it (the pair that
  \<open>wasm_ops\<close> works on).
\<close>

section \<open>A request that an application answers\<close>





section \<open>Any request\<close>







section \<open>A sample\<close>



section \<open>Properties\<close>





end
