(* ===== verification/Legacy.thy ===== *)
theory Legacy
  imports Disk Pci
begin

text \<open>
  The legacy PCI transport of VirtIO, which \<^verbatim>\<open>blk.rs\<close> and \<^verbatim>\<open>virtio_net.rs\<close> use: the registers behind
  the I/O base of BAR 0, and the initialisation of the block driver over them. The register
  file of a conforming device is \<open>legacy_regs\<close>; the locale \<open>legacy_device\<close> is what an initialisation
  relies on.
\<close>

section \<open>Register accesses\<close>

text \<open>\<open>io_base + REG\<close> is a 16-bit addition that can overflow.\<close>

definition outb_at :: "profile \<Rightarrow> 'd hw \<Rightarrow> u16 \<Rightarrow> u16 \<Rightarrow> u8 \<Rightarrow> 'd machine \<Rightarrow> 'd machine option" where
  "outb_at p hw io reg v m = do { port \<leftarrow> add_ovf p io reg; Some (outb hw port v m) }"

definition outw_at :: "profile \<Rightarrow> 'd hw \<Rightarrow> u16 \<Rightarrow> u16 \<Rightarrow> u16 \<Rightarrow> 'd machine \<Rightarrow> 'd machine option" where
  "outw_at p hw io reg v m = do { port \<leftarrow> add_ovf p io reg; Some (outw hw port v m) }"

definition outl_at :: "profile \<Rightarrow> 'd hw \<Rightarrow> u16 \<Rightarrow> u16 \<Rightarrow> u32 \<Rightarrow> 'd machine \<Rightarrow> 'd machine option" where
  "outl_at p hw io reg v m = do { port \<leftarrow> add_ovf p io reg; Some (outl hw port v m) }"

definition inw_at :: "profile \<Rightarrow> 'd hw \<Rightarrow> u16 \<Rightarrow> u16 \<Rightarrow> 'd machine \<Rightarrow> (u16 \<times> 'd machine) option" where
  "inw_at p hw io reg m = do { port \<leftarrow> add_ovf p io reg; Some (inw hw port m) }"

section \<open>Initialisation of the block driver\<close>

definition BLK_VENDOR :: u16 where "BLK_VENDOR = 0x1AF4"
definition VIRTIO_BLK_DEVICE :: u16 where "VIRTIO_BLK_DEVICE = 0x1001"
definition BLK_STATUS_RESET :: u8 where "BLK_STATUS_RESET = 0"
definition BLK_STATUS_ACKNOWLEDGE :: u8 where "BLK_STATUS_ACKNOWLEDGE = 1"
definition BLK_STATUS_DRIVER :: u8 where "BLK_STATUS_DRIVER = 2"
definition BLK_STATUS_DRIVER_OK :: u8 where "BLK_STATUS_DRIVER_OK = 4"

text \<open>
  \<open>q\<close> is the address the allocator returns for the queue, 0 when it fails. The page number is
  computed on the low 32 bits of the address.
\<close>

definition blk_init :: "profile \<Rightarrow> 'd hw \<Rightarrow> nat \<Rightarrow> 'd machine \<Rightarrow> (blk option \<times> 'd machine) option" where
  "blk_init p hw q m =
     (case pci_find hw BLK_VENDOR VIRTIO_BLK_DEVICE m of
        (None, m) \<Rightarrow> Some (None, m)
      | (Some pd, m) \<Rightarrow>
          if bar0 pd AND 0x1 = 0 then Some (None, m)
          else do {
            let io = ucast (bar0 pd AND NOT 0x3);
            m \<leftarrow> outb_at p hw io REG_STATUS BLK_STATUS_RESET m;
            m \<leftarrow> outb_at p hw io REG_STATUS BLK_STATUS_ACKNOWLEDGE m;
            m \<leftarrow> outb_at p hw io REG_STATUS (BLK_STATUS_ACKNOWLEDGE OR BLK_STATUS_DRIVER) m;
            m \<leftarrow> outl_at p hw io REG_GUEST_FEATURES 0 m;
            m \<leftarrow> outw_at p hw io REG_QUEUE_SEL 0 m;
            (qs, m) \<leftarrow> inw_at p hw io REG_QUEUE_SIZE m;
            let qs = (ucast qs :: usize);
            if qs = 0 then Some (None, m)
            else do {
              let m = alloc_zeroed q (unat (queue_mem_size qs)) m;
              if q = 0 then Some (None, m)
              else do {
                let pfn = (of_nat q :: u32) div ucast PAGE_SIZE;
                m \<leftarrow> outl_at p hw io REG_QUEUE_PFN pfn m;
                m \<leftarrow> outb_at p hw io REG_STATUS
                  (BLK_STATUS_ACKNOWLEDGE OR BLK_STATUS_DRIVER OR BLK_STATUS_DRIVER_OK) m;
                Some (Some \<lparr>io_base = io, queue_size = qs, q_mem = q, next_avail = 0, last_used = 0\<rparr>, m)
              }
            }
          })"

section \<open>The device's registers\<close>

record legacy_regs =
  lg_status :: "8 word"
  lg_sel :: "16 word"
  lg_pfn :: "16 word \<Rightarrow> 32 word"

text \<open>
  A conforming register file, in every state a predicate \<open>ok\<close> keeps: a write of 0 to the status
  resets the device, a page number is stored for the selected queue, the size register reads the
  selected queue's size and the six bytes from 0x14 the station address; none of this touches
  memory, and memory does not matter to it.
\<close>

definition legacy_conforming :: "'d hw \<Rightarrow> ('d machine \<Rightarrow> bool) \<Rightarrow> ('d \<Rightarrow> legacy_regs) \<Rightarrow> u16 \<Rightarrow> (u16 \<Rightarrow> u16) \<Rightarrow>
    (nat \<Rightarrow> u8) \<Rightarrow> bool" where
  "legacy_conforming hw ok regs io sizes mac \<longleftrightarrow>
     (\<forall>m. ok m \<longrightarrow>
        (\<forall>r. ok (m\<lparr>ram := r\<rparr>))
        \<and> (\<forall>v. let m' = outb hw (io + 0x12) v m in ok m' \<and> ram m' = ram m \<and>
             regs (dev m') = (if v = 0 then \<lparr>lg_status = 0, lg_sel = 0, lg_pfn = \<lambda>_. 0\<rparr>
               else (regs (dev m))\<lparr>lg_status := v\<rparr>))
        \<and> (\<forall>v. let m' = outl hw (io + 0x04) v m in ok m' \<and> ram m' = ram m \<and> regs (dev m') = regs (dev m))
        \<and> (\<forall>v. let m' = outw hw (io + 0x0E) v m in ok m' \<and> ram m' = ram m \<and>
             regs (dev m') = (regs (dev m))\<lparr>lg_sel := v\<rparr>)
        \<and> (\<forall>v. let m' = outl hw (io + 0x08) v m in ok m' \<and> ram m' = ram m \<and>
             regs (dev m') = (regs (dev m))\<lparr>lg_pfn := (lg_pfn (regs (dev m)))(lg_sel (regs (dev m)) := v)\<rparr>)
        \<and> (let (v, m') = inw hw (io + 0x0C) m in v = sizes (lg_sel (regs (dev m))) \<and> ok m' \<and> ram m' = ram m
             \<and> regs (dev m') = regs (dev m))
        \<and> (\<forall>i<6. let (v, m') = inb hw (io + 0x14 + of_nat i) m in v = mac i \<and> ok m' \<and> ram m' = ram m
             \<and> regs (dev m') = regs (dev m)))"

locale legacy_device =
  fixes hw :: "'d hw" and ok :: "'d machine \<Rightarrow> bool" and regs :: "'d \<Rightarrow> legacy_regs" and io :: u16
    and sizes :: "u16 \<Rightarrow> u16" and mac :: "nat \<Rightarrow> u8" and cfg :: "u32 \<Rightarrow> u32" and vid did :: u16
  assumes conforming: "legacy_conforming hw ok regs io sizes mac"
    and bus: "cfg_reads hw ok cfg"
    and found: "find (is_function cfg vid did) (pci_functions cfg) = Some dv \<Longrightarrow>
      bar0 (described cfg dv) AND 1 \<noteq> 0 \<and> ucast (bar0 (described cfg dv) AND NOT 3) = io"
    and present: "find (is_function cfg vid did) (pci_functions cfg) \<noteq> None"
    and io_room: "unat io + 0x1A < 65536"

sublocale legacy_device \<subseteq> config_bus hw ok cfg
  by unfold_locales (rule bus)

context legacy_device
begin

lemma at_reg: "unat reg < 0x1A \<Longrightarrow> add_ovf p io reg = Some (io + reg)"
  using add_ovf_exact(1) [of io reg p] io_room by simp

lemma steps:
  assumes "ok m"
  shows "ok (m\<lparr>ram := r\<rparr>)"
    and "\<exists>m'. outb_at p hw io 0x12 v8 m = Some m' \<and> ok m' \<and> ram m' = ram m \<and>
      regs (dev m') = (if v8 = 0 then \<lparr>lg_status = 0, lg_sel = 0, lg_pfn = \<lambda>_. 0\<rparr> else (regs (dev m))\<lparr>lg_status := v8\<rparr>)"
    and "\<exists>m'. outl_at p hw io 0x04 v32 m = Some m' \<and> ok m' \<and> ram m' = ram m \<and> regs (dev m') = regs (dev m)"
    and "\<exists>m'. outw_at p hw io 0x0E v16 m = Some m' \<and> ok m' \<and> ram m' = ram m \<and> regs (dev m') = (regs (dev m))\<lparr>lg_sel := v16\<rparr>"
    and "\<exists>m'. outl_at p hw io 0x08 v32 m = Some m' \<and> ok m' \<and> ram m' = ram m \<and>
      regs (dev m') = (regs (dev m))\<lparr>lg_pfn := (lg_pfn (regs (dev m)))(lg_sel (regs (dev m)) := v32)\<rparr>"
    and "\<exists>m'. inw_at p hw io 0x0C m = Some (sizes (lg_sel (regs (dev m))), m') \<and> ok m' \<and> ram m' = ram m
      \<and> regs (dev m') = regs (dev m)"
  using conforming [unfolded legacy_conforming_def, rule_format, OF assms]
  by (simp_all add: outb_at_def outw_at_def outl_at_def inw_at_def at_reg Let_def case_prod_beta prod_eq_iff)

text \<open>Reset, acknowledge, driver, no features: how every initialisation begins.\<close>

lemma handshake:
  assumes "ok m"
  obtains m1 m2 m3 m' where "outb_at p hw io 0x12 0 m = Some m1" "outb_at p hw io 0x12 1 m1 = Some m2"
    "outb_at p hw io 0x12 3 m2 = Some m3" "outl_at p hw io 0x04 0 m3 = Some m'" "ok m'" "ram m' = ram m"
    "regs (dev m') = \<lparr>lg_status = 3, lg_sel = 0, lg_pfn = \<lambda>_. 0\<rparr>"
proof -
  obtain m1 where 1: "outb_at p hw io 0x12 0 m = Some m1" "ok m1" "ram m1 = ram m"
    "regs (dev m1) = \<lparr>lg_status = 0, lg_sel = 0, lg_pfn = \<lambda>_. 0\<rparr>"
    using steps(2) [OF assms, of p 0] by auto
  obtain m2 where 2: "outb_at p hw io 0x12 1 m1 = Some m2" "ok m2" "ram m2 = ram m"
    "regs (dev m2) = \<lparr>lg_status = 1, lg_sel = 0, lg_pfn = \<lambda>_. 0\<rparr>"
    using steps(2) [OF 1(2), of p 1] 1(3,4) by auto
  obtain m3 where 3: "outb_at p hw io 0x12 3 m2 = Some m3" "ok m3" "ram m3 = ram m"
    "regs (dev m3) = \<lparr>lg_status = 3, lg_sel = 0, lg_pfn = \<lambda>_. 0\<rparr>"
    using steps(2) [OF 2(2), of p 3] 2(3,4) by auto
  show thesis using that [OF 1(1) 2(1) 3(1)] steps(3) [OF 3(2), of p 0] 3(3,4) by auto
qed

lemma finds:
  assumes "ok m"
  obtains pd m' where "pci_find hw vid did m = (Some pd, m')" "ok m'" "bar0 pd AND 1 \<noteq> 0" "ucast (bar0 pd AND NOT 3) = io"
  using pci_first [OF assms, of vid did] found present by fastforce

end

section \<open>The block driver comes up\<close>

context legacy_device
begin

lemma blk_up:
  assumes "ok m" and "vid = BLK_VENDOR" and "did = VIRTIO_BLK_DEVICE" and "sizes 0 \<noteq> 0" and "q \<noteq> 0"
  shows "\<exists>m'. blk_init p hw q m =
      Some (Some \<lparr>io_base = io, queue_size = ucast (sizes 0), q_mem = q, next_avail = 0, last_used = 0\<rparr>, m')
    \<and> ok m' \<and> (let n = unat (queue_mem_size (ucast (sizes 0))) in mem_read (ram m') q n = replicate n 0)
    \<and> lg_status (regs (dev m')) = 7 \<and> lg_pfn (regs (dev m')) 0 = of_nat q div 4096"
proof -
  obtain pd m0 where pd: "pci_find hw vid did m = (Some pd, m0)" "ok m0" "bar0 pd AND 1 \<noteq> 0" "ucast (bar0 pd AND NOT 3) = io"
    using finds [OF assms(1)] by blast
  obtain ma mb mc m1 where h: "outb_at p hw io 0x12 0 m0 = Some ma" "outb_at p hw io 0x12 1 ma = Some mb"
      "outb_at p hw io 0x12 3 mb = Some mc" "outl_at p hw io 0x04 0 mc = Some m1"
    and 1: "ok m1" "ram m1 = ram m0" "regs (dev m1) = \<lparr>lg_status = 3, lg_sel = 0, lg_pfn = \<lambda>_. 0\<rparr>"
    using handshake [OF pd(2)] by blast
  obtain m2 where 2: "outw_at p hw io 0x0E 0 m1 = Some m2" "ok m2" "ram m2 = ram m0"
    "regs (dev m2) = \<lparr>lg_status = 3, lg_sel = 0, lg_pfn = \<lambda>_. 0\<rparr>"
    using steps(4) [OF 1(1), of p 0] 1(2,3) by auto
  obtain m3 where 3: "inw_at p hw io 0x0C m2 = Some (sizes 0, m3)" "ok m3" "ram m3 = ram m0"
    "regs (dev m3) = \<lparr>lg_status = 3, lg_sel = 0, lg_pfn = \<lambda>_. 0\<rparr>"
    using steps(6) [OF 2(2), of p] 2(3,4) by auto
  let ?m4 = "alloc_zeroed q (unat (queue_mem_size (ucast (sizes 0)))) m3"
  have 4: "ok ?m4" using steps(1) [OF 3(2)] 3(2) by (simp add: alloc_zeroed_def wr_bytes_def)
  obtain m5 where 5: "outl_at p hw io 0x08 (of_nat q div 4096) ?m4 = Some m5" "ok m5" "ram m5 = ram ?m4"
    "regs (dev m5) = \<lparr>lg_status = 3, lg_sel = 0, lg_pfn = (\<lambda>_. 0)(0 := of_nat q div 4096)\<rparr>"
    using steps(5) [OF 4, of p "of_nat q div 4096"] 3(4) by auto
  obtain m6 where 6: "outb_at p hw io 0x12 7 m5 = Some m6" "ok m6" "ram m6 = ram ?m4"
    "regs (dev m6) = \<lparr>lg_status = 7, lg_sel = 0, lg_pfn = (\<lambda>_. 0)(0 := of_nat q div 4096)\<rparr>"
    using steps(2) [OF 5(2), of p 7] 5(3,4) by auto
  have nz: "(ucast (sizes 0) :: usize) \<noteq> 0" using assms(4) by (metis ucast_back ucast_0)
  have "blk_init p hw q m =
      Some (Some \<lparr>io_base = io, queue_size = ucast (sizes 0), q_mem = q, next_avail = 0, last_used = 0\<rparr>, m6)"
    using pd h 2(1) 3(1) 5(1) 6(1) nz assms(2,3,5)
    by (simp add: blk_init_def BLK_STATUS_RESET_def BLK_STATUS_ACKNOWLEDGE_def BLK_STATUS_DRIVER_def
        BLK_STATUS_DRIVER_OK_def REG_STATUS_def REG_GUEST_FEATURES_def REG_QUEUE_SEL_def REG_QUEUE_SIZE_def
        REG_QUEUE_PFN_def PAGE_SIZE_def)
  with 6 assms(5) 3(3) show ?thesis by (auto simp: ram_alloc mem_read_write_same Let_def)
qed

end

text \<open>A zeroed queue: both indices are 0, so driver and device start in step.\<close>

lemma zero_used:
  assumes "mem_read r q n = replicate n 0" and "a + 2 \<le> n"
  shows "from_le16 (mem_read r (q + a) 2) = 0"
proof -
  have "mem_read r (q + a) 2 = replicate 2 0"
    using mem_read_bslice [of a 2 n r q] assms by (simp add: bslice_def min_absorb1 le_diff_conv2)
  then show ?thesis by (simp add: zero_le16)
qed

text \<open>A page number of 32 bits names a page-aligned address below 4 GiB.\<close>

lemma page_number: "q < 2 ^ 32 \<Longrightarrow> 4096 dvd q \<Longrightarrow> unat (of_nat q div 4096 :: u32) * 4096 = q"
  by (auto simp: unat_div unat_of_nat)

lemma blk_mounts:
  assumes dev: "legacy_device hw ok regs io sizes mac cfg BLK_VENDOR VIRTIO_BLK_DEVICE" and "ok m"
    and fresh: "\<forall>m. ok m \<longrightarrow> seen (view (dev m)) = 0 \<and> (\<forall>n. length (image (view (dev m)) n) = 512)"
    and blk: "blk_conforming hw view (io + 16) (unat qs) q" "placed f qs q io"
    and qs: "qs = ucast (sizes 0)" and q: "q \<noteq> 0" "4096 dvd q" "q < 2 ^ 32"
  shows "\<exists>b m'. blk_init p hw q m = Some (Some b, m') \<and> mounted hw view f qs q io (b, m') \<and> ok m'
    \<and> lg_status (regs (dev m')) = 7 \<and> unat (lg_pfn (regs (dev m')) 0) * 4096 = q"
proof -
  have qsb: "3 \<le> unat qs" "unat qs < 65536" using blk(2) by (simp_all add: placed_def)
  then have "sizes 0 \<noteq> 0" using qs by auto
  from legacy_device.blk_up [OF dev \<open>ok m\<close> refl refl this q(1), of p] obtain m' where
    r: "blk_init p hw q m =
      Some (Some \<lparr>io_base = io, queue_size = ucast (sizes 0), q_mem = q, next_avail = 0, last_used = 0\<rparr>, m')"
      "ok m'" "mem_read (ram m') q (unat (queue_mem_size qs)) = replicate (unat (queue_mem_size qs)) 0"
      "lg_status (regs (dev m')) = 7" "lg_pfn (regs (dev m')) 0 = of_nat q div 4096"
    by (auto simp: Let_def qs)
  have "unat (used_offset qs) + 2 + 2 \<le> unat (queue_mem_size qs)" using vq.used_below_end [OF qsb(2)] by simp
  from zero_used [OF r(3) this] have "rd16 (q + unat (used_offset qs) + 2) m' = 0" by (simp add: rd16_def add.assoc)
  with r blk fresh page_number [OF q(3,2)] show ?thesis by (auto simp: mounted_def blk_inv_def qs)
qed

text \<open>
  C35. The block driver comes up: on a bus with a conforming device, whatever is in memory before, \<open>init\<close>
  finds it, acknowledges it, gives it exactly the queue's address and leaves driver and device in
  step, so that every sector operation that follows is correct.
\<close>

theorem blk_init_mounts:
  assumes "legacy_conforming hw ok regs io sizes mac" and "cfg_reads hw ok cfg" and "ok m"
    and "find (is_function cfg BLK_VENDOR VIRTIO_BLK_DEVICE) (pci_functions cfg) = Some dv"
    and "bar0 (described cfg dv) AND 1 \<noteq> 0" and "ucast (bar0 (described cfg dv) AND NOT 3) = io"
    and "unat io + 0x1A < 65536"
    and "\<forall>m. ok m \<longrightarrow> seen (view (dev m)) = 0 \<and> (\<forall>n. length (image (view (dev m)) n) = 512)"
    and "blk_conforming hw view (io + 16) (unat qs) q" and "placed f qs q io" and "qs = ucast (sizes 0)"
    and "q \<noteq> 0" and "4096 dvd q" and "q < 2 ^ 32"
  shows "\<exists>b m'. blk_init p hw q m = Some (Some b, m') \<and> mounted hw view f qs q io (b, m')
    \<and> lg_status (regs (dev m')) = 7 \<and> unat (lg_pfn (regs (dev m')) 0) * 4096 = q"
proof -
  have "legacy_device hw ok regs io sizes mac cfg BLK_VENDOR VIRTIO_BLK_DEVICE"
    using assms(1,2,4-7) by unfold_locales auto
  from blk_mounts [OF this assms(3,8-14), of p] show ?thesis by blast
qed

text \<open>A card on a bus: its configuration space, its registers and a disk behind them.\<close>

record card =
  c_addr :: "32 word"
  c_regs :: legacy_regs
  c_host :: host
  c_kicked :: bool

definition card_out :: "nat \<Rightarrow> u16 \<Rightarrow> u32 \<Rightarrow> card \<Rightarrow> card" where
  "card_out w port v c =
     (if port = CONFIG_ADDRESS then c\<lparr>c_addr := v\<rparr>
      else if port = 0xC012 then
        c\<lparr>c_regs := (if v = 0 then \<lparr>lg_status = 0, lg_sel = 0, lg_pfn = \<lambda>_. 0\<rparr> else (c_regs c)\<lparr>lg_status := ucast v\<rparr>)\<rparr>
      else if port = 0xC00E then c\<lparr>c_regs := (c_regs c)\<lparr>lg_sel := ucast v\<rparr>\<rparr>
      else if port = 0xC008 then
        c\<lparr>c_regs := (c_regs c)\<lparr>lg_pfn := (lg_pfn (c_regs c))(lg_sel (c_regs c) := v)\<rparr>\<rparr>
      else if port = 0xC010 then c\<lparr>c_kicked := True\<rparr>
      else c)"

definition card_hw :: "(u32 \<Rightarrow> u32) \<Rightarrow> card hw" where
  "card_hw cfg =
     \<lparr>port_in = (\<lambda>w port m. (if port = CONFIG_DATA then cfg (c_addr (dev m)) else if port = 0xC00C then 128 else 0, m)),
      port_out = (\<lambda>w port v m. m\<lparr>dev := card_out w port v (dev m)\<rparr>),
      mmio_in = (\<lambda>w a m. (0, m)), mmio_out = (\<lambda>w a v m. m),
      sync = (\<lambda>m. if c_kicked (dev m)
        then case serve 128 0x200000 (c_host (dev m), ram m) of
          (h, r) \<Rightarrow> m\<lparr>ram := r, dev := (dev m)\<lparr>c_host := h, c_kicked := False\<rparr>\<rparr>
        else m)\<rparr>"

definition card_fresh :: "host \<Rightarrow> card machine \<Rightarrow> bool" where
  "card_fresh h m \<longleftrightarrow> c_host (dev m) = h \<and> \<not> c_kicked (dev m)"

lemma ucast_byte: "(ucast (v :: u8) :: u32) = 0 \<longleftrightarrow> v = 0"
  by (metis ucast_back(2) ucast_0)

lemma card_conforming: "legacy_conforming (card_hw cfg) (card_fresh h) c_regs 0xC000 (\<lambda>_. 128) (\<lambda>_. 0)"
proof -
  have six: "i < 6 \<longleftrightarrow> i \<in> {0, 1, 2, 3, 4, 5 :: nat}" for i by auto
  show ?thesis
    by (simp add: legacy_conforming_def card_hw_def card_fresh_def card_out_def outb_def outl_def outw_def inw_def
        inb_def CONFIG_ADDRESS_def CONFIG_DATA_def ucast_byte six)
qed

lemma card_bus: "cfg_reads (card_hw cfg) (card_fresh h) cfg"
  by (simp add: cfg_reads_def card_hw_def card_fresh_def card_out_def inl_def outl_def CONFIG_ADDRESS_def CONFIG_DATA_def)

lemma card_disk: "blk_conforming (card_hw cfg) c_host 0xC010 128 0x200000"
  unfolding blk_conforming_def
proof
  fix m :: "card machine"
  show "\<exists>k<POLL_LIMIT.
        let m0 = outw (card_hw cfg) 0xC010 0 m in
        (\<forall>i\<le>k. ram ((sync (card_hw cfg) ^^ i) m0) = ram m)
        \<and> (c_host (dev ((sync (card_hw cfg) ^^ Suc k) m0)), ram ((sync (card_hw cfg) ^^ Suc k) m0))
            = serve 128 0x200000 (c_host (dev m), ram m)"
    by (rule exI [of _ 0]) (simp add: POLL_LIMIT_def card_hw_def card_out_def CONFIG_ADDRESS_def outw_def split: prod.split)
qed

lemma first_slots: "\<exists>rest. pci_functions cfg = slot_functions cfg (0, 0) @ slot_functions cfg (0, 1)
    @ slot_functions cfg (0, 2) @ slot_functions cfg (0, 3) @ rest"
proof -
  have "[0..<256] = 0 # [1..<256]" "[0..<32] = 0 # 1 # 2 # 3 # [4..<32]"
    by (simp_all add: upt_conv_Cons)
  then show ?thesis unfolding pci_functions_def by simp
qed

lemma one_device_found:
  "find (is_function one_device BLK_VENDOR VIRTIO_BLK_DEVICE) (pci_functions one_device) = Some (0, 3, 0)"
proof -
  have none: "cfg16 one_device 0 s 0 0 = 0xFFFF" if "s = 0 \<or> s = 1 \<or> s = 2" for s
    using that by (auto simp: cfg16_def cfg32_def one_device_def)
  have "cfg16 one_device 0 3 0 0 = 0x1AF4" "cfg16 one_device 0 3 0 2 = 0x1001"
    by (simp_all add: cfg16_def cfg32_def one_device_def)
  then show ?thesis
    using first_slots [of one_device]
    by (auto simp: none slot_functions_def is_function_def BLK_VENDOR_def VIRTIO_BLK_DEVICE_def)
qed

lemma one_device_bar: "described one_device (0, 3, 0) = \<lparr>pd_bus = 0, pd_slot = 3, pd_func = 0,
    vendor_id = 0x1AF4, device_id = 0x1001, bar0 = 0xC001\<rparr>"
  by (simp add: described_def cfg16_def cfg32_def one_device_def)

interpretation card: legacy_device "card_hw one_device" "card_fresh h" c_regs "0xC000" "\<lambda>_. 128" "\<lambda>_. 0" one_device
    BLK_VENDOR VIRTIO_BLK_DEVICE for h
  using card_conforming card_bus one_device_found
  by unfold_locales (simp_all add: one_device_bar)

definition card_machine :: "card machine" where
  "card_machine = \<lparr>ram = \<lambda>_. 0xFF, dev = \<lparr>c_addr = 0, c_regs = \<lparr>lg_status = 0, lg_sel = 0, lg_pfn = \<lambda>_. 0\<rparr>,
     c_host = \<lparr>image = \<lambda>_. replicate 512 0, capacity = 64, seen = 0\<rparr>, c_kicked = False\<rparr>\<rparr>"

theorem blk_init_mounts_witness:
  "\<exists>b m'. blk_init Dev (card_hw one_device) 0x200000 card_machine = Some (Some b, m')
     \<and> mounted (card_hw one_device) c_host model_frame 128 0x200000 0xC000 (b, m')"
proof -
  let ?h = "\<lparr>image = \<lambda>_. replicate 512 0, capacity = 64, seen = 0\<rparr>"
  have "card_fresh ?h card_machine" by (simp add: card_fresh_def card_machine_def)
  then have "\<exists>b m'. blk_init Dev (card_hw one_device) 0x200000 card_machine = Some (Some b, m')
     \<and> mounted (card_hw one_device) c_host model_frame 128 0x200000 0xC000 (b, m')
     \<and> lg_status (c_regs (dev m')) = 7 \<and> unat (lg_pfn (c_regs (dev m')) 0) * 4096 = 0x200000"
    using card_disk [of one_device] model_placed
    by (intro blk_init_mounts [OF card_conforming card_bus _ one_device_found])
       (auto simp: one_device_bar card_fresh_def)
  then show ?thesis by blast
qed

end
