(* ===== verification/VirtioNet.thy ===== *)
theory VirtioNet
  imports Legacy
begin

text \<open>
  The network driver (\<^verbatim>\<open>virtio_net.rs\<close>): initialisation over the legacy transport, the receive ring
  with sixteen buffers that go back to the device after every packet, and the transmit ring. The
  driver never looks at the transmit used ring. Every packet carries a header of ten bytes, which
  is cut off on receipt and zero on transmission.
\<close>

section \<open>Constants and layout\<close>

definition NET_VENDOR :: u16 where "NET_VENDOR = 0x1AF4"
definition VIRTIO_NET_DEVICE :: u16 where "VIRTIO_NET_DEVICE = 0x1000"

definition NET_REG_GUEST_FEATURES :: u16 where "NET_REG_GUEST_FEATURES = 0x04"
definition NET_REG_QUEUE_PFN :: u16 where "NET_REG_QUEUE_PFN = 0x08"
definition NET_REG_QUEUE_SIZE :: u16 where "NET_REG_QUEUE_SIZE = 0x0C"
definition NET_REG_QUEUE_SEL :: u16 where "NET_REG_QUEUE_SEL = 0x0E"
definition NET_REG_QUEUE_NOTIFY :: u16 where "NET_REG_QUEUE_NOTIFY = 0x10"
definition NET_REG_STATUS :: u16 where "NET_REG_STATUS = 0x12"
definition REG_MAC_BASE :: u16 where "REG_MAC_BASE = 0x14"

definition NET_STATUS_RESET :: u8 where "NET_STATUS_RESET = 0"
definition NET_STATUS_ACKNOWLEDGE :: u8 where "NET_STATUS_ACKNOWLEDGE = 1"
definition NET_STATUS_DRIVER :: u8 where "NET_STATUS_DRIVER = 2"
definition NET_STATUS_DRIVER_OK :: u8 where "NET_STATUS_DRIVER_OK = 4"

definition NET_QUEUE_RX :: u16 where "NET_QUEUE_RX = 0"
definition NET_QUEUE_TX :: u16 where "NET_QUEUE_TX = 1"

definition NET_PAGE_SIZE :: usize where "NET_PAGE_SIZE = 4096"
definition NET_BUF_SIZE :: nat where "NET_BUF_SIZE = 2048"
definition VNET_HDR :: nat where "VNET_HDR = 10"
definition QUEUE_BUFS :: nat where "QUEUE_BUFS = 16"

lemmas net_regs =
  NET_REG_GUEST_FEATURES_def NET_REG_QUEUE_PFN_def NET_REG_QUEUE_SIZE_def NET_REG_QUEUE_SEL_def
  NET_REG_QUEUE_NOTIFY_def NET_REG_STATUS_def REG_MAC_BASE_def NET_STATUS_RESET_def
  NET_STATUS_ACKNOWLEDGE_def NET_STATUS_DRIVER_def NET_STATUS_DRIVER_OK_def NET_QUEUE_RX_def NET_QUEUE_TX_def

lemmas net_sizes = NET_BUF_SIZE_def VNET_HDR_def QUEUE_BUFS_def

definition net_avail_offset :: "usize \<Rightarrow> usize" where
  "net_avail_offset qs = qs * 16"

definition net_used_offset :: "usize \<Rightarrow> usize" where
  "net_used_offset qs =
     (let avail_end = net_avail_offset qs + 6 + 2 * qs
      in (avail_end + NET_PAGE_SIZE - 1) AND NOT (NET_PAGE_SIZE - 1))"

definition net_queue_mem_size :: "usize \<Rightarrow> usize" where
  "net_queue_mem_size qs =
     (let used_end = net_used_offset qs + 6 + 8 * qs
      in (used_end + NET_PAGE_SIZE - 1) AND NOT (NET_PAGE_SIZE - 1))"

interpretation net: virtq_layout net_avail_offset net_used_offset net_queue_mem_size
  by (rule virtq_layoutI)
     (simp_all only: net_avail_offset_def net_used_offset_def net_queue_mem_size_def NET_PAGE_SIZE_def Let_def)

definition net_desc_write :: "nat \<Rightarrow> usize \<Rightarrow> nat \<Rightarrow> u64 \<Rightarrow> u32 \<Rightarrow> u16 \<Rightarrow> 'd machine \<Rightarrow> 'd machine" where
  "net_desc_write mem qs i addr len flags m =
     (let p = mem + i * 16 in wr16 (p + 14) 0 (wr16 (p + 12) flags (wr32 (p + 8) len (wr64 p addr m))))"

definition avail_idx_ptr :: "nat \<Rightarrow> usize \<Rightarrow> nat" where
  "avail_idx_ptr mem qs = mem + unat (net_avail_offset qs) + 2"

definition avail_ring_ptr :: "nat \<Rightarrow> usize \<Rightarrow> nat \<Rightarrow> nat" where
  "avail_ring_ptr mem qs i = mem + unat (net_avail_offset qs) + 4 + i * 2"

definition used_idx_ptr :: "nat \<Rightarrow> usize \<Rightarrow> nat" where
  "used_idx_ptr mem qs = mem + unat (net_used_offset qs) + 2"

definition used_id_ptr :: "nat \<Rightarrow> usize \<Rightarrow> nat \<Rightarrow> nat" where
  "used_id_ptr mem qs i = mem + unat (net_used_offset qs) + 4 + i * 8"

definition used_len_ptr :: "nat \<Rightarrow> usize \<Rightarrow> nat \<Rightarrow> nat" where
  "used_len_ptr mem qs i = mem + unat (net_used_offset qs) + 4 + i * 8 + 4"

section \<open>The device\<close>

record vnet =
  n_io_base :: "16 word"
  n_mac :: "8 word list"
  n_queue_size :: "64 word"
  n_rx_mem :: nat
  n_rx_bufs :: nat
  n_rx_next_avail :: "16 word"
  n_rx_last_used :: "16 word"
  n_tx_mem :: nat
  n_tx_bufs :: nat
  n_tx_next_avail :: "16 word"

text \<open>The addresses the allocator returns, 0 for a failed allocation, which panics.\<close>

record net_alloc =
  na_rx_mem :: nat
  na_rx_bufs :: nat
  na_tx_mem :: nat
  na_tx_bufs :: nat

text \<open>\<open>inb(io_base + REG_MAC_BASE + i as u16)\<close> for the indices in order.\<close>

fun read_mac :: "profile \<Rightarrow> 'd hw \<Rightarrow> u16 \<Rightarrow> nat list \<Rightarrow> 'd machine \<Rightarrow> (bytes \<times> 'd machine) option" where
  "read_mac p hw io [] m = Some ([], m)"
| "read_mac p hw io (i # is) m = do {
     base \<leftarrow> add_ovf p io REG_MAC_BASE;
     port \<leftarrow> add_ovf p base (of_nat i);
     let (b, m) = inb hw port m;
     (bs, m) \<leftarrow> read_mac p hw io is m;
     Some (b # bs, m)
   }"

definition net_post :: "nat \<Rightarrow> usize \<Rightarrow> nat \<Rightarrow> nat \<Rightarrow> 'd machine \<Rightarrow> 'd machine" where
  "net_post mem qs bufs i m =
     wr16 (avail_ring_ptr mem qs i) (of_nat i)
       (net_desc_write mem qs i (of_nat (bufs + i * NET_BUF_SIZE)) (of_nat NET_BUF_SIZE) 0x2 m)"

definition net_init :: "profile \<Rightarrow> 'd hw \<Rightarrow> net_alloc \<Rightarrow> 'd machine \<Rightarrow> ((string + vnet) \<times> 'd machine) option" where
  "net_init p hw al m =
     (case pci_find hw NET_VENDOR VIRTIO_NET_DEVICE m of
        (None, m) \<Rightarrow> Some (Inl ''VirtIO-net not found'', m)
      | (Some pd, m) \<Rightarrow>
          if bar0 pd AND 0x1 = 0 then Some (Inl ''BAR0 is not I/O BAR'', m)
          else do {
            let io = ucast (bar0 pd AND NOT 0x3);
            m \<leftarrow> outb_at p hw io NET_REG_STATUS NET_STATUS_RESET m;
            m \<leftarrow> outb_at p hw io NET_REG_STATUS NET_STATUS_ACKNOWLEDGE m;
            m \<leftarrow> outb_at p hw io NET_REG_STATUS (NET_STATUS_ACKNOWLEDGE OR NET_STATUS_DRIVER) m;
            m \<leftarrow> outl_at p hw io NET_REG_GUEST_FEATURES 0 m;
            (mac, m) \<leftarrow> read_mac p hw io [0..<6] m;
            m \<leftarrow> outw_at p hw io NET_REG_QUEUE_SEL NET_QUEUE_RX m;
            (qs, m) \<leftarrow> inw_at p hw io NET_REG_QUEUE_SIZE m;
            let qs = (ucast qs :: usize);
            let qmem_size = unat (net_queue_mem_size qs);
            let m = alloc_zeroed (na_rx_mem al) qmem_size m;
            if na_rx_mem al = 0 then None
            else do {
              let m = alloc_zeroed (na_rx_bufs al) (QUEUE_BUFS * NET_BUF_SIZE) m;
              if na_rx_bufs al = 0 then None
              else do {
                let m = fold (net_post (na_rx_mem al) qs (na_rx_bufs al)) [0..<QUEUE_BUFS] m;
                let m = wr16 (avail_idx_ptr (na_rx_mem al) qs) (of_nat QUEUE_BUFS) m;
                m \<leftarrow> outl_at p hw io NET_REG_QUEUE_PFN ((of_nat (na_rx_mem al) :: u32) div ucast NET_PAGE_SIZE) m;
                m \<leftarrow> outw_at p hw io NET_REG_QUEUE_SEL NET_QUEUE_TX m;
                (tx_qs, m) \<leftarrow> inw_at p hw io NET_REG_QUEUE_SIZE m;
                let m = alloc_zeroed (na_tx_mem al) qmem_size m;
                if na_tx_mem al = 0 then None
                else do {
                  let m = alloc_zeroed (na_tx_bufs al) (QUEUE_BUFS * NET_BUF_SIZE) m;
                  if na_tx_bufs al = 0 then None
                  else do {
                    m \<leftarrow> outl_at p hw io NET_REG_QUEUE_PFN ((of_nat (na_tx_mem al) :: u32) div ucast NET_PAGE_SIZE) m;
                    m \<leftarrow> outb_at p hw io NET_REG_STATUS
                      (NET_STATUS_ACKNOWLEDGE OR NET_STATUS_DRIVER OR NET_STATUS_DRIVER_OK) m;
                    m \<leftarrow> outw_at p hw io NET_REG_QUEUE_NOTIFY NET_QUEUE_RX m;
                    Some (Inr \<lparr>n_io_base = io, n_mac = mac, n_queue_size = qs,
                      n_rx_mem = na_rx_mem al, n_rx_bufs = na_rx_bufs al,
                      n_rx_next_avail = of_nat QUEUE_BUFS, n_rx_last_used = 0,
                      n_tx_mem = na_tx_mem al, n_tx_bufs = na_tx_bufs al, n_tx_next_avail = 0\<rparr>, m)
                  }
                }
              }
            }
          })"

section \<open>Receiving and sending\<close>

text \<open>\<open>x % qs as u16\<close> panics when the truncated queue size is 0.\<close>

definition ring_slot :: "u16 \<Rightarrow> usize \<Rightarrow> nat option" where
  "ring_slot i qs = (if (ucast qs :: u16) = 0 then None else Some (unat (i mod ucast qs)))"

definition net_try_recv :: "profile \<Rightarrow> 'd hw \<Rightarrow> vnet \<times> 'd machine \<Rightarrow>
    (bytes option \<times> vnet \<times> 'd machine) option" where
  "net_try_recv p hw = (\<lambda>(d, m). do {
     let qs = n_queue_size d;
     let m = sync hw m;
     let used = rd16 (used_idx_ptr (n_rx_mem d) qs) m;
     if used = n_rx_last_used d then Some (None, d, m)
     else do {
       ring_i \<leftarrow> ring_slot (n_rx_last_used d) qs;
       let desc_id = unat (rd32 (used_id_ptr (n_rx_mem d) qs ring_i) m);
       let pkt_len = unat (rd32 (used_len_ptr (n_rx_mem d) qs ring_i) m);
       last_used \<leftarrow> add_ovf p (n_rx_last_used d) 1;
       let d = d\<lparr>n_rx_last_used := last_used\<rparr>;
       let buf = n_rx_bufs d + desc_id * NET_BUF_SIZE;
       let data_len = pkt_len - VNET_HDR;
       let pkt = mem_read (ram m) (buf + VNET_HDR) data_len;
       avail_slot \<leftarrow> ring_slot (n_rx_next_avail d) qs;
       let m = wr16 (avail_ring_ptr (n_rx_mem d) qs avail_slot) (of_nat desc_id) m;
       next_avail \<leftarrow> add_ovf p (n_rx_next_avail d) 1;
       let d = d\<lparr>n_rx_next_avail := next_avail\<rparr>;
       let m = wr16 (avail_idx_ptr (n_rx_mem d) qs) next_avail m;
       m \<leftarrow> outw_at p hw (n_io_base d) NET_REG_QUEUE_NOTIFY NET_QUEUE_RX m;
       Some (Some pkt, d, m)
     }
   })"

definition send_packet :: "profile \<Rightarrow> 'd hw \<Rightarrow> bytes \<Rightarrow> vnet \<times> 'd machine \<Rightarrow> (vnet \<times> 'd machine) option" where
  "send_packet p hw frame = (\<lambda>(d, m).
     let len = VNET_HDR + length frame in
     if len \<le> NET_BUF_SIZE then do {
       let qs = n_queue_size d;
       slot \<leftarrow> ring_slot (n_tx_next_avail d) qs;
       let desc_i = slot mod QUEUE_BUFS;
       let buf = n_tx_bufs d + desc_i * NET_BUF_SIZE;
       let m = wr_bytes buf (replicate VNET_HDR 0) m;
       let m = wr_bytes (buf + VNET_HDR) frame m;
       desc_slot \<leftarrow> ring_slot (n_tx_next_avail d) qs;
       let m = net_desc_write (n_tx_mem d) qs desc_slot (of_nat buf) (of_nat len) 0 m;
       let m = wr16 (avail_ring_ptr (n_tx_mem d) qs desc_slot) (of_nat desc_slot) m;
       next_avail \<leftarrow> add_ovf p (n_tx_next_avail d) 1;
       let d = d\<lparr>n_tx_next_avail := next_avail\<rparr>;
       let m = wr16 (avail_idx_ptr (n_tx_mem d) qs) next_avail m;
       m \<leftarrow> outw_at p hw (n_io_base d) NET_REG_QUEUE_NOTIFY NET_QUEUE_TX m;
       Some (d, m)
     }
     else None)"

end
