(* ===== verification/NetRings.thy ===== *)
theory NetRings
  imports VirtioNet
begin

text \<open>
  The rings of \<^verbatim>\<open>virtio_net.rs\<close> against the device's side of the VirtIO specification. The device's
  actions are explicit events: it fills the next available receive buffer, or reads an entry of the
  transmit ring. Ring positions are absolute counts; the 16-bit indices are their images, and the
  slots are their remainders by the queue size, a power of two of at least sixteen.
\<close>

section \<open>What both rings share\<close>

text \<open>The registers and the passing of time leave memory to the events.\<close>

definition net_quiet :: "'d hw \<Rightarrow> u16 \<Rightarrow> bool" where
  "net_quiet hw io \<longleftrightarrow> unat io + 0x10 < 65536 \<and>
     (\<forall>m. ram (sync hw m) = ram m \<and> (\<forall>v. ram (outw hw (io + 0x10) v m) = ram m))"

definition ring_size :: "usize \<Rightarrow> bool" where
  "ring_size qs \<longleftrightarrow> 16 \<le> unat qs \<and> unat qs < 65536 \<and> unat qs dvd 65536"

definition ring_area :: "usize \<Rightarrow> nat \<Rightarrow> nat \<Rightarrow> bool" where
  "ring_area qs mem bufs \<longleftrightarrow> apart mem (unat (net_queue_mem_size qs)) bufs 32768 \<and> bufs + 32768 < 2 ^ 64"

lemma notify_ok:
  assumes "net_quiet hw io"
  shows "\<exists>m'. outw_at p hw io NET_REG_QUEUE_NOTIFY q m = Some m' \<and> ram m' = ram m \<and> m' = outw hw (io + 0x10) q m"
  using assms add_ovf_exact(1) [of io "0x10" p]
  by (simp add: net_quiet_def outw_at_def NET_REG_QUEUE_NOTIFY_def)

lemma ring_slot_count:
  assumes "ring_size qs"
  shows "ring_slot (of_nat k) qs = Some (k mod unat qs)"
proof -
  have u: "unat (ucast qs :: u16) = unat qs"
    using assms by (simp add: ring_size_def unsigned_ucast_eq take_bit_eq_mod)
  then have "(ucast qs :: u16) \<noteq> 0" using assms by (metis ring_size_def unat_0 not_numeral_le_zero)
  then show ?thesis
    using assms index_slot [of "unat qs" k] by (simp add: ring_slot_def ring_size_def unat_mod_distrib u)
qed

lemma ring_slot_none: "ring_slot i qs = None \<longleftrightarrow> (ucast qs :: u16) = 0"
  by (simp add: ring_slot_def)

text \<open>The areas of the ring, as offsets from its address.\<close>

lemma net_cells:
  assumes "ring_size qs"
  shows "avail_idx_ptr mem qs = mem + 16 * unat qs + 2" "avail_ring_ptr mem qs i = mem + 16 * unat qs + 4 + 2 * i"
    "used_idx_ptr mem qs = mem + spec_used (unat qs) + 2" "used_id_ptr mem qs i = mem + spec_used (unat qs) + 4 + 8 * i"
    "used_len_ptr mem qs i = mem + spec_used (unat qs) + 8 + 8 * i"
    "18 * unat qs + 6 \<le> spec_used (unat qs)" "spec_used (unat qs) + 6 + 8 * unat qs \<le> unat (net_queue_mem_size qs)"
  using assms net.avail_at [of qs] net.used_at [of qs] net.avail_below_used [of qs] net.used_below_end [of qs]
  by (simp_all add: ring_size_def avail_idx_ptr_def avail_ring_ptr_def used_idx_ptr_def used_id_ptr_def
      used_len_ptr_def spec_used_def)

lemma desc_at_read_cong:
  assumes "mem_read r (mem + 16 * i) 16 = mem_read r' (mem + 16 * i) 16"
  shows "desc_at r mem i = desc_at r' mem i"
proof -
  have "mem_read r (mem + 16 * i + x) n = mem_read r' (mem + 16 * i + x) n" if "x + n \<le> 16" for x n
    using assms that by (simp flip: mem_read_bslice [of x n 16])
  from this [of 0] this [of 8] this [of 12] this [of 14] show ?thesis by (simp add: desc_at_def)
qed

lemma net_desc_here:
  "desc_at (ram (net_desc_write mem qs i addr len flags m)) mem i =
     \<lparr>d_addr = unat addr, d_len = unat len, d_flags = flags, d_next = 0\<rparr>"
  by (simp add: desc_at_def net_desc_write_def Let_def mem_simps mult.commute)

lemma net_desc_outside:
  "a + n \<le> mem + 16 * i \<or> mem + 16 * i + 16 \<le> a \<Longrightarrow>
   mem_read (ram (net_desc_write mem qs i addr len flags m)) a n = mem_read (ram m) a n"
  by (auto simp: net_desc_write_def Let_def mem_read_write_disjoint mult.commute)

section \<open>The transmit ring\<close>

text \<open>What the device sends for its \<open>k\<close>-th entry, from memory alone.\<close>

definition tx_entry :: "usize \<Rightarrow> nat \<Rightarrow> nat \<Rightarrow> ram \<Rightarrow> bytes" where
  "tx_entry qs mem k r =
     (let head = unat (c16 r (mem + 16 * unat qs + 4 + 2 * (k mod unat qs)));
          d = desc_at r mem head
      in mem_read r (d_addr d) (d_len d))"

text \<open>
  The device's side of a notification: it takes every entry up to the available index that is in
  memory, and puts the bytes behind the header of ten bytes on the wire. Its state is the index it has
  reached and the frames it has put on the wire. \<open>tx_device\<close> says that hardware does so, at once,
  when the number of the transmit queue is written to the notification register.
\<close>

definition tx_serve :: "usize \<Rightarrow> nat \<Rightarrow> ram \<Rightarrow> u16 \<times> bytes list \<Rightarrow> u16 \<times> bytes list" where
  "tx_serve qs mem r = (\<lambda>(reached, wire).
     let idx = c16 r (mem + 16 * unat qs + 2)
     in (idx, wire @ map (\<lambda>i. drop 10 (tx_entry qs mem (unat reached + i) r)) [0..<unat (idx - reached)]))"

definition tx_device :: "'d hw \<Rightarrow> ('d \<Rightarrow> u16 \<times> bytes list) \<Rightarrow> vnet \<Rightarrow> bool" where
  "tx_device hw view d \<longleftrightarrow> (\<forall>m. view (dev (outw hw (n_io_base d + 0x10) 1 m))
     = tx_serve (n_queue_size d) (n_tx_mem d) (ram m) (view (dev m)))"

definition fits :: "bytes \<Rightarrow> bool" where
  "fits frame \<longleftrightarrow> VNET_HDR + length frame \<le> NET_BUF_SIZE"

definition tx_ready :: "'d hw \<Rightarrow> vnet \<Rightarrow> bool" where
  "tx_ready hw d \<longleftrightarrow> net_quiet hw (n_io_base d) \<and> ring_size (n_queue_size d)
     \<and> ring_area (n_queue_size d) (n_tx_mem d) (n_tx_bufs d)"

text \<open>Memory after the \<open>k\<close>-th frame has been sent.\<close>

definition tx_staged :: "usize \<Rightarrow> nat \<Rightarrow> nat \<Rightarrow> nat \<Rightarrow> bytes \<Rightarrow> 'd machine \<Rightarrow> 'd machine" where
  "tx_staged qs mem bufs k frame m =
     (let slot = k mod unat qs; buf = bufs + k mod 16 * 2048;
          m = wr_bytes (buf + 10) frame (wr_bytes buf (replicate 10 0) m);
          m = net_desc_write mem qs slot (of_nat buf) (of_nat (10 + length frame)) 0 m;
          m = wr16 (mem + 16 * unat qs + 4 + 2 * slot) (of_nat slot) m
      in wr16 (mem + 16 * unat qs + 2) (of_nat k + 1) m)"

lemma dvd_power_two: "d dvd 2 ^ n \<Longrightarrow> \<exists>i. d = (2 :: nat) ^ i"
proof (induction n arbitrary: d)
  case 0
  then show ?case by (auto intro: exI [of _ 0])
next
  case (Suc n)
  show ?case
  proof (cases "even d")
    case True
    then obtain e where e: "d = 2 * e" ..
    then have "e dvd 2 ^ n" using Suc.prems by simp
    with Suc.IH obtain i where "e = 2 ^ i" by blast
    then show ?thesis using e by (auto intro: exI [of _ "Suc i"])
  next
    case False
    then have "d dvd 2 ^ n" using Suc.prems by (metis coprime_dvd_mult_right_iff coprime_right_2_iff_odd power_Suc)
    then show ?thesis by (rule Suc.IH)
  qed
qed

lemma buf_slot: "ring_size qs \<Longrightarrow> k mod unat qs mod 16 = k mod 16"
proof -
  assume "ring_size qs"
  then have "unat qs dvd 2 ^ 16" "16 \<le> unat qs" by (simp_all add: ring_size_def)
  then obtain i where i: "unat qs = 2 ^ i" using dvd_power_two by blast
  then have "(2 :: nat) ^ 4 \<le> 2 ^ i" using \<open>16 \<le> unat qs\<close> by simp
  then have "4 \<le> i" by (rule power_le_imp_le_exp [rotated]) simp
  then have "16 dvd unat qs" unfolding i using le_imp_power_dvd [of 4 i "2 :: nat"] by simp
  then show ?thesis by (simp add: mod_mod_cancel)
qed

lemma send_staged:
  assumes "tx_ready hw d" and "fits frame" and "n_tx_next_avail d = of_nat k"
  shows "send_packet p hw frame (d, m) = (case add_ovf p (of_nat k :: u16) 1 of
      None \<Rightarrow> None
    | Some i \<Rightarrow> do {
        m \<leftarrow> outw_at p hw (n_io_base d) NET_REG_QUEUE_NOTIFY NET_QUEUE_TX
          (tx_staged (n_queue_size d) (n_tx_mem d) (n_tx_bufs d) k frame m);
        Some (d\<lparr>n_tx_next_avail := i\<rparr>, m) })"
proof -
  note rs = assms(1) [unfolded tx_ready_def, THEN conjunct2, THEN conjunct1]
  have "add_ovf p (of_nat k :: u16) 1 = Some na \<Longrightarrow> na = of_nat k + 1" for na
    by (auto simp: add_ovf_def split: if_splits profile.splits)
  then show ?thesis
    using assms(2,3)
    by (auto simp: send_packet_def fits_def ring_slot_count [OF rs] net_cells(1,2) [OF rs] tx_staged_def Let_def
        net_sizes buf_slot [OF rs] split: Option.bind_splits option.splits)
qed

definition tx_holds :: "usize \<Rightarrow> nat \<Rightarrow> nat \<Rightarrow> nat \<Rightarrow> bytes \<Rightarrow> ram \<Rightarrow> bool" where
  "tx_holds qs mem bufs j frame r \<longleftrightarrow> fits frame
     \<and> c16 r (mem + 16 * unat qs + 4 + 2 * (j mod unat qs)) = of_nat (j mod unat qs)
     \<and> d_addr (desc_at r mem (j mod unat qs)) = bufs + j mod 16 * 2048
     \<and> d_len (desc_at r mem (j mod unat qs)) = 10 + length frame
     \<and> mem_read r (bufs + j mod 16 * 2048) (10 + length frame) = replicate 10 0 @ frame"

lemma tx_holds_entry: "ring_size qs \<Longrightarrow> tx_holds qs mem bufs j frame r \<Longrightarrow> tx_entry qs mem j r = replicate 10 0 @ frame"
proof -
  assume qs: "ring_size qs" and h: "tx_holds qs mem bufs j frame r"
  have "j mod unat qs < 65536" using qs by (meson ring_size_def le_less_trans mod_less_divisor less_le_trans zero_less_numeral less_imp_le)
  then have "unat (of_nat (j mod unat qs) :: u16) = j mod unat qs" by (simp add: unat_of_nat)
  with h show ?thesis by (simp add: tx_entry_def tx_holds_def Let_def)
qed

lemma fits_len: "fits frame \<longleftrightarrow> length frame \<le> 2038"
  by (auto simp: fits_def net_sizes)

lemma buf_area:
  assumes "ring_area qs mem bufs"
  shows "bufs + j mod 16 * 2048 + 2048 \<le> bufs + 32768" "bufs + j mod 16 * 2048 < 2 ^ 64"
    "apart mem (unat (net_queue_mem_size qs)) (bufs + j mod 16 * 2048) 2048"
proof -
  have "j mod 16 < 16" by simp
  then show a: "bufs + j mod 16 * 2048 + 2048 \<le> bufs + 32768" by linarith
  show "bufs + j mod 16 * 2048 < 2 ^ 64" using a assms by (simp add: ring_area_def)
  show "apart mem (unat (net_queue_mem_size qs)) (bufs + j mod 16 * 2048) 2048"
    using assms a by (intro apart_inside [where k = 32768]) (simp_all add: ring_area_def)
qed

lemma tx_staged_here:
  assumes "ring_size qs" and "ring_area qs mem bufs" and "fits frame"
  shows "tx_holds qs mem bufs k frame (ram (tx_staged qs mem bufs k frame m))"
proof -
  let ?s = "k mod unat qs" and ?b = "bufs + k mod 16 * 2048"
  note ba = buf_area [OF assms(2), of k]
  have s: "?s < unat qs" using assms(1) by (intro mod_less_divisor) (simp add: ring_size_def)
  have sz: "18 * unat qs + 6 \<le> unat (net_queue_mem_size qs)" using net_cells(6,7) [OF assms(1)] by linarith
  have len: "10 + length frame \<le> 2048" "unat (of_nat (10 + length frame) :: u32) = 10 + length frame"
    using assms(3) by (simp_all add: fits_len unat_word_ariths unat_of_nat)
  have ad: "unat (of_nat ?b :: u64) = ?b" using ba(2) by (simp only: unat_of_nat) simp
  let ?m1 = "wr_bytes (?b + 10) frame (wr_bytes ?b (replicate 10 0) m)"
  let ?m2 = "net_desc_write mem qs ?s (of_nat ?b) (of_nat (10 + length frame)) 0 ?m1"
  have st: "ram (tx_staged qs mem bufs k frame m) = mem_write (mem_write (ram ?m2)
      (mem + 16 * unat qs + 4 + 2 * ?s) (to_le16 (of_nat ?s))) (mem + 16 * unat qs + 2) (to_le16 (of_nat k + 1))"
    by (simp add: tx_staged_def Let_def)
  have "mem_read (ram ?m1) ?b (10 + length frame) = replicate 10 0 @ frame"
    by (subst mem_read_append) (simp add: mem_simps)
  moreover have "mem_read (ram (tx_staged qs mem bufs k frame m)) ?b (10 + length frame) = mem_read (ram ?m1) ?b (10 + length frame)"
    using ba(3) s sz len(1) unfolding st apart_def by (auto simp: mem_read_write_disjoint net_desc_outside)
  moreover have "desc_at (ram (tx_staged qs mem bufs k frame m)) mem ?s = desc_at (ram ?m2) mem ?s"
    using s unfolding st by (simp add: desc_at_def mem_read_write_disjoint)
  ultimately show ?thesis
    using s assms(3) ad len(2) unfolding tx_holds_def
    by (simp add: net_desc_here c_other c_same st)
qed

lemma tx_staged_outside:
  assumes "fits frame" and "apart a n (bufs + k mod 16 * 2048) 2048" and "apart a n (mem + 16 * (k mod unat qs)) 16"
    and "apart a n (mem + 16 * unat qs + 4 + 2 * (k mod unat qs)) 2" and "apart a n (mem + 16 * unat qs + 2) 2"
  shows "mem_read (ram (tx_staged qs mem bufs k frame m)) a n = mem_read (ram m) a n"
proof -
  let ?b = "bufs + k mod 16 * 2048"
  let ?m1 = "wr_bytes (?b + 10) frame (wr_bytes ?b (replicate 10 0) m)"
  have "mem_read (ram ?m1) a n = mem_read (ram m) a n"
    using assms(1,2) by (auto simp: apart_def fits_len mem_read_write_disjoint)
  with assms(3-) show ?thesis
    by (simp add: tx_staged_def Let_def apart_def mem_read_write_disjoint net_desc_outside)
qed

text \<open>Parts of the ring lie inside its allocation.\<close>

lemma ring_parts:
  assumes "ring_size qs"
  shows "16 * (k mod unat qs) + 16 \<le> unat (net_queue_mem_size qs)"
    "16 * unat qs + 4 + 2 * (k mod unat qs) + 2 \<le> unat (net_queue_mem_size qs)"
    "16 * unat qs + 2 + 2 \<le> unat (net_queue_mem_size qs)"
    "16 * (k mod unat qs) + 16 \<le> 16 * unat qs"
proof -
  have "k mod unat qs < unat qs" using assms by (intro mod_less_divisor) (simp add: ring_size_def)
  with net_cells(6,7) [OF assms] show "16 * (k mod unat qs) + 16 \<le> unat (net_queue_mem_size qs)"
    "16 * unat qs + 4 + 2 * (k mod unat qs) + 2 \<le> unat (net_queue_mem_size qs)"
    "16 * unat qs + 2 + 2 \<le> unat (net_queue_mem_size qs)"
    "16 * (k mod unat qs) + 16 \<le> 16 * unat qs" by linarith+
qed

text \<open>A later entry in another slot leaves the entry alone; its frame survives for sixteen packets.\<close>

lemma tx_slot_elsewhere:
  fixes m :: "'d machine"
  assumes "ring_size qs" and "ring_area qs mem bufs" and "fits frame" and "j < k" "k < j + unat qs"
  defines "t \<equiv> j mod unat qs" and "r \<equiv> ram (tx_staged qs mem bufs k frame m)"
  shows "c16 r (mem + 16 * unat qs + 4 + 2 * t) = c16 (ram m) (mem + 16 * unat qs + 4 + 2 * t)"
    and "desc_at r mem t = desc_at (ram m) mem t"
proof -
  have ne: "t \<noteq> k mod unat qs" using slots_apart [OF assms(4,5)] by (simp add: t_def)
  note rp = ring_parts [OF assms(1)]
  note out = tx_staged_outside [OF assms(3), of _ _ bufs k mem qs m, folded r_def]
  have in_b: "apart (mem + x) y (bufs + k mod 16 * 2048) 2048" if "x + y \<le> unat (net_queue_mem_size qs)" for x y
    by (rule apart_part [OF buf_area(3) [OF assms(2)] that])
  have "mem_read r (mem + (16 * unat qs + 4 + 2 * t)) 2 = mem_read (ram m) (mem + (16 * unat qs + 4 + 2 * t)) 2"
    unfolding t_def using rp(4) [of k] ne [unfolded t_def] by (intro out in_b rp(2)) (auto simp: apart_def)
  then show "c16 r (mem + 16 * unat qs + 4 + 2 * t) = c16 (ram m) (mem + 16 * unat qs + 4 + 2 * t)"
    by (simp add: c16_def add.assoc)
  have "mem_read r (mem + 16 * t) 16 = mem_read (ram m) (mem + 16 * t) 16"
    unfolding t_def using rp(4) [of j] ne [unfolded t_def] by (intro out in_b rp(1)) (auto simp: apart_def)
  then show "desc_at r mem t = desc_at (ram m) mem t" by (rule desc_at_read_cong)
qed

lemma tx_staged_elsewhere:
  assumes "ring_size qs" and "ring_area qs mem bufs" and "fits frame" and "j < k" "k < j + 16"
    and "tx_holds qs mem bufs j f (ram m)"
  shows "tx_holds qs mem bufs j f (ram (tx_staged qs mem bufs k frame m))"
proof -
  let ?b = "bufs + k mod 16 * 2048" and ?c = "bufs + j mod 16 * 2048"
  have ne: "j mod 16 \<noteq> k mod 16" using slots_apart [OF assms(4,5)] by simp
  have near: "k < j + unat qs" using assms(1,5) by (simp add: ring_size_def)
  have len: "10 + length f \<le> 2048" using assms(6) by (simp add: fits_len tx_holds_def)
  note rp = ring_parts [OF assms(1)]
  have in_c: "apart ?c (10 + length f) (mem + x) y" if "x + y \<le> unat (net_queue_mem_size qs)" for x y
    using apart_inside [OF apart_part [OF apart_sym [THEN iffD1, OF buf_area(3) [OF assms(2)]], of 0 "10 + length f"] that] len
    by simp
  have "mem_read (ram (tx_staged qs mem bufs k frame m)) ?c (10 + length f) = mem_read (ram m) ?c (10 + length f)"
    using in_c [OF rp(1) [of k]] in_c [OF rp(2) [of k]] in_c [OF rp(3)] ne len
    by (intro tx_staged_outside [OF assms(3)]) (auto simp: apart_def add.assoc)
  with assms(6) tx_slot_elsewhere [OF assms(1-4) near, of m] show ?thesis by (simp add: tx_holds_def)
qed

lemma tx_replaced:
  assumes "ring_size qs" and "ring_area qs mem bufs" and "fits frame" and "tx_holds qs mem bufs j f (ram m)"
    and "length frame = length f"
  shows "tx_entry qs mem j (ram (tx_staged qs mem bufs (j + 16) frame m)) = replicate 10 0 @ frame"
proof -
  let ?r = "ram (tx_staged qs mem bufs (j + 16) frame m)"
  have new: "tx_holds qs mem bufs (j + 16) frame ?r" by (rule tx_staged_here [OF assms(1-3)])
  show ?thesis
  proof (cases "unat qs = 16")
    case True
    then have "tx_entry qs mem (j + 16) ?r = tx_entry qs mem j ?r" by (simp add: tx_entry_def)
    with tx_holds_entry [OF assms(1) new] show ?thesis by simp
  next
    case False
    then have "j + 16 < j + unat qs" using assms(1) by (simp add: ring_size_def)
    from tx_slot_elsewhere [OF assms(1-3) _ this, of m] assms(4,5) new
    have "tx_holds qs mem bufs j frame ?r" by (simp add: tx_holds_def)
    then show ?thesis by (rule tx_holds_entry [OF assms(1)])
  qed
qed

text \<open>Sending a sequence of frames.\<close>

definition send_all :: "profile \<Rightarrow> 'd hw \<Rightarrow> bytes list \<Rightarrow> vnet \<times> 'd machine \<Rightarrow> (vnet \<times> 'd machine) option" where
  "send_all p hw = foldM (send_packet p hw)"

lemma count_up_ovf: "p = Release \<or> k < 65535 \<Longrightarrow> add_ovf p (of_nat k :: u16) 1 = Some (of_nat (Suc k))"
  by (elim disjE) (simp_all add: add_ovf_def unat_of_nat)

lemma send_one:
  assumes "tx_ready hw d" and "fits frame" and "n_tx_next_avail d = of_nat k" and "p = Release \<or> k < 65535"
  shows "\<exists>m'. send_packet p hw frame (d, m) = Some (d\<lparr>n_tx_next_avail := of_nat (Suc k)\<rparr>, m')
    \<and> ram m' = ram (tx_staged (n_queue_size d) (n_tx_mem d) (n_tx_bufs d) k frame m)"
proof -
  have "add_ovf p (of_nat k :: u16) 1 = Some (of_nat (Suc k))"
    using assms(4) by (rule count_up_ovf)
  moreover obtain m' where "outw_at p hw (n_io_base d) NET_REG_QUEUE_NOTIFY NET_QUEUE_TX
      (tx_staged (n_queue_size d) (n_tx_mem d) (n_tx_bufs d) k frame m) = Some m'"
    "ram m' = ram (tx_staged (n_queue_size d) (n_tx_mem d) (n_tx_bufs d) k frame m)"
    using notify_ok assms(1) by (metis tx_ready_def)
  ultimately show ?thesis by (simp add: send_staged [OF assms(1-3)])
qed

lemma send_run:
  assumes "tx_ready hw d" and "list_all fits frames" and "n_tx_next_avail d = 0" and "p = Release \<or> length frames < 65536"
  shows "\<exists>m'. send_all p hw frames (d, m) = Some (d\<lparr>n_tx_next_avail := of_nat (length frames)\<rparr>, m')
    \<and> (frames \<noteq> [] \<longrightarrow> c16 (ram m') (n_tx_mem d + 16 * unat (n_queue_size d) + 2) = of_nat (length frames))
    \<and> (\<forall>j<length frames. length frames \<le> j + 16 \<longrightarrow>
         tx_holds (n_queue_size d) (n_tx_mem d) (n_tx_bufs d) j (frames ! j) (ram m'))"
  using assms(2,4)
proof (induction frames rule: rev_induct)
  case Nil
  then show ?case using assms(3) by (simp add: send_all_def)
next
  case (snoc f fs)
  let ?qs = "n_queue_size d" and ?mem = "n_tx_mem d" and ?bufs = "n_tx_bufs d" and ?k = "length fs"
  have rs: "ring_size ?qs" "ring_area ?qs ?mem ?bufs" using assms(1) by (simp_all add: tx_ready_def)
  from snoc obtain m1 where 1: "send_all p hw fs (d, m) = Some (d\<lparr>n_tx_next_avail := of_nat ?k\<rparr>, m1)"
    "\<And>j. j < ?k \<Longrightarrow> ?k \<le> j + 16 \<Longrightarrow> tx_holds ?qs ?mem ?bufs j (fs ! j) (ram m1)" by auto
  have "tx_ready hw (d\<lparr>n_tx_next_avail := of_nat ?k\<rparr>)" using assms(1) by (simp add: tx_ready_def)
  from send_one [OF this, of f ?k p m1] snoc.prems obtain m2 where
    2: "send_packet p hw f (d\<lparr>n_tx_next_avail := of_nat ?k\<rparr>, m1) = Some (d\<lparr>n_tx_next_avail := of_nat (Suc ?k)\<rparr>, m2)"
      "ram m2 = ram (tx_staged ?qs ?mem ?bufs ?k f m1)" by auto
  have f: "fits f" using snoc.prems by simp
  have "tx_holds ?qs ?mem ?bufs j ((fs @ [f]) ! j) (ram m2)" if "j < Suc ?k" "Suc ?k \<le> j + 16" for j
    using that tx_staged_here [OF rs f, of ?k m1] tx_staged_elsewhere [OF rs f, of j ?k "fs ! j" m1] 1(2) [of j]
    by (cases "j = ?k") (simp_all add: 2(2) nth_append)
  moreover have "c16 (ram m2) (?mem + 16 * unat ?qs + 2) = of_nat (Suc ?k)"
    unfolding 2(2) by (simp add: tx_staged_def Let_def c_same add.commute)
  ultimately show ?case using 1(1) 2(1) by (auto simp: send_all_def foldM_append)
qed

text \<open>One notification after the \<open>k\<close>-th entry: the device finds that entry and no other.\<close>

lemma tx_serve_one:
  assumes "ring_size qs" and "ring_area qs mem bufs" and "fits frame"
  shows "tx_serve qs mem (ram (tx_staged qs mem bufs k frame m)) (of_nat k, wire) = (of_nat (Suc k), wire @ [frame])"
proof -
  let ?r = "ram (tx_staged qs mem bufs k frame m)"
  have "c16 ?r (mem + 16 * unat qs + 2) = of_nat (Suc k)"
    by (simp add: tx_staged_def Let_def c_same add.commute)
  moreover have "tx_entry qs mem (unat (of_nat k :: u16)) ?r = tx_entry qs mem k ?r"
    using assms(1) index_slot [of "unat qs" k] by (simp add: tx_entry_def ring_size_def)
  moreover have "tx_entry qs mem k ?r = replicate 10 0 @ frame"
    by (rule tx_holds_entry [OF assms(1) tx_staged_here [OF assms]])
  ultimately show ?thesis by (simp add: tx_serve_def Let_def)
qed

lemma dev_tx_staged [simp]: "dev (tx_staged qs mem bufs k frame m) = dev m"
  by (simp add: tx_staged_def net_desc_write_def Let_def)

lemma sent_on_wire:
  assumes "tx_ready hw d" and "tx_device hw view d" and "list_all fits frames" and "n_tx_next_avail d = of_nat k"
    and "view (dev m) = (of_nat k, wire)" and "send_all p hw frames (d, m) = Some (d', m')"
  shows "view (dev m') = (of_nat (k + length frames), wire @ frames)"
  using assms
proof (induction frames arbitrary: d m k wire)
  case Nil
  then show ?case by (simp add: send_all_def)
next
  case (Cons f fs)
  let ?qs = "n_queue_size d" and ?mem = "n_tx_mem d" and ?bufs = "n_tx_bufs d"
  have rs: "ring_size ?qs" "ring_area ?qs ?mem ?bufs" and quiet: "net_quiet hw (n_io_base d)" and f: "fits f"
    using Cons.prems(1,3) by (simp_all add: tx_ready_def)
  let ?m1 = "outw hw (n_io_base d + 0x10) 1 (tx_staged ?qs ?mem ?bufs k f m)"
  obtain i where i: "add_ovf p (of_nat k :: u16) 1 = Some i" "send_packet p hw f (d, m) = Some (d\<lparr>n_tx_next_avail := i\<rparr>, ?m1)"
    and rest: "send_all p hw fs (d\<lparr>n_tx_next_avail := i\<rparr>, ?m1) = Some (d', m')"
    using Cons.prems(6) send_staged [OF Cons.prems(1) f Cons.prems(4), of p m]
      notify_ok [OF quiet, of p NET_QUEUE_TX "tx_staged ?qs ?mem ?bufs k f m"]
    by (auto simp: send_all_def NET_QUEUE_TX_def split: Option.bind_splits option.splits)
  have "i = of_nat (Suc k)" using i(1) by (auto simp: add_ovf_def split: if_splits profile.splits)
  moreover have "view (dev ?m1) = (of_nat (Suc k), wire @ [f])"
    using Cons.prems(2,5) tx_serve_one [OF rs f, of k m wire] by (simp add: tx_device_def)
  moreover have "tx_ready hw (d\<lparr>n_tx_next_avail := i\<rparr>)" "tx_device hw view (d\<lparr>n_tx_next_avail := i\<rparr>)"
    using Cons.prems(1,2) by (simp_all add: tx_ready_def tx_device_def)
  ultimately show ?case using Cons.IH [OF _ _ _ _ _ rest, of "Suc k" "wire @ [f]"] Cons.prems(3) by simp
qed

lemma send_overflow:
  assumes "tx_ready hw d" and "list_all fits frames" and "n_tx_next_avail d = 0" and "65535 < length frames"
  shows "send_all Dev hw frames (d, m) = None"
proof -
  obtain f rest where split: "frames = take 65535 frames @ f # rest" "f \<in> set frames"
    using assms(4) by (metis id_take_nth_drop nth_mem)
  have "list_all fits (take 65535 frames)" using assms(2) by (auto simp: list_all_iff dest: in_set_takeD)
  from send_run [OF assms(1) this assms(3), of Dev m] assms(4) obtain m1 where
    1: "send_all Dev hw (take 65535 frames) (d, m) = Some (d\<lparr>n_tx_next_avail := of_nat 65535\<rparr>, m1)" by auto
  have "tx_ready hw (d\<lparr>n_tx_next_avail := of_nat 65535\<rparr>)" using assms(1) by (simp add: tx_ready_def)
  moreover have "fits f" using assms(2) split(2) by (auto simp: list_all_iff)
  ultimately have "send_packet Dev hw f (d\<lparr>n_tx_next_avail := of_nat 65535\<rparr>, m1) = None"
    by (subst send_staged [where k = 65535]) (simp_all add: add_ovf_def)
  with 1 have "foldM (send_packet Dev hw) (take 65535 frames @ f # rest) (d, m) = None"
    unfolding foldM_append by (simp add: send_all_def)
  then show ?thesis using split(1) by (simp add: send_all_def)
qed

lemma frames_sent:
  assumes "tx_ready hw d" and "n_tx_next_avail d = 0" and "list_all fits frames"
    and "p = Release \<or> length frames < 65536"
  shows "\<exists>d' m'. send_all p hw frames (d, m) = Some (d', m') \<and> n_tx_next_avail d' = of_nat (length frames)
    \<and> (frames \<noteq> [] \<longrightarrow> c16 (ram m') (n_tx_mem d + 16 * unat (n_queue_size d) + 2) = of_nat (length frames))
    \<and> (\<forall>j<length frames. length frames \<le> j + 16 \<longrightarrow>
        tx_entry (n_queue_size d) (n_tx_mem d) j (ram m') = replicate 10 0 @ frames ! j)
    \<and> (\<forall>view wire. tx_device hw view d \<longrightarrow> view (dev m) = (0, wire) \<longrightarrow>
        view (dev m') = (of_nat (length frames), wire @ frames))"
proof -
  obtain d' m' where s: "send_all p hw frames (d, m) = Some (d', m')" "n_tx_next_avail d' = of_nat (length frames)"
    "frames \<noteq> [] \<longrightarrow> c16 (ram m') (n_tx_mem d + 16 * unat (n_queue_size d) + 2) = of_nat (length frames)"
    "\<And>j. j < length frames \<Longrightarrow> length frames \<le> j + 16 \<Longrightarrow>
        tx_entry (n_queue_size d) (n_tx_mem d) j (ram m') = replicate 10 0 @ frames ! j"
    using send_run [OF assms(1,3,2,4), of m] tx_holds_entry assms(1) by (fastforce simp: tx_ready_def)
  moreover have "view (dev m') = (of_nat (length frames), wire @ frames)"
    if "tx_device hw view d" "view (dev m) = (0, wire)" for view wire
    using sent_on_wire [OF assms(1) that(1) assms(3) _ _ s(1), of 0 wire] that(2) assms(2) by simp
  ultimately show ?thesis by blast
qed

section \<open>Properties\<close>

text \<open>Hardware that does nothing, and a driver on it.\<close>

definition still_hw :: "unit hw" where
  "still_hw = \<lparr>port_in = (\<lambda>w port m. (0, m)), port_out = (\<lambda>w port v m. m), mmio_in = (\<lambda>w a m. (0, m)),
     mmio_out = (\<lambda>w a v m. m), sync = (\<lambda>m. m)\<rparr>"

definition sample_net :: vnet where
  "sample_net = \<lparr>n_io_base = 0xC000, n_mac = replicate 6 0, n_queue_size = 256, n_rx_mem = 0x100000,
     n_rx_bufs = 0x110000, n_rx_next_avail = 16, n_rx_last_used = 0, n_tx_mem = 0x120000, n_tx_bufs = 0x130000,
     n_tx_next_avail = 0\<rparr>"

lemma size_256: "ring_size 256" "unat (net_queue_mem_size 256) = 12288"
  using net.size_at [of 256] net.used_at [of 256] by (simp_all add: ring_size_def)

lemma sample_tx_ready: "tx_ready still_hw sample_net"
  by (simp add: tx_ready_def net_quiet_def still_hw_def sample_net_def outw_def size_256 ring_area_def apart_def)

text \<open>
  The network card's transmit side by itself: it serves the queue when it is notified.
\<close>

definition wire_hw :: "(u16 \<times> bytes list) hw" where
  "wire_hw = \<lparr>port_in = (\<lambda>w port m. (0, m)),
     port_out = (\<lambda>w port v m. if port = 0xC010 \<and> v = 1 then m\<lparr>dev := tx_serve 256 0x120000 (ram m) (dev m)\<rparr> else m),
     mmio_in = (\<lambda>w a m. (0, m)), mmio_out = (\<lambda>w a v m. m), sync = (\<lambda>m. m)\<rparr>"

lemma wire_tx_ready: "tx_ready wire_hw sample_net" "tx_device wire_hw id sample_net"
  by (simp_all add: tx_ready_def net_quiet_def wire_hw_def sample_net_def outw_def size_256 ring_area_def apart_def
      tx_device_def)

text \<open>
  C31. Frames are published for transmission as they are. After any sequence of sends the available
  index in memory counts them, and the device finds the last sixteen in their ring entries, each
  behind a header of ten zero bytes. A device that serves the queue whenever it is notified has put
  exactly the frames on the wire, all of them and in order.
\<close>

theorem frames_published:
  assumes "tx_ready hw d" and "n_tx_next_avail d = 0" and "list_all fits frames"
    and "p = Release \<or> length frames < 65536"
  shows "\<exists>d' m'. send_all p hw frames (d, m) = Some (d', m') \<and> n_tx_next_avail d' = of_nat (length frames)
    \<and> (frames \<noteq> [] \<longrightarrow> c16 (ram m') (n_tx_mem d + 16 * unat (n_queue_size d) + 2) = of_nat (length frames))
    \<and> (\<forall>j<length frames. length frames \<le> j + 16 \<longrightarrow>
        tx_entry (n_queue_size d) (n_tx_mem d) j (ram m') = replicate 10 0 @ frames ! j)
    \<and> (\<forall>view wire. tx_device hw view d \<longrightarrow> view (dev m) = (0, wire) \<longrightarrow>
        view (dev m') = (of_nat (length frames), wire @ frames))"
  by (rule frames_sent [OF assms])

theorem frames_published_witness:
  "\<exists>d' m'. send_all Dev wire_hw [[1, 2], [3]] (sample_net, \<lparr>ram = \<lambda>_. 0, dev = (0, [])\<rparr>) = Some (d', m')
     \<and> tx_entry 256 0x120000 0 (ram m') = replicate 10 0 @ [1, 2] \<and> dev m' = (2, [[1, 2], [3]])"
  using frames_published [OF wire_tx_ready(1), of "[[1, 2], [3]]" Dev "\<lparr>ram = \<lambda>_. 0, dev = (0, [])\<rparr>"] wire_tx_ready(2)
  by (fastforce simp: sample_net_def fits_len)

text \<open>
  C33. Sixteen is the limit: the driver does not wait for the device, and the seventeenth frame in
  flight replaces the bytes of the first, which the device then sends twice and the first never.
\<close>

theorem frame_replaced:
  assumes "tx_ready hw d" and "n_tx_next_avail d = 0" and "list_all fits frames"
    and "p = Release \<or> length frames < 65536"
    and "length frames = j + 17" and "length (frames ! (j + 16)) = length (frames ! j)"
  shows "\<exists>d' m'. send_all p hw frames (d, m) = Some (d', m')
    \<and> tx_entry (n_queue_size d) (n_tx_mem d) j (ram m') = replicate 10 0 @ frames ! (j + 16)"
proof -
  let ?fs = "take (j + 16) frames" and ?f = "frames ! (j + 16)"
  let ?d = "d\<lparr>n_tx_next_avail := of_nat (j + 16)\<rparr>"
  have split: "frames = ?fs @ [?f]" using assms(5) by (simp flip: take_Suc_conv_app_nth)
  have fits: "list_all fits ?fs" "fits ?f" using assms(3,5) by (auto simp: list_all_iff dest: in_set_takeD)
  obtain m1 where 1: "send_all p hw ?fs (d, m) = Some (?d, m1)"
    "tx_holds (n_queue_size d) (n_tx_mem d) (n_tx_bufs d) j (frames ! j) (ram m1)"
    using send_run [OF assms(1) fits(1) assms(2), of p m] assms(4,5) by auto
  have rs: "ring_size (n_queue_size d)" "ring_area (n_queue_size d) (n_tx_mem d) (n_tx_bufs d)"
    using assms(1) by (simp_all add: tx_ready_def)
  have "tx_ready hw ?d" using assms(1) by (simp add: tx_ready_def)
  from send_one [OF this fits(2), of "j + 16" p m1] assms(4,5) obtain m2 where
    2: "send_packet p hw ?f (?d, m1) = Some (?d\<lparr>n_tx_next_avail := of_nat (Suc (j + 16))\<rparr>, m2)"
      "ram m2 = ram (tx_staged (n_queue_size d) (n_tx_mem d) (n_tx_bufs d) (j + 16) ?f m1)" by auto
  have "send_all p hw (?fs @ [?f]) (d, m) = Some (?d\<lparr>n_tx_next_avail := of_nat (Suc (j + 16))\<rparr>, m2)"
    using 1(1) 2(1) unfolding send_all_def foldM_append by simp
  then show ?thesis
    using tx_replaced [OF rs fits(2) 1(2) assms(6)] 2(2) split by metis
qed

theorem frame_replaced_witness:
  "\<exists>d' m'. send_all Dev still_hw (replicate 16 [1] @ [[2]]) (sample_net, \<lparr>ram = \<lambda>_. 0, dev = ()\<rparr>) = Some (d', m')
     \<and> tx_entry 256 0x120000 0 (ram m') = replicate 10 0 @ [2]"
proof -
  have "(replicate 16 [1] @ [[2]]) ! 16 = [2 :: u8]" "(replicate 16 [1] @ [[2]]) ! 0 = [1 :: u8]"
    by (simp_all add: nth_append)
  moreover have "list_all fits (replicate 16 [1])" by (auto simp: list_all_iff fits_len)
  ultimately show ?thesis
    using frame_replaced [OF sample_tx_ready, of "replicate 16 [1] @ [[2]]" Dev 0 "\<lparr>ram = \<lambda>_. 0, dev = ()\<rparr>"]
    by (simp add: sample_net_def fits_len)
qed

text \<open>
  C34. The transmit counter is a bound on the life of a development build: it panics with the 65536th
  frame and not before; a release build wraps and goes on.
\<close>

theorem send_bound:
  assumes "tx_ready hw d" and "n_tx_next_avail d = 0" and "list_all fits frames"
  shows "(send_all Dev hw frames (d, m) = None \<longleftrightarrow> 65535 < length frames) \<and> send_all Release hw frames (d, m) \<noteq> None"
  using send_overflow [OF assms(1,3,2), of m] send_run [OF assms(1,3,2), of Dev m] send_run [OF assms(1,3,2), of Release m]
  by fastforce

theorem send_bound_witness:
  "send_all Dev still_hw (replicate 65536 [1]) (sample_net, \<lparr>ram = \<lambda>_. 0, dev = ()\<rparr>) = None"
proof -
  have "list_all fits (replicate 65536 [1])" by (auto simp: list_all_iff fits_len)
  with send_bound [OF sample_tx_ready _ this, of "\<lparr>ram = \<lambda>_. 0, dev = ()\<rparr>"]
  show ?thesis by (simp add: sample_net_def)
qed

end
