(* ===== verification/NetReceive.thy ===== *)
theory NetReceive
  imports NetRings
begin

text \<open>
  The receive ring of \<^verbatim>\<open>virtio_net.rs\<close>: a run is a list of events, a frame that arrives at the device or
  a poll of the driver, in any order. The ring is a queue of at most sixteen frames: what the polls
  return is what a first-in first-out queue of that capacity returns.
\<close>

declare add_2_eq_Suc [simp del] add_2_eq_Suc' [simp del]

section \<open>The device's side\<close>

text \<open>
  The device takes the next available descriptor, writes header and frame into its buffer and
  publishes a used element; without a descriptor it drops the frame.
\<close>

definition net_deliver :: "usize \<Rightarrow> nat \<Rightarrow> bytes \<Rightarrow> u16 \<times> ram \<Rightarrow> u16 \<times> ram" where
  "net_deliver qs mem frame = (\<lambda>(seen, r).
     if c16 r (mem + 16 * unat qs + 2) = seen then (seen, r)
     else
       let head = unat (c16 r (mem + 16 * unat qs + 4 + 2 * (unat seen mod unat qs)));
           d = desc_at r mem head
       in if d_flags d AND 2 = 0 \<or> d_len d < 10 + length frame then (seen, r)
          else
            let r = mem_write r (d_addr d) (replicate 10 0 @ frame);
                u = mem + spec_used (unat qs);
                idx = c16 r (u + 2);
                slot = unat idx mod unat qs;
                r = mem_write r (u + 4 + 8 * slot) (to_le32 (of_nat head));
                r = mem_write r (u + 8 + 8 * slot) (to_le32 (of_nat (10 + length frame)));
                r = mem_write r (u + 2) (to_le16 (idx + 1))
            in (seen + 1, r))"

datatype rx_event = RxArrive "8 word list" | RxPoll

fun rx_run :: "profile \<Rightarrow> 'd hw \<Rightarrow> rx_event list \<Rightarrow> u16 \<Rightarrow> vnet \<times> 'd machine \<Rightarrow> bytes option list option" where
  "rx_run p hw [] sn s = Some []"
| "rx_run p hw (RxArrive frame # es) sn (d, m) =
     (case net_deliver (n_queue_size d) (n_rx_mem d) frame (sn, ram m) of
        (sn, r) \<Rightarrow> rx_run p hw es sn (d, m\<lparr>ram := r\<rparr>))"
| "rx_run p hw (RxPoll # es) sn s = do {
     (x, s) \<leftarrow> net_try_recv p hw s;
     xs \<leftarrow> rx_run p hw es sn s;
     Some (x # xs)
   }"

text \<open>The abstract specification.\<close>

fun queue_run :: "nat \<Rightarrow> rx_event list \<Rightarrow> bytes list \<Rightarrow> bytes option list" where
  "queue_run n [] q = []"
| "queue_run n (RxArrive frame # es) q = queue_run n es (if length q < n then q @ [frame] else q)"
| "queue_run n (RxPoll # es) q =
     (case q of [] \<Rightarrow> None # queue_run n es [] | f # q \<Rightarrow> Some f # queue_run n es q)"

fun polls :: "rx_event list \<Rightarrow> nat" where
  "polls [] = 0"
| "polls (RxPoll # es) = Suc (polls es)"
| "polls (RxArrive frame # es) = polls es"

fun arrivals :: "rx_event list \<Rightarrow> bytes list" where
  "arrivals [] = []"
| "arrivals (RxPoll # es) = arrivals es"
| "arrivals (RxArrive frame # es) = frame # arrivals es"

section \<open>The invariant\<close>

text \<open>
  \<open>l\<close> frames have been taken and \<open>u\<close> delivered; \<open>fs\<close> are the frames in between. Descriptor \<open>k mod 16\<close>
  serves the \<open>k\<close>-th frame.
\<close>

definition used_frame :: "usize \<Rightarrow> nat \<Rightarrow> nat \<Rightarrow> nat \<Rightarrow> bytes \<Rightarrow> ram \<Rightarrow> bool" where
  "used_frame qs mem bufs k f r \<longleftrightarrow> fits f
     \<and> c32 r (mem + spec_used (unat qs) + 4 + 8 * (k mod unat qs)) = k mod 16
     \<and> c32 r (mem + spec_used (unat qs) + 8 + 8 * (k mod unat qs)) = 10 + length f
     \<and> mem_read r (bufs + k mod 16 * 2048 + 10) (length f) = f"

definition offered :: "usize \<Rightarrow> nat \<Rightarrow> nat \<Rightarrow> nat \<Rightarrow> ram \<Rightarrow> bool" where
  "offered qs mem bufs k r \<longleftrightarrow>
     c16 r (mem + 16 * unat qs + 4 + 2 * (k mod unat qs)) = of_nat (k mod 16)"

definition rx_descs :: "nat \<Rightarrow> nat \<Rightarrow> ram \<Rightarrow> bool" where
  "rx_descs mem bufs r \<longleftrightarrow> (\<forall>i<16. d_addr (desc_at r mem i) = bufs + i * 2048 \<and> d_len (desc_at r mem i) = 2048
     \<and> d_flags (desc_at r mem i) = 2)"

definition rx_holds :: "usize \<Rightarrow> nat \<Rightarrow> nat \<Rightarrow> nat \<Rightarrow> bytes list \<Rightarrow> ram \<Rightarrow> bool" where
  "rx_holds qs mem bufs l fs r \<longleftrightarrow>
     (let u = l + length fs in
      length fs \<le> 16
      \<and> c16 r (mem + 16 * unat qs + 2) = of_nat (l + 16)
      \<and> c16 r (mem + spec_used (unat qs) + 2) = of_nat u
      \<and> (\<forall>k. u \<le> k \<and> k < l + 16 \<longrightarrow> offered qs mem bufs k r)
      \<and> rx_descs mem bufs r
      \<and> (\<forall>i<length fs. used_frame qs mem bufs (l + i) (fs ! i) r))"

section \<open>A frame arrives\<close>

definition delivered_ram :: "usize \<Rightarrow> nat \<Rightarrow> nat \<Rightarrow> nat \<Rightarrow> bytes \<Rightarrow> ram \<Rightarrow> ram" where
  "delivered_ram qs mem bufs u frame r =
     (let q = mem + spec_used (unat qs); slot = u mod unat qs;
          r = mem_write r (bufs + u mod 16 * 2048) (replicate 10 0 @ frame);
          r = mem_write r (q + 4 + 8 * slot) (to_le32 (of_nat (u mod 16)));
          r = mem_write r (q + 8 + 8 * slot) (to_le32 (of_nat (10 + length frame)))
      in mem_write r (q + 2) (to_le16 (of_nat (Suc u))))"

lemma delivered_outside:
  assumes "fits frame" and "apart a n (bufs + u mod 16 * 2048) 2048"
    and "apart a n (mem + spec_used (unat qs) + 4 + 8 * (u mod unat qs)) 8"
    and "apart a n (mem + spec_used (unat qs) + 2) 2"
  shows "mem_read (delivered_ram qs mem bufs u frame r) a n = mem_read r a n"
proof -
  have "mem_read (mem_write r (bufs + u mod 16 * 2048) (replicate 10 0 @ frame)) a n = mem_read r a n"
    using assms(1,2) by (auto simp: apart_def fits_len mem_read_write_disjoint)
  with assms(3,4) show ?thesis
    by (auto simp: delivered_ram_def Let_def apart_def mem_read_write_disjoint)
qed

lemma delivered_here:
  assumes "ring_size qs" and "ring_area qs mem bufs" and "fits frame"
  shows "used_frame qs mem bufs u frame (delivered_ram qs mem bufs u frame r)"
    and "c16 (delivered_ram qs mem bufs u frame r) (mem + spec_used (unat qs) + 2) = of_nat (Suc u)"
proof -
  let ?r = "delivered_ram qs mem bufs u frame r"
  let ?q = "mem + spec_used (unat qs)" and ?s = "u mod unat qs" and ?b = "bufs + u mod 16 * 2048"
  have s: "?s < unat qs" using assms(1) by (intro mod_less_divisor) (simp add: ring_size_def)
  have len: "length frame \<le> 2038" "unat (of_nat (10 + length frame) :: u32) = 10 + length frame"
    "unat (of_nat (u mod 16) :: u32) = u mod 16"
    using assms(3) by (simp_all add: fits_len unat_word_ariths unat_of_nat)
  note far = buf_area(3) [OF assms(2), of u, unfolded apart_def] net_cells(6,7) [OF assms(1)]
  show "c16 ?r (?q + 2) = of_nat (Suc u)" by (simp add: delivered_ram_def Let_def c_same)
  have "mem_read (mem_write r ?b (replicate 10 0 @ frame)) (?b + 10) (length frame) = frame"
    by (simp add: mem_simps bslice_def)
  moreover have "mem_read ?r (?b + 10) (length frame)
      = mem_read (mem_write r ?b (replicate 10 0 @ frame)) (?b + 10) (length frame)"
    using far s len(1) by (auto simp: delivered_ram_def Let_def mem_read_write_disjoint)
  moreover have "c32 ?r (?q + 4 + 8 * ?s) = u mod 16"
    using len(3) by (simp add: delivered_ram_def Let_def c_same c_other)
  moreover have "c32 ?r (?q + 8 + 8 * ?s) = 10 + length frame"
    using len(2) by (simp add: delivered_ram_def Let_def c_same c_other)
  ultimately show "used_frame qs mem bufs u frame ?r" using assms(3) by (simp add: used_frame_def)
qed

text \<open>The three parts of the ring, as areas: everything below the used ring, and its slots.\<close>

lemma low_apart:
  assumes "ring_size qs" and "x + n \<le> spec_used (unat qs)"
  shows "apart (mem + x) n (mem + spec_used (unat qs) + 4 + 8 * (u mod unat qs)) 8"
    and "apart (mem + x) n (mem + spec_used (unat qs) + 2) 2"
  using assms(2) by (simp_all add: apart_def)

lemma delivered_low:
  assumes "ring_size qs" and "ring_area qs mem bufs" and "fits frame" and "x + n \<le> spec_used (unat qs)"
  shows "mem_read (delivered_ram qs mem bufs u frame r) (mem + x) n = mem_read r (mem + x) n"
proof (rule delivered_outside [OF assms(3)])
  have "x + n \<le> unat (net_queue_mem_size qs)" using assms(4) net_cells(7) [OF assms(1)] by linarith
  then show "apart (mem + x) n (bufs + u mod 16 * 2048) 2048" by (rule apart_part [OF buf_area(3) [OF assms(2)]])
qed (rule low_apart [OF assms(1,4)])+

lemma slot_below: "ring_size qs \<Longrightarrow> k mod unat qs < unat qs"
  by (intro mod_less_divisor) (simp add: ring_size_def)

lemma offered_low:
  assumes "ring_size qs" and "\<And>x n. x + n \<le> spec_used (unat qs) \<Longrightarrow> mem_read r' (mem + x) n = mem_read r (mem + x) n"
  shows "offered qs mem bufs k r' = offered qs mem bufs k r"
    and "rx_descs mem bufs r' = rx_descs mem bufs r"
    and "c16 r' (mem + 16 * unat qs + 2) = c16 r (mem + 16 * unat qs + 2)"
proof -
  note lim = net_cells(6) [OF assms(1)] slot_below [OF assms(1), of k]
  show "offered qs mem bufs k r' = offered qs mem bufs k r"
    using assms(2) [of "16 * unat qs + 4 + 2 * (k mod unat qs)" 2] lim by (simp add: offered_def c16_def add.assoc)
  show "c16 r' (mem + 16 * unat qs + 2) = c16 r (mem + 16 * unat qs + 2)"
    using assms(2) [of "16 * unat qs + 2" 2] lim by (simp add: c16_def add.assoc)
  have "desc_at r' mem i = desc_at r mem i" if "i < 16" for i
  proof (rule desc_at_read_cong)
    have "16 \<le> unat qs" using assms(1) by (simp add: ring_size_def)
    with that lim show "mem_read r' (mem + 16 * i) 16 = mem_read r (mem + 16 * i) 16" by (intro assms(2)) linarith
  qed
  then show "rx_descs mem bufs r' = rx_descs mem bufs r" by (simp add: rx_descs_def)
qed

lemma delivered_used:
  assumes "ring_size qs" and "ring_area qs mem bufs" and "fits frame" and "k < u" "u < k + 16"
  shows "used_frame qs mem bufs k f (delivered_ram qs mem bufs u frame r) = used_frame qs mem bufs k f r"
proof (cases "fits f")
  case True
  let ?r = "delivered_ram qs mem bufs u frame r"
  let ?q = "mem + spec_used (unat qs)" and ?t = "k mod unat qs"
  have near: "u < k + unat qs" using assms(1,5) by (simp add: ring_size_def)
  have ne: "?t \<noteq> u mod unat qs" "k mod 16 \<noteq> u mod 16"
    using slots_apart [OF assms(4) near] slots_apart [OF assms(4,5)] by simp_all
  note out = delivered_outside [OF assms(3), of _ _ bufs u mem qs r]
  note lim = net_cells(6,7) [OF assms(1)] slot_below [OF assms(1), of k] slot_below [OF assms(1), of u]
  have rng: "spec_used (unat qs) + 4 + 8 * ?t + 8 \<le> unat (net_queue_mem_size qs)"
    using lim by linarith
  have "mem_read ?r (mem + (spec_used (unat qs) + 4 + 8 * ?t)) 8 = mem_read r (mem + (spec_used (unat qs) + 4 + 8 * ?t)) 8"
    using ne(1) by (intro out apart_part [OF buf_area(3) [OF assms(2)] rng]) (auto simp: apart_def)
  from arg_cong [OF this, of "bslice 0 4"] arg_cong [OF this, of "bslice 4 4"]
  have "c32 ?r (?q + 4 + 8 * ?t) = c32 r (?q + 4 + 8 * ?t)" "c32 ?r (?q + 8 + 8 * ?t) = c32 r (?q + 8 + 8 * ?t)"
    by (simp_all add: c32_def mem_read_bslice add.assoc add.commute add.left_commute)
  moreover have "mem_read ?r (bufs + k mod 16 * 2048 + 10) (length f) = mem_read r (bufs + k mod 16 * 2048 + 10) (length f)"
    using ne(2) True lim buf_area(3) [OF assms(2), of k]
    by (intro out) (auto simp: apart_def fits_len)
  ultimately show ?thesis by (simp add: used_frame_def)
qed (simp add: used_frame_def)

lemma deliver_full:
  assumes "ring_size qs" and "rx_holds qs mem bufs l fs r" and "length fs = 16"
  shows "net_deliver qs mem frame (of_nat (l + length fs), r) = (of_nat (l + length fs), r)"
  using assms by (simp add: net_deliver_def rx_holds_def Let_def)

lemma deliver_step:
  assumes "ring_size qs" and "ring_area qs mem bufs" and "fits frame" and "rx_holds qs mem bufs l fs r"
    and "length fs < 16"
  defines "u \<equiv> l + length fs"
  shows "net_deliver qs mem frame (of_nat u, r) = (of_nat (Suc u), delivered_ram qs mem bufs u frame r)"
    and "rx_holds qs mem bufs l (fs @ [frame]) (delivered_ram qs mem bufs u frame r)"
proof -
  have h: "c16 r (mem + 16 * unat qs + 2) = of_nat (l + 16)" "c16 r (mem + spec_used (unat qs) + 2) = of_nat u"
    "\<And>k. u \<le> k \<Longrightarrow> k < l + 16 \<Longrightarrow> offered qs mem bufs k r" "rx_descs mem bufs r"
    "\<And>i. i < length fs \<Longrightarrow> used_frame qs mem bufs (l + i) (fs ! i) r"
    using assms(4) by (auto simp: rx_holds_def Let_def u_def)
  have ne: "(of_nat (l + 16) :: u16) \<noteq> of_nat u" using index_eq [of u "l + 16"] assms(5) by (simp add: u_def eq_commute)
  have head: "unat (c16 r (mem + 16 * unat qs + 4 + 2 * (u mod unat qs))) = u mod 16"
    using h(3) [of u] assms(5) by (simp add: offered_def u_def unat_of_nat)
  have d: "d_addr (desc_at r mem (u mod 16)) = bufs + u mod 16 * 2048" "d_len (desc_at r mem (u mod 16)) = 2048"
    "d_flags (desc_at r mem (u mod 16)) = 2" using h(4) by (simp_all add: rx_descs_def)
  have slot: "unat (of_nat u :: u16) mod unat qs = u mod unat qs"
    using assms(1) by (intro index_slot) (simp add: ring_size_def)
  have suc: "of_nat (Suc u) = (of_nat u + 1 :: u16)" by simp
  have used: "c16 (mem_write r (bufs + u mod 16 * 2048) (replicate 10 0 @ frame)) (mem + spec_used (unat qs) + 2) = of_nat u"
    using buf_area(3) [OF assms(2), of u] net_cells(7) [OF assms(1)] assms(3) h(2)
    by (auto simp: apart_def fits_len c_other)
  show "net_deliver qs mem frame (of_nat u, r) = (of_nat (Suc u), delivered_ram qs mem bufs u frame r)"
    using assms(3) ne suc
    by (simp add: net_deliver_def delivered_ram_def h(1) slot head d used Let_def fits_len del: of_nat_Suc of_nat_add)
  note low = delivered_low [OF assms(1-3), where u = u and r = r]
  note keep = offered_low [OF assms(1) low]
  have "used_frame qs mem bufs (l + i) ((fs @ [frame]) ! i) (delivered_ram qs mem bufs u frame r)" if "i < Suc (length fs)" for i
    using that h(5) [of i] delivered_here(1) [OF assms(1-3), of u r] assms(5)
      delivered_used [OF assms(1-3), of "l + i" u]
    by (cases "i = length fs") (simp_all add: nth_append u_def)
  then show "rx_holds qs mem bufs l (fs @ [frame]) (delivered_ram qs mem bufs u frame r)"
    using h assms(5) delivered_here(2) [OF assms(1-3), of u r]
    by (simp add: rx_holds_def keep) (simp add: u_def)
qed

section \<open>The driver polls\<close>

definition rx_ready :: "'d hw \<Rightarrow> vnet \<Rightarrow> nat \<Rightarrow> bool" where
  "rx_ready hw d l \<longleftrightarrow> net_quiet hw (n_io_base d) \<and> ring_size (n_queue_size d)
     \<and> ring_area (n_queue_size d) (n_rx_mem d) (n_rx_bufs d)
     \<and> n_rx_last_used d = of_nat l \<and> n_rx_next_avail d = of_nat (l + 16)"

definition in_ring :: "vnet \<Rightarrow> nat \<Rightarrow> bytes list \<Rightarrow> ram \<Rightarrow> bool" where
  "in_ring d = rx_holds (n_queue_size d) (n_rx_mem d) (n_rx_bufs d)"

lemma quiet_sync: "net_quiet hw io \<Longrightarrow> ram (sync hw m) = ram m"
  by (simp add: net_quiet_def)

lemma poll_empty:
  assumes "rx_ready hw d l" and "in_ring d l [] (ram m)"
  shows "net_try_recv p hw (d, m) = Some (None, d, sync hw m)"
proof -
  have q: "net_quiet hw (n_io_base d)" "ring_size (n_queue_size d)" using assms(1) by (simp_all add: rx_ready_def)
  show ?thesis
    using assms(2) assms(1)
    by (simp add: net_try_recv_def net_cells(3) [OF q(2)] rd16_def quiet_sync [OF q(1)] in_ring_def rx_holds_def c16_def
        rx_ready_def)
qed

text \<open>Giving back the buffer writes one slot of the available ring and its index.\<close>

definition given_back :: "usize \<Rightarrow> nat \<Rightarrow> nat \<Rightarrow> ram \<Rightarrow> ram" where
  "given_back qs mem l r =
     mem_write (mem_write r (mem + 16 * unat qs + 4 + 2 * ((l + 16) mod unat qs)) (to_le16 (of_nat (l mod 16))))
       (mem + 16 * unat qs + 2) (to_le16 (of_nat (Suc (l + 16))))"

lemma given_back_outside:
  assumes "apart a n (mem + 16 * unat qs + 4 + 2 * ((l + 16) mod unat qs)) 2" and "apart a n (mem + 16 * unat qs + 2) 2"
  shows "mem_read (given_back qs mem l r) a n = mem_read r a n"
  using assms by (simp add: given_back_def mem_read_apart)

lemma given_back_holds:
  assumes "ring_size qs" and "ring_area qs mem bufs" and "rx_holds qs mem bufs l (f # fs) r"
  shows "rx_holds qs mem bufs (Suc l) fs (given_back qs mem l r)"
proof -
  let ?r = "given_back qs mem l r"
  let ?a = "mem + 16 * unat qs + 4"
  note cells = net_cells(6,7) [OF assms(1)]
  note out = given_back_outside [of _ _ mem qs l r]
  have s: "(l + 16) mod unat qs < unat qs" by (rule slot_below [OF assms(1)])
  have q: "16 \<le> unat qs" using assms(1) by (simp add: ring_size_def)
  have u: "c16 r (mem + spec_used (unat qs) + 2) = of_nat (l + Suc (length fs))"
    and off: "\<And>k. l + Suc (length fs) \<le> k \<Longrightarrow> k < l + 16 \<Longrightarrow> offered qs mem bufs k r" and ds: "rx_descs mem bufs r"
    and us: "\<And>i. i < Suc (length fs) \<Longrightarrow> used_frame qs mem bufs (l + i) ((f # fs) ! i) r" and len: "length fs < 16"
    using assms(3) by (auto simp: rx_holds_def Let_def)
  have high: "mem_read ?r (mem + x) n = mem_read r (mem + x) n" if "spec_used (unat qs) \<le> x" for x n
    using that cells s by (intro out) (auto simp: apart_def)
  have buf: "mem_read ?r (bufs + k mod 16 * 2048 + 10) n = mem_read r (bufs + k mod 16 * 2048 + 10) n" if "n \<le> 2038" for k n
    using that cells s buf_area(3) [OF assms(2), of k] by (intro out) (auto simp: apart_def)
  have idx: "c16 ?r (mem + 16 * unat qs + 2) = of_nat (Suc l + 16)" by (simp add: given_back_def c_same)
  have new: "offered qs mem bufs (l + 16) ?r" by (simp add: offered_def given_back_def c_same c_other)
  have old: "offered qs mem bufs k ?r" if "l + Suc (length fs) \<le> k" "k < l + 16" for k
  proof -
    have "k mod unat qs \<noteq> (l + 16) mod unat qs" using that q by (intro slots_apart) simp_all
    then show ?thesis using off [OF that]
      by (cases "k mod unat qs" "(l + 16) mod unat qs" rule: linorder_cases)
         (simp_all add: offered_def given_back_def c_other)
  qed
  have "desc_at ?r mem i = desc_at r mem i" if "i < 16" for i
    using that q s by (intro desc_at_read_cong out) (auto simp: apart_def)
  then have descs: "rx_descs mem bufs ?r" using ds by (simp add: rx_descs_def)
  have used: "used_frame qs mem bufs k g ?r = used_frame qs mem bufs k g r" for k g
    using high [of "spec_used (unat qs) + 4 + 8 * (k mod unat qs)" 4] high [of "spec_used (unat qs) + 8 + 8 * (k mod unat qs)" 4]
      buf [of "length g" k]
    by (auto simp: used_frame_def c32_def fits_len add.assoc)
  have "c16 ?r (mem + spec_used (unat qs) + 2) = of_nat (Suc l + length fs)"
    using high [of "spec_used (unat qs) + 2" 2] u by (simp add: c16_def add.assoc)
  moreover have "offered qs mem bufs k ?r" if "Suc l + length fs \<le> k" "k < Suc l + 16" for k
    using that old [of k] new by (cases "k = l + 16") simp_all
  moreover have "used_frame qs mem bufs (Suc l + i) (fs ! i) ?r" if "i < length fs" for i
    using that us [of "Suc i"] by (simp add: used)
  ultimately show ?thesis using idx descs len by (simp add: rx_holds_def Let_def)
qed

lemma index_moved: "0 < n \<Longrightarrow> n < 65536 \<Longrightarrow> (of_nat (l + n) :: u16) \<noteq> of_nat l"
proof
  assume a: "0 < n" "n < 65536" "(of_nat (l + n) :: u16) = of_nat l"
  with index_eq [of l "l + n"] show False by (metis le_add1 add_cancel_right_right nat_add_left_cancel_less less_irrefl)
qed

lemma poll_step:
  assumes "rx_ready hw d l" and "in_ring d l (f # fs) (ram m)" and "p = Release \<or> l + 16 < 65535"
  shows "\<exists>d' m'. net_try_recv p hw (d, m) = Some (Some f, d', m') \<and> rx_ready hw d' (Suc l)
    \<and> in_ring d' (Suc l) fs (ram m')"
proof -
  let ?qs = "n_queue_size d" and ?mem = "n_rx_mem d" and ?bufs = "n_rx_bufs d"
  have q: "net_quiet hw (n_io_base d)" "ring_size ?qs" "ring_area ?qs ?mem ?bufs"
    "n_rx_last_used d = of_nat l" "n_rx_next_avail d = of_nat (l + 16)"
    using assms(1) by (simp_all add: rx_ready_def)
  have h: "rx_holds ?qs ?mem ?bufs l (f # fs) (ram m)" using assms(2) by (simp add: in_ring_def)
  then have u: "c16 (ram m) (?mem + spec_used (unat ?qs) + 2) = of_nat (l + Suc (length fs))"
    and f: "used_frame ?qs ?mem ?bufs l f (ram m)" and len: "length fs < 16"
    by (auto simp: rx_holds_def Let_def dest: spec [of _ 0])
  have ne: "(of_nat (l + Suc (length fs)) :: u16) \<noteq> of_nat l"
    by (rule index_moved) (use len in simp_all)
  have ovf: "add_ovf p (of_nat l :: u16) 1 = Some (of_nat (Suc l))"
    "add_ovf p (of_nat (l + 16) :: u16) 1 = Some (of_nat (Suc (l + 16)))"
    by (rule count_up_ovf, use assms(3) in linarith)+
  let ?m = "wr16 (?mem + 16 * unat ?qs + 2) (of_nat (Suc (l + 16)))
    (wr16 (?mem + 16 * unat ?qs + 4 + 2 * ((l + 16) mod unat ?qs)) (of_nat (l mod 16)) (sync hw m))"
  have r: "ram ?m = given_back ?qs ?mem l (ram m)" by (simp add: given_back_def quiet_sync [OF q(1)])
  obtain m' where n: "outw_at p hw (n_io_base d) NET_REG_QUEUE_NOTIFY NET_QUEUE_RX ?m = Some m'" "ram m' = ram ?m"
    using notify_ok [OF q(1)] by blast
  let ?d = "d\<lparr>n_rx_last_used := of_nat (Suc l), n_rx_next_avail := of_nat (Suc (l + 16))\<rparr>"
  have id: "c32 (ram m) (?mem + spec_used (unat ?qs) + 4 + 8 * (l mod unat ?qs)) = l mod 16"
    using f by (simp add: used_frame_def)
  note id16 = arg_cong [OF this, of "of_nat :: nat \<Rightarrow> u16", unfolded c32_def of_nat_unat]
  have "net_try_recv p hw (d, m) = Some (Some f, ?d, m')"
    using u f ne n(1) id16
    by (simp add: net_try_recv_def q(4,5) net_cells [OF q(2)] ring_slot_count [OF q(2)] ovf rd16_def rd32_def quiet_sync [OF q(1)] Let_def
        used_frame_def c16_def c32_def net_sizes del: of_nat_Suc of_nat_add)
  moreover have "rx_ready hw ?d (Suc l)" using q by (simp add: rx_ready_def)
  moreover have "in_ring ?d (Suc l) fs (ram m')"
    using given_back_holds [OF q(2,3) h] unfolding in_ring_def n(2) r by simp
  ultimately show ?thesis by blast
qed

section \<open>Runs\<close>

lemma run_is_queue:
  assumes "rx_ready hw d l" and "in_ring d l fs (ram m)" and "list_all fits (arrivals es)"
    and "p = Release \<or> l + polls es \<le> 65519"
  shows "rx_run p hw es (of_nat (l + length fs)) (d, m) = Some (queue_run 16 es fs)"
  using assms
proof (induction es arbitrary: d m l fs)
  case (Cons e es)
  have rs: "ring_size (n_queue_size d)" "ring_area (n_queue_size d) (n_rx_mem d) (n_rx_bufs d)"
    using Cons.prems(1) by (simp_all add: rx_ready_def)
  show ?case
  proof (cases e)
    case (RxArrive f)
    show ?thesis
    proof (cases "length fs < 16")
      case True
      have "fits f" using Cons.prems(3) RxArrive by simp
      note step = deliver_step [OF rs this Cons.prems(2) [unfolded in_ring_def] True]
      have "rx_run p hw es (of_nat (l + length (fs @ [f])))
          (d, m\<lparr>ram := delivered_ram (n_queue_size d) (n_rx_mem d) (n_rx_bufs d) (l + length fs) f (ram m)\<rparr>)
        = Some (queue_run 16 es (fs @ [f]))"
        using step(2) Cons.prems(1,3,4) RxArrive by (intro Cons.IH) (simp_all add: in_ring_def)
      then show ?thesis using step(1) True RxArrive by simp
    next
      case False
      moreover have "length fs \<le> 16" using Cons.prems(2) by (simp add: in_ring_def rx_holds_def Let_def)
      ultimately have "length fs = 16" by simp
      with deliver_full [OF rs(1) Cons.prems(2) [unfolded in_ring_def], of f] Cons.IH [OF Cons.prems(1,2)] Cons.prems(3,4)
      show ?thesis using RxArrive by simp
    qed
  next
    case RxPoll
    show ?thesis
    proof (cases fs)
      case Nil
      have "net_quiet hw (n_io_base d)" using Cons.prems(1) by (simp add: rx_ready_def)
      then have "in_ring d l [] (ram (sync hw m))" using Cons.prems(2) Nil by (simp add: quiet_sync)
      from Cons.IH [OF Cons.prems(1) this] Cons.prems(3,4) poll_empty [OF Cons.prems(1), of m p] Cons.prems(2)
      show ?thesis using RxPoll Nil by auto
    next
      case (Cons f rest)
      from poll_step [OF Cons.prems(1), of f rest m p] Cons.prems(2,4) RxPoll Cons
      obtain d' m' where s: "net_try_recv p hw (d, m) = Some (Some f, d', m')" "rx_ready hw d' (Suc l)"
        "in_ring d' (Suc l) rest (ram m')" by auto
      from Cons.IH [OF s(2,3)] Cons.prems(3,4) RxPoll Cons s(1) show ?thesis by auto
    qed
  qed
qed simp

end
