(* ===== verification/NetInit.thy ===== *)
theory NetInit
  imports NetReceive
begin

text \<open>
  Initialisation of \<^verbatim>\<open>virtio_net.rs\<close> over the legacy transport, up to the invariants of both rings, and
  the properties of the receive ring.
\<close>

section \<open>The receive ring is laid out\<close>

lemma net_post_outside:
  assumes "apart a n (mem + 16 * i) 16" and "apart a n (avail_ring_ptr mem qs i) 2"
  shows "mem_read (ram (net_post mem qs bufs i m)) a n = mem_read (ram m) a n"
  using assms by (simp add: net_post_def apart_def mem_read_write_disjoint net_desc_outside)

definition posted :: "usize \<Rightarrow> nat \<Rightarrow> nat \<Rightarrow> nat \<Rightarrow> ram \<Rightarrow> bool" where
  "posted qs mem bufs i r \<longleftrightarrow> c16 r (mem + 16 * unat qs + 4 + 2 * i) = of_nat i
     \<and> d_addr (desc_at r mem i) = bufs + i * 2048 \<and> d_len (desc_at r mem i) = 2048 \<and> d_flags (desc_at r mem i) = 2"

lemma posted_cong:
  assumes "mem_read r (mem + (16 * unat qs + 4 + 2 * i)) 2 = mem_read r' (mem + (16 * unat qs + 4 + 2 * i)) 2"
    and "mem_read r (mem + 16 * i) 16 = mem_read r' (mem + 16 * i) 16"
  shows "posted qs mem bufs i r = posted qs mem bufs i r'"
  using assms desc_at_read_cong [OF assms(2)] by (simp add: posted_def c16_def add.assoc)

lemma post_here:
  assumes "ring_size qs" and "ring_area qs mem bufs" and "i < 16"
  shows "posted qs mem bufs i (ram (net_post mem qs bufs i m))"
proof -
  have ad: "unat (of_nat (bufs + i * 2048) :: u64) = bufs + i * 2048"
    using assms(2,3) unfolding unat_of_nat by (simp add: ring_area_def)
  have q: "16 \<le> unat qs" using assms(1) by (simp add: ring_size_def)
  let ?m = "net_desc_write mem qs i (of_nat (bufs + i * 2048)) 2048 0x2 m"
  have "desc_at (ram (net_post mem qs bufs i m)) mem i = desc_at (ram ?m) mem i"
    using assms(3) q
    by (intro desc_at_read_cong) (simp add: net_post_def net_cells(2) [OF assms(1)] mem_read_write_disjoint net_sizes)
  then show ?thesis
    using ad by (simp add: posted_def net_desc_here net_post_def net_cells(2) [OF assms(1)] c_same net_sizes)
qed

lemma post_other:
  assumes "ring_size qs" and "i < 16" "j < 16" "i \<noteq> j"
  shows "posted qs mem bufs j (ram (net_post mem qs bufs i m)) = posted qs mem bufs j (ram m)"
proof -
  have q: "16 \<le> unat qs" using assms(1) by (simp add: ring_size_def)
  show ?thesis
    using assms(2-4) q
    by (intro posted_cong net_post_outside) (auto simp: apart_def net_cells(2) [OF assms(1)])
qed

lemma net_posted:
  assumes "ring_size qs" and "ring_area qs mem bufs" and "j \<le> 16"
  shows "(\<forall>i<j. posted qs mem bufs i (ram (fold (net_post mem qs bufs) [0..<j] m)))
    \<and> (\<forall>a n. 16 * unat qs + 4 + 2 * j \<le> a \<longrightarrow> mem_read (ram (fold (net_post mem qs bufs) [0..<j] m)) (mem + a) n
          = mem_read (ram m) (mem + a) n)
    \<and> dev (fold (net_post mem qs bufs) [0..<j] m) = dev m"
  using assms(3)
proof (induction j)
  case (Suc j)
  let ?m = "fold (net_post mem qs bufs) [0..<j] m"
  have q: "16 \<le> unat qs" using assms(1) by (simp add: ring_size_def)
  have "mem_read (ram (net_post mem qs bufs j ?m)) (mem + a) n = mem_read (ram ?m) (mem + a) n"
    if "16 * unat qs + 4 + 2 * Suc j \<le> a" for a n
    using that q Suc.prems by (intro net_post_outside) (simp_all add: apart_def net_cells(2) [OF assms(1)])
  moreover have "dev (net_post mem qs bufs j ?m) = dev ?m" by (simp add: net_post_def net_desc_write_def Let_def)
  moreover have "posted qs mem bufs i (ram (net_post mem qs bufs j ?m))" if "i < Suc j" for i
    using that Suc post_here [OF assms(1,2), of j ?m] post_other [OF assms(1), of j i mem bufs ?m]
    by (cases "i = j") simp_all
  ultimately show ?case using Suc by simp
qed simp

lemma ring_starts:
  assumes "ring_size qs" and "\<forall>i<16. posted qs mem bufs i r"
    and "c16 r (mem + 16 * unat qs + 2) = 16" and "c16 r (mem + spec_used (unat qs) + 2) = 0"
  shows "rx_holds qs mem bufs 0 [] r"
proof -
  have "16 \<le> unat qs" using assms(1) by (simp add: ring_size_def)
  then show ?thesis using assms(2-4) by (simp add: rx_holds_def offered_def rx_descs_def posted_def)
qed

text \<open>What the allocator must return: areas without a common byte, and queues the device can address.\<close>

definition net_alloc_ok :: "usize \<Rightarrow> net_alloc \<Rightarrow> bool" where
  "net_alloc_ok qs al \<longleftrightarrow>
     (let n = unat (net_queue_mem_size qs) in
      na_rx_mem al \<noteq> 0 \<and> na_rx_bufs al \<noteq> 0 \<and> na_tx_mem al \<noteq> 0 \<and> na_tx_bufs al \<noteq> 0
      \<and> ring_area qs (na_rx_mem al) (na_rx_bufs al) \<and> ring_area qs (na_tx_mem al) (na_tx_bufs al)
      \<and> apart (na_rx_mem al) n (na_tx_mem al) n \<and> apart (na_rx_mem al) n (na_tx_bufs al) 32768
      \<and> 4096 dvd na_rx_mem al \<and> na_rx_mem al < 2 ^ 32 \<and> 4096 dvd na_tx_mem al \<and> na_tx_mem al < 2 ^ 32)"

text \<open>Memory before the queue is handed over, as \<open>init\<close> writes it.\<close>

definition rx_laid_out :: "usize \<Rightarrow> net_alloc \<Rightarrow> 'd machine \<Rightarrow> 'd machine" where
  "rx_laid_out qs al m =
     (let m = alloc_zeroed (na_rx_mem al) (unat (net_queue_mem_size qs)) m;
          m = alloc_zeroed (na_rx_bufs al) (QUEUE_BUFS * NET_BUF_SIZE) m;
          m = fold (net_post (na_rx_mem al) qs (na_rx_bufs al)) [0..<QUEUE_BUFS] m
      in wr16 (avail_idx_ptr (na_rx_mem al) qs) (of_nat QUEUE_BUFS) m)"

lemma laid_out_ring:
  assumes "ring_size qs" and "net_alloc_ok qs al"
  shows "rx_holds qs (na_rx_mem al) (na_rx_bufs al) 0 [] (ram (rx_laid_out qs al m))"
    and "dev (rx_laid_out qs al m) = dev m"
proof -
  let ?mem = "na_rx_mem al" and ?bufs = "na_rx_bufs al" and ?n = "unat (net_queue_mem_size qs)"
  let ?m1 = "alloc_zeroed ?bufs 32768 (alloc_zeroed ?mem ?n m)"
  let ?m2 = "fold (net_post ?mem qs ?bufs) [0..<16] ?m1"
  have al: "?mem \<noteq> 0" "?bufs \<noteq> 0" "ring_area qs ?mem ?bufs" using assms(2) by (simp_all add: net_alloc_ok_def Let_def)
  have q: "16 \<le> unat qs" using assms(1) by (simp add: ring_size_def)
  note cells = net_cells(6,7) [OF assms(1)]
  have m: "rx_laid_out qs al m = wr16 (?mem + 16 * unat qs + 2) 16 ?m2"
    by (simp add: rx_laid_out_def Let_def net_sizes net_cells(1) [OF assms(1)])
  note p = net_posted [OF assms(1) al(3), of 16 ?m1, simplified]
  have "mem_read (ram ?m1) ?mem ?n = replicate ?n 0"
    using al by (simp add: ram_alloc mem_read_write_disjoint mem_read_write_same ring_area_def apart_def)
  from zero_used [OF this, of "spec_used (unat qs) + 2"] cells
  have "c16 (ram ?m1) (?mem + (spec_used (unat qs) + 2)) = 0" by (simp add: c16_def)
  moreover have "mem_read (ram ?m2) (?mem + (spec_used (unat qs) + 2)) 2 = mem_read (ram ?m1) (?mem + (spec_used (unat qs) + 2)) 2"
    using p cells q by (intro conjunct1 [OF conjunct2 [OF p], rule_format]) linarith
  ultimately have "c16 (ram ?m2) (?mem + spec_used (unat qs) + 2) = 0" by (simp add: c16_def add.assoc)
  then have used: "c16 (ram (rx_laid_out qs al m)) (?mem + spec_used (unat qs) + 2) = 0"
    using cells q by (simp add: m c_other)
  have "posted qs ?mem ?bufs i (ram (rx_laid_out qs al m)) = posted qs ?mem ?bufs i (ram ?m2)" if "i < 16" for i
    unfolding m using that q by (intro posted_cong) (simp_all add: mem_read_write_disjoint)
  with p used show "rx_holds qs ?mem ?bufs 0 [] (ram (rx_laid_out qs al m))"
    by (intro ring_starts [OF assms(1)]) (simp_all add: m c_same)
  show "dev (rx_laid_out qs al m) = dev m" using p by (simp add: m)
qed

lemma ring_start_keep:
  assumes "ring_size qs" and "rx_holds qs mem bufs 0 [] r"
    and same: "\<And>x n. x + n \<le> unat (net_queue_mem_size qs) \<Longrightarrow> mem_read r' (mem + x) n = mem_read r (mem + x) n"
  shows "rx_holds qs mem bufs 0 [] r'"
proof -
  note cells = net_cells(6,7) [OF assms(1)]
  have low: "mem_read r' (mem + x) n = mem_read r (mem + x) n" if "x + n \<le> spec_used (unat qs)" for x n
    using that cells by (intro same) linarith
  have "mem_read r' (mem + (spec_used (unat qs) + 2)) 2 = mem_read r (mem + (spec_used (unat qs) + 2)) 2"
    using cells assms(1) by (intro same) (simp add: ring_size_def)
  with assms(2) offered_low [OF assms(1) low] show ?thesis by (simp add: rx_holds_def c16_def add.assoc)
qed

text \<open>The transmit areas as allocated.\<close>

definition tx_zeroed :: "usize \<Rightarrow> net_alloc \<Rightarrow> 'd machine \<Rightarrow> 'd machine" where
  "tx_zeroed qs al m = alloc_zeroed (na_tx_bufs al) (QUEUE_BUFS * NET_BUF_SIZE)
     (alloc_zeroed (na_tx_mem al) (unat (net_queue_mem_size qs)) m)"

section \<open>The driver comes up\<close>

context legacy_device
begin

lemma mac_bytes:
  assumes "ok m" and "\<forall>i\<in>set is. i < 6"
  shows "\<exists>m'. read_mac p hw io is m = Some (map mac is, m') \<and> ok m' \<and> ram m' = ram m \<and> regs (dev m') = regs (dev m)"
  using assms
proof (induction "is" arbitrary: m)
  case (Cons i js)
  have i: "i < 6" using Cons.prems(2) by simp
  have u: "unat (io + 0x14) = unat io + 0x14" using add_ovf_exact(2) [of io "0x14"] io_room by simp
  have o1: "add_ovf p io REG_MAC_BASE = Some (io + 0x14)" using at_reg [of "0x14"] by (simp add: REG_MAC_BASE_def)
  have "unat (of_nat i :: u16) = i" using i by (simp add: unat_of_nat)
  then have o2: "add_ovf p (io + 0x14) (of_nat i) = Some (io + 0x14 + of_nat i)"
    using add_ovf_exact(1) [of "io + 0x14" "of_nat i" p] u i io_room by simp
  have "\<forall>i<6. let (v, m') = inb hw (io + 0x14 + of_nat i) m in v = mac i \<and> ok m' \<and> ram m' = ram m
      \<and> regs (dev m') = regs (dev m)"
    using conforming Cons.prems(1) by (simp add: legacy_conforming_def)
  from this [rule_format, OF i] obtain m1 where 1: "inb hw (io + 0x14 + of_nat i) m = (mac i, m1)" "ok m1"
    "ram m1 = ram m" "regs (dev m1) = regs (dev m)"
    by (cases "inb hw (io + 0x14 + of_nat i) m") simp
  from Cons.IH [OF 1(2)] Cons.prems(2) 1(3,4) obtain m2 where
    "read_mac p hw io js m1 = Some (map mac js, m2)" "ok m2" "ram m2 = ram m" "regs (dev m2) = regs (dev m)" by auto
  then show ?case using 1(1) o1 o2 by simp
qed simp

text \<open>The two halves of the set-up, a queue each.\<close>

lemma rx_side:
  assumes "ok m" and "regs (dev m) = \<lparr>lg_status = 3, lg_sel = 0, lg_pfn = \<lambda>_. 0\<rparr>"
    and qs: "ring_size qs" and al: "net_alloc_ok qs al"
  shows "\<exists>m3 m4 m6. outw_at p hw io 0x0E 0 m = Some m3 \<and> inw_at p hw io 0x0C m3 = Some (sizes 0, m4)
    \<and> outl_at p hw io 0x08 (of_nat (na_rx_mem al) div 4096) (rx_laid_out qs al m4) = Some m6
    \<and> ok m6 \<and> ram m6 = ram (rx_laid_out qs al m4)
    \<and> regs (dev m6) = \<lparr>lg_status = 3, lg_sel = 0, lg_pfn = (\<lambda>_. 0)(0 := of_nat (na_rx_mem al) div 4096)\<rparr>"
proof -
  obtain m3 where 3: "outw_at p hw io 0x0E 0 m = Some m3" "ok m3"
    "regs (dev m3) = \<lparr>lg_status = 3, lg_sel = 0, lg_pfn = \<lambda>_. 0\<rparr>"
    using steps(4) [OF assms(1), of p 0] assms(2) by auto
  obtain m4 where 4: "inw_at p hw io 0x0C m3 = Some (sizes 0, m4)" "ok m4"
    "regs (dev m4) = \<lparr>lg_status = 3, lg_sel = 0, lg_pfn = \<lambda>_. 0\<rparr>"
    using steps(6) [OF 3(2), of p] 3(3) by auto
  let ?m5 = "rx_laid_out qs al m4"
  have eq: "?m5 = m4\<lparr>ram := ram ?m5\<rparr>" using laid_out_ring(2) [OF qs al, of m4] by simp
  have 5: "ok ?m5" by (subst eq) (rule steps(1) [OF 4(2)])
  show ?thesis
    using 3(1) 4(1) steps(5) [OF 5, of p "of_nat (na_rx_mem al) div 4096"] 4(3) laid_out_ring(2) [OF qs al, of m4]
    by auto
qed

lemma tx_side:
  assumes "ok m" and "regs (dev m) = \<lparr>lg_status = 3, lg_sel = 0, lg_pfn = (\<lambda>_. 0)(0 := pfn)\<rparr>"
    and al: "net_alloc_ok qs al"
  shows "\<exists>m7 m8 m10 m11. outw_at p hw io 0x0E 1 m = Some m7 \<and> inw_at p hw io 0x0C m7 = Some (sizes 1, m8)
    \<and> outl_at p hw io 0x08 (of_nat (na_tx_mem al) div 4096) (tx_zeroed qs al m8) = Some m10
    \<and> outb_at p hw io 0x12 7 m10 = Some m11 \<and> ok m11 \<and> ram m8 = ram m \<and> ram m11 = ram (tx_zeroed qs al m8)
    \<and> regs (dev m11) = \<lparr>lg_status = 7, lg_sel = 1, lg_pfn = (\<lambda>_. 0)(0 := pfn, 1 := of_nat (na_tx_mem al) div 4096)\<rparr>"
proof -
  have nz: "na_tx_mem al \<noteq> 0" "na_tx_bufs al \<noteq> 0" using al by (simp_all add: net_alloc_ok_def Let_def)
  obtain m7 where 7: "outw_at p hw io 0x0E 1 m = Some m7" "ok m7" "ram m7 = ram m"
    "regs (dev m7) = \<lparr>lg_status = 3, lg_sel = 1, lg_pfn = (\<lambda>_. 0)(0 := pfn)\<rparr>"
    using steps(4) [OF assms(1), of p 1] assms(2) by auto
  obtain m8 where 8: "inw_at p hw io 0x0C m7 = Some (sizes 1, m8)" "ok m8" "ram m8 = ram m"
    "regs (dev m8) = \<lparr>lg_status = 3, lg_sel = 1, lg_pfn = (\<lambda>_. 0)(0 := pfn)\<rparr>"
    using steps(6) [OF 7(2), of p] 7(3,4) by auto
  let ?m9 = "tx_zeroed qs al m8"
  have 9: "ok ?m9" "dev ?m9 = dev m8"
    using steps(1) [OF 8(2)] nz by (simp_all add: tx_zeroed_def alloc_zeroed_def wr_bytes_def)
  obtain m10 where 10: "outl_at p hw io 0x08 (of_nat (na_tx_mem al) div 4096) ?m9 = Some m10" "ok m10" "ram m10 = ram ?m9"
    "regs (dev m10) = \<lparr>lg_status = 3, lg_sel = 1, lg_pfn = (\<lambda>_. 0)(0 := pfn, 1 := of_nat (na_tx_mem al) div 4096)\<rparr>"
    using steps(5) [OF 9(1), of p "of_nat (na_tx_mem al) div 4096"] 8(4) 9(2) by auto
  show ?thesis
    using 7(1) 8(1,3) 10(1) steps(2) [OF 10(2), of p 7] 10(3,4) by auto
qed

lemma net_up:
  assumes "ok m" and "vid = NET_VENDOR" and "did = VIRTIO_NET_DEVICE"
    and notify: "\<And>m v. ok m \<Longrightarrow> ram (outw hw (io + 0x10) v m) = ram m \<and> regs (dev (outw hw (io + 0x10) v m)) = regs (dev m)"
    and qs: "qs = ucast (sizes 0)" "ring_size qs" and al: "net_alloc_ok qs al"
  shows "\<exists>m'. net_init p hw al m = Some (Inr \<lparr>n_io_base = io, n_mac = map mac [0..<6], n_queue_size = qs,
        n_rx_mem = na_rx_mem al, n_rx_bufs = na_rx_bufs al, n_rx_next_avail = 16, n_rx_last_used = 0,
        n_tx_mem = na_tx_mem al, n_tx_bufs = na_tx_bufs al, n_tx_next_avail = 0\<rparr>, m')
    \<and> rx_holds qs (na_rx_mem al) (na_rx_bufs al) 0 [] (ram m')
    \<and> lg_status (regs (dev m')) = 7 \<and> lg_pfn (regs (dev m')) 0 = of_nat (na_rx_mem al) div 4096
    \<and> lg_pfn (regs (dev m')) 1 = of_nat (na_tx_mem al) div 4096"
proof -
  have nz: "na_rx_mem al \<noteq> 0" "na_rx_bufs al \<noteq> 0" "na_tx_mem al \<noteq> 0" "na_tx_bufs al \<noteq> 0"
    and far: "apart (na_rx_mem al) (unat (net_queue_mem_size qs)) (na_tx_mem al) (unat (net_queue_mem_size qs))"
      "apart (na_rx_mem al) (unat (net_queue_mem_size qs)) (na_tx_bufs al) 32768"
    using al by (simp_all add: net_alloc_ok_def Let_def)
  obtain pd m0 where pd: "pci_find hw vid did m = (Some pd, m0)" "ok m0" "bar0 pd AND 1 \<noteq> 0" "ucast (bar0 pd AND NOT 3) = io"
    using finds [OF assms(1)] by blast
  obtain ma mb mc m1 where h: "outb_at p hw io 0x12 0 m0 = Some ma" "outb_at p hw io 0x12 1 ma = Some mb"
      "outb_at p hw io 0x12 3 mb = Some mc" "outl_at p hw io 0x04 0 mc = Some m1"
    and 1: "ok m1" "ram m1 = ram m0" "regs (dev m1) = \<lparr>lg_status = 3, lg_sel = 0, lg_pfn = \<lambda>_. 0\<rparr>"
    using handshake [OF pd(2)] by blast
  obtain m2 where 2: "read_mac p hw io [0..<6] m1 = Some (map mac [0..<6], m2)" "ok m2"
    "regs (dev m2) = \<lparr>lg_status = 3, lg_sel = 0, lg_pfn = \<lambda>_. 0\<rparr>"
    using mac_bytes [OF 1(1), of "[0..<6]" p] 1(3) by auto
  obtain m3 m4 m6 where 3: "outw_at p hw io 0x0E 0 m2 = Some m3" "inw_at p hw io 0x0C m3 = Some (sizes 0, m4)"
    "outl_at p hw io 0x08 (of_nat (na_rx_mem al) div 4096) (rx_laid_out qs al m4) = Some m6" "ok m6"
    "ram m6 = ram (rx_laid_out qs al m4)"
    "regs (dev m6) = \<lparr>lg_status = 3, lg_sel = 0, lg_pfn = (\<lambda>_. 0)(0 := of_nat (na_rx_mem al) div 4096)\<rparr>"
    using rx_side [OF 2(2,3) qs(2) al] by blast
  let ?m5 = "rx_laid_out qs al m4"
  let ?pfn = "(\<lambda>_. 0)(0 := of_nat (na_rx_mem al) div 4096, 1 := of_nat (na_tx_mem al) div 4096)"
  obtain m7 m8 m10 m11 where 4: "outw_at p hw io 0x0E 1 m6 = Some m7" "inw_at p hw io 0x0C m7 = Some (sizes 1, m8)"
    "outl_at p hw io 0x08 (of_nat (na_tx_mem al) div 4096) (tx_zeroed qs al m8) = Some m10"
    "outb_at p hw io 0x12 7 m10 = Some m11" "ok m11" "ram m8 = ram m6" "ram m11 = ram (tx_zeroed qs al m8)"
    "regs (dev m11) = \<lparr>lg_status = 7, lg_sel = 1, lg_pfn = ?pfn\<rparr>"
    using tx_side [OF 3(4,6) al] by blast
  let ?m9 = "tx_zeroed qs al m8" and ?m12 = "outw hw (io + 0x10) NET_QUEUE_RX m11"
  have 12: "outw_at p hw io 0x10 NET_QUEUE_RX m11 = Some ?m12" "ram ?m12 = ram ?m9"
    "regs (dev ?m12) = \<lparr>lg_status = 7, lg_sel = 1, lg_pfn = ?pfn\<rparr>"
    using notify [OF 4(5)] 4(7,8) by (simp_all add: outw_at_def at_reg)
  have "mem_read (ram ?m9) (na_rx_mem al + x) n = mem_read (ram ?m5) (na_rx_mem al + x) n"
    if "x + n \<le> unat (net_queue_mem_size qs)" for x n
    using apart_part [OF far(1) that] apart_part [OF far(2) that] nz
    by (simp add: tx_zeroed_def ram_alloc mem_read_apart net_sizes 4(6) 3(5))
  from ring_start_keep [OF qs(2) laid_out_ring(1) [OF qs(2) al, of m4] this]
  have "rx_holds qs (na_rx_mem al) (na_rx_bufs al) 0 [] (ram ?m12)" by (simp add: 12(2))
  moreover have "net_init p hw al m = Some (Inr \<lparr>n_io_base = io, n_mac = map mac [0..<6], n_queue_size = qs,
        n_rx_mem = na_rx_mem al, n_rx_bufs = na_rx_bufs al, n_rx_next_avail = 16, n_rx_last_used = 0,
        n_tx_mem = na_tx_mem al, n_tx_bufs = na_tx_bufs al, n_tx_next_avail = 0\<rparr>, ?m12)"
    using pd h 2(1) 3(1-3) 4(1-4) 12(1) nz assms(2,3)
    by (simp add: net_init_def net_regs NET_PAGE_SIZE_def rx_laid_out_def tx_zeroed_def Let_def QUEUE_BUFS_def flip: qs(1))
  ultimately show ?thesis using 12(3) by auto
qed

end

section \<open>A model card\<close>

definition net_table :: "u32 \<Rightarrow> u32" where
  "net_table a = (if a = 0x80001800 then 0x10001AF4 else one_device a)"

lemma net_table_found:
  "find (is_function net_table NET_VENDOR VIRTIO_NET_DEVICE) (pci_functions net_table) = Some (0, 3, 0)"
proof -
  have none: "cfg16 net_table 0 s 0 0 = 0xFFFF" if "s = 0 \<or> s = 1 \<or> s = 2" for s
    using that by (auto simp: cfg16_def cfg32_def net_table_def one_device_def)
  have "cfg16 net_table 0 3 0 0 = 0x1AF4" "cfg16 net_table 0 3 0 2 = 0x1000"
    by (simp_all add: cfg16_def cfg32_def net_table_def one_device_def)
  then show ?thesis
    using first_slots [of net_table]
    by (auto simp: none slot_functions_def is_function_def NET_VENDOR_def VIRTIO_NET_DEVICE_def)
qed

lemma net_table_bar: "described net_table (0, 3, 0) = \<lparr>pd_bus = 0, pd_slot = 3, pd_func = 0,
    vendor_id = 0x1AF4, device_id = 0x1000, bar0 = 0xC001\<rparr>"
  by (simp add: described_def cfg16_def cfg32_def net_table_def one_device_def)

definition net_card_hw :: "card hw" where
  "net_card_hw = (card_hw net_table)\<lparr>sync := \<lambda>m. m\<rparr>"

lemma net_card_conforming: "legacy_conforming net_card_hw (\<lambda>m. True) c_regs 0xC000 (\<lambda>_. 128) (\<lambda>_. 0)"
proof -
  have six: "i < 6 \<longleftrightarrow> i \<in> {0, 1, 2, 3, 4, 5 :: nat}" for i by auto
  show ?thesis
    by (simp add: legacy_conforming_def net_card_hw_def card_hw_def card_out_def outb_def outl_def outw_def inw_def
        inb_def CONFIG_ADDRESS_def CONFIG_DATA_def ucast_byte six)
qed

lemma net_card_bus: "cfg_reads net_card_hw (\<lambda>m. True) net_table"
  by (simp add: cfg_reads_def net_card_hw_def card_hw_def card_out_def inl_def outl_def CONFIG_ADDRESS_def CONFIG_DATA_def)

interpretation net_card: legacy_device net_card_hw "\<lambda>m. True" c_regs "0xC000" "\<lambda>_. 128" "\<lambda>_. 0" net_table
    NET_VENDOR VIRTIO_NET_DEVICE
  using net_card_conforming net_card_bus net_table_found
  by unfold_locales (simp_all add: net_table_bar)

lemma net_card_quiet: "net_quiet net_card_hw 0xC000"
  "ram (outw net_card_hw 0xC010 v m) = ram m" "c_regs (dev (outw net_card_hw 0xC010 v m)) = c_regs (dev m)"
  by (simp_all add: net_quiet_def net_card_hw_def card_hw_def outw_def card_out_def CONFIG_ADDRESS_def)

definition sample_net_alloc :: net_alloc where
  "sample_net_alloc = \<lparr>na_rx_mem = 0x100000, na_rx_bufs = 0x110000, na_tx_mem = 0x120000, na_tx_bufs = 0x130000\<rparr>"

lemma size_128: "ring_size 128" "unat (net_queue_mem_size 128) = 8192"
  using net.size_at [of 128] net.used_at [of 128] by (simp_all add: ring_size_def)

lemma sample_net_alloc_ok: "net_alloc_ok 128 sample_net_alloc"
  by (simp add: net_alloc_ok_def sample_net_alloc_def ring_area_def apart_def size_128)

section \<open>Properties\<close>

text \<open>
  C30. The network driver comes up: on a bus with a conforming device, \<open>init\<close> reads the station
  address, gives the device exactly the addresses of both queues, and leaves both rings in their
  initial state: sixteen receive buffers on offer, nothing received and nothing sent.
\<close>

theorem net_init_rings:
  assumes "legacy_conforming hw ok regs io sizes mac" and "cfg_reads hw ok cfg" and "ok m"
    and "find (is_function cfg NET_VENDOR VIRTIO_NET_DEVICE) (pci_functions cfg) = Some dv"
    and "bar0 (described cfg dv) AND 1 \<noteq> 0" and "ucast (bar0 (described cfg dv) AND NOT 3) = io"
    and "unat io + 0x1A < 65536" and "net_quiet hw io"
    and "\<forall>m v. ok m \<longrightarrow> regs (dev (outw hw (io + 0x10) v m)) = regs (dev m)"
    and "ring_size (ucast (sizes 0))" and "net_alloc_ok (ucast (sizes 0)) al"
  shows "\<exists>d m'. net_init p hw al m = Some (Inr d, m') \<and> n_mac d = map mac [0..<6]
    \<and> rx_ready hw d 0 \<and> in_ring d 0 [] (ram m') \<and> tx_ready hw d \<and> n_tx_next_avail d = 0
    \<and> lg_status (regs (dev m')) = 7
    \<and> unat (lg_pfn (regs (dev m')) 0) * 4096 = n_rx_mem d \<and> unat (lg_pfn (regs (dev m')) 1) * 4096 = n_tx_mem d"
proof -
  have dev: "legacy_device hw ok regs io sizes mac cfg NET_VENDOR VIRTIO_NET_DEVICE"
    using assms(1,2,4-7) by unfold_locales auto
  have "ram (outw hw (io + 0x10) v m) = ram m \<and> regs (dev (outw hw (io + 0x10) v m)) = regs (dev m)"
    if "ok m" for m v using assms(8,9) that by (simp add: net_quiet_def)
  from legacy_device.net_up [OF dev assms(3) refl refl this refl assms(10,11), of p]
  show ?thesis
    using assms(8,10,11) page_number
    by (fastforce simp: rx_ready_def tx_ready_def in_ring_def net_alloc_ok_def Let_def)
qed

theorem net_init_rings_witness:
  "\<exists>d m'. net_init Dev net_card_hw sample_net_alloc card_machine = Some (Inr d, m')
     \<and> rx_ready net_card_hw d 0 \<and> in_ring d 0 [] (ram m') \<and> n_mac d = [0, 0, 0, 0, 0, 0]"
proof -
  have "map (\<lambda>_. 0 :: u8) [0..<6] = [0, 0, 0, 0, 0, 0]" by (simp add: upt_conv_Cons)
  with net_init_rings [OF net_card_conforming net_card_bus TrueI net_table_found, of sample_net_alloc Dev card_machine]
  show ?thesis
    using size_128(1) sample_net_alloc_ok net_card_quiet by (fastforce simp: net_table_bar)
qed

text \<open>
  C27. The receive ring is a queue: whatever the order in which frames arrive and the driver polls, the
  polls return the frames in order, each once and unchanged, as a queue of sixteen frames does that
  drops what arrives when it is full. A development build must not poll more than 65519 times.
\<close>

theorem receive_is_queue:
  assumes "rx_ready hw d l" and "in_ring d l fs (ram m)" and "list_all fits (arrivals es)"
    and "p = Release \<or> l + polls es \<le> 65519"
  shows "rx_run p hw es (of_nat (l + length fs)) (d, m) = Some (queue_run 16 es fs)"
  by (rule run_is_queue [OF assms])

theorem receive_is_queue_witness:
  "\<exists>d m. rx_run Dev net_card_hw [RxPoll, RxArrive [1], RxArrive [2, 3], RxPoll, RxPoll] 0 (d, m)
     = Some [None, Some [1], Some [2, 3]]"
proof -
  obtain m :: "card machine" where "rx_holds 128 0x100000 0x110000 0 [] (ram m)"
    using net_card.net_up [OF TrueI refl refl _ _ _ sample_net_alloc_ok, of Dev card_machine] size_128(1) net_card_quiet
    by (auto simp: sample_net_alloc_def)
  moreover define d where "d = \<lparr>n_io_base = 0xC000, n_mac = [], n_queue_size = 128, n_rx_mem = 0x100000,
     n_rx_bufs = 0x110000, n_rx_next_avail = 16, n_rx_last_used = 0, n_tx_mem = 0, n_tx_bufs = 0, n_tx_next_avail = 0\<rparr>"
  ultimately have "in_ring d 0 [] (ram m)" "rx_ready net_card_hw d 0"
    using size_128 net_card_quiet(1) by (simp_all add: in_ring_def rx_ready_def ring_area_def apart_def)
  from receive_is_queue [OF this(2,1), of "[RxPoll, RxArrive [1], RxArrive [2, 3], RxPoll, RxPoll]" Dev]
  show ?thesis by (auto simp: fits_len)
qed

end
