(* ===== verification/Adapter.thy ===== *)
theory Adapter
  imports NetInit
begin

text \<open>
  The adapter between smoltcp and the network driver (\<^verbatim>\<open>net.rs\<close>, the implementations of \<open>Device\<close>,
  \<open>RxToken\<close> and \<open>TxToken\<close>). A closure that smoltcp passes to a token is a function from the slice it is
  given to its result and the slice as it leaves it; the device's default capabilities are a parameter.
  A transmit token holds a pointer to the driver, which here is the driver's state.
\<close>

datatype rx_token = RxTokenImpl "8 word list"

datatype tx_token = TxTokenImpl

datatype medium = Ethernet | OtherMedium

record capabilities =
  cap_medium :: medium
  max_transmission_unit :: nat

definition rx_consume :: "rx_token \<Rightarrow> (bytes \<Rightarrow> 'r \<times> bytes) \<Rightarrow> 'r" where
  "rx_consume t f = (case t of RxTokenImpl pkt \<Rightarrow> fst (f pkt))"

definition tx_consume :: "profile \<Rightarrow> 'd hw \<Rightarrow> tx_token \<Rightarrow> nat \<Rightarrow> (bytes \<Rightarrow> 'r \<times> bytes) \<Rightarrow>
    vnet \<times> 'd machine \<Rightarrow> ('r \<times> vnet \<times> 'd machine) option" where
  "tx_consume p hw t len f s = do {
     let buf = replicate len 0;
     let (result, buf) = f buf;
     s \<leftarrow> send_packet p hw buf s;
     Some (result, s)
   }"

definition device_receive :: "profile \<Rightarrow> 'd hw \<Rightarrow> vnet \<times> 'd machine \<Rightarrow>
    ((rx_token \<times> tx_token) option \<times> vnet \<times> 'd machine) option" where
  "device_receive p hw s = do {
     (r, s) \<leftarrow> net_try_recv p hw s;
     Some (map_option (\<lambda>pkt. (RxTokenImpl pkt, TxTokenImpl)) r, s)
   }"

definition device_transmit :: "tx_token option" where
  "device_transmit = Some TxTokenImpl"

definition device_capabilities :: "capabilities \<Rightarrow> capabilities" where
  "device_capabilities caps = caps\<lparr>cap_medium := Ethernet, max_transmission_unit := 1514\<rparr>"

section \<open>Tokens and frames\<close>

text \<open>A closure keeps the length of the slice; a stack asks for no more than the advertised unit.\<close>

definition honest :: "capabilities \<Rightarrow> nat \<times> (bytes \<Rightarrow> 'r \<times> bytes) \<Rightarrow> bool" where
  "honest caps = (\<lambda>(len, f). len \<le> max_transmission_unit caps \<and> length (snd (f (replicate len 0))) = len)"

text \<open>What the stack writes into the slice of a transmit token.\<close>

definition written :: "nat \<times> (bytes \<Rightarrow> 'r \<times> bytes) \<Rightarrow> bytes" where
  "written = (\<lambda>(len, f). snd (f (replicate len 0)))"

fun consume_all :: "profile \<Rightarrow> 'd hw \<Rightarrow> (nat \<times> (bytes \<Rightarrow> 'r \<times> bytes)) list \<Rightarrow>
    vnet \<times> 'd machine \<Rightarrow> ('r list \<times> vnet \<times> 'd machine) option" where
  "consume_all p hw [] s = Some ([], s)"
| "consume_all p hw ((len, f) # ts) s = do {
     t \<leftarrow> device_transmit;
     (r, s) \<leftarrow> tx_consume p hw t len f s;
     (rs, s) \<leftarrow> consume_all p hw ts s;
     Some (r # rs, s)
   }"

lemma honest_fits: "honest (device_capabilities caps) t \<Longrightarrow> fits (written t)"
  by (auto simp: honest_def written_def device_capabilities_def fits_len split: prod.splits)

lemma consume_all_sends:
  "consume_all p hw ts s = map_option (\<lambda>s. (map (\<lambda>(len, f). fst (f (replicate len 0))) ts, s)) (send_all p hw (map written ts) s)"
proof (induction ts arbitrary: s)
  case (Cons t ts)
  obtain len f where "t = (len, f)" by (cases t)
  with Cons show ?case
    by (auto simp: device_transmit_def tx_consume_def send_all_def written_def case_prod_beta map_option_case
        split: Option.bind_splits option.splits)
qed (simp add: send_all_def)

section \<open>Properties\<close>

text \<open>
  C32. The adapter keeps the driver's contract: a stack that asks for no more than the transmission unit
  it was told never meets the assertion on the size of a frame; every token it consumes is one frame
  with exactly the bytes it wrote into the zeroed slice, and its result is handed back. The available
  index in memory counts the tokens, the last sixteen frames are in their ring entries, and a device
  that serves the queue whenever it is notified has put the frames of all tokens on the wire in order.
\<close>

theorem tokens_published:
  assumes "tx_ready hw d" and "n_tx_next_avail d = 0" and "list_all (honest (device_capabilities caps)) ts"
    and "p = Release \<or> length ts < 65536"
  shows "\<exists>d' m'. consume_all p hw ts (d, m) = Some (map (\<lambda>(len, f). fst (f (replicate len 0))) ts, d', m')
    \<and> (ts \<noteq> [] \<longrightarrow> c16 (ram m') (n_tx_mem d + 16 * unat (n_queue_size d) + 2) = of_nat (length ts))
    \<and> (\<forall>j<length ts. length ts \<le> j + 16 \<longrightarrow>
        tx_entry (n_queue_size d) (n_tx_mem d) j (ram m') = replicate 10 0 @ written (ts ! j))
    \<and> (\<forall>view wire. tx_device hw view d \<longrightarrow> view (dev m) = (0, wire) \<longrightarrow>
        view (dev m') = (of_nat (length ts), wire @ map written ts))"
proof -
  have "list_all fits (map written ts)" using assms(3) by (auto simp: list_all_iff intro: honest_fits)
  from frames_sent [OF assms(1,2) this, of p m] assms(4) obtain d' m' where s: "send_all p hw (map written ts) (d, m) = Some (d', m')"
    "ts \<noteq> [] \<longrightarrow> c16 (ram m') (n_tx_mem d + 16 * unat (n_queue_size d) + 2) = of_nat (length ts)"
    "\<forall>j<length ts. length ts \<le> j + 16 \<longrightarrow>
        tx_entry (n_queue_size d) (n_tx_mem d) j (ram m') = replicate 10 0 @ written (ts ! j)"
    "\<forall>view wire. tx_device hw view d \<longrightarrow> view (dev m) = (0, wire) \<longrightarrow>
        view (dev m') = (of_nat (length ts), wire @ map written ts)"
    by auto
  then show ?thesis unfolding consume_all_sends by auto
qed

theorem tokens_published_witness:
  "\<exists>d' m'. consume_all Dev wire_hw [(2, \<lambda>b. (7 :: nat, [1, 2]))] (sample_net, \<lparr>ram = \<lambda>_. 0, dev = (0, [])\<rparr>) = Some ([7], d', m')
    \<and> tx_entry 256 0x120000 0 (ram m') = replicate 10 0 @ [1, 2] \<and> dev m' = (1, [[1, 2]])"
proof -
  have "list_all (honest (device_capabilities \<lparr>cap_medium = OtherMedium, max_transmission_unit = 0\<rparr>)) [(2, \<lambda>b. (7 :: nat, [1, 2]))]"
    by (simp add: honest_def device_capabilities_def)
  from tokens_published [OF wire_tx_ready(1) _ this, of Dev "\<lparr>ram = \<lambda>_. 0, dev = (0, [])\<rparr>"] wire_tx_ready(2)
  show ?thesis by (fastforce simp: sample_net_def written_def)
qed

end
