(* ===== verification/Registry.thy ===== *)
theory Registry
  imports Server Serial "HOL-Library.Sublist"
begin

text \<open>
  The registry client (\<^verbatim>\<open>registry.rs\<close>): one HTTP fetch over a fresh socket, the list of fetches at boot,
  and the decimal printer. The TCP stack is a parameter, as in the main loop; two more of its calls
  are used here. The millisecond counter is a schedule: \<open>now k\<close> is its value at the \<open>k\<close>-th poll. The
  state carries the stack and the machine, the number of polls and the next local port. The creation
  of the interface is smoltcp's; the lines printed about each fetch are left out.
\<close>

definition REGISTRY_IP :: bytes where "REGISTRY_IP = [10, 0, 2, 2]"
definition REGISTRY_PORT :: u16 where "REGISTRY_PORT = 8888"

definition WASM_ENTRIES :: "(bytes \<times> bytes) list" where
  "WASM_ENTRIES = [(str ''/app.wasm'', str ''/''), (str ''/bbs.wasm'', str ''/bbs''),
     (str ''/editor.wasm'', str ''/editor'')]"

definition STATIC_ENTRIES :: "(bytes \<times> bytes \<times> bytes) list" where
  "STATIC_ENTRIES = [(str ''/eq.html'', str ''/'', str ''text/html; charset=utf-8''),
     (str ''/bbs.html'', str ''/bbs'', str ''text/html; charset=utf-8''),
     (str ''/editor.html'', str ''/editor'', str ''text/html; charset=utf-8'')]"

record ('n, 'd) reg_tcp = "('n, 'd) tcp_ops" +
  tcp_closed :: "nat \<Rightarrow> 'n \<Rightarrow> bool"
  tcp_try_send :: "nat \<Rightarrow> 8 word list \<Rightarrow> 'n \<Rightarrow> bool \<times> 'n"

record ('n, 'd) reg =
  rg_net :: 'n
  rg_mach :: "'d machine"
  rg_polls :: nat
  rg_port :: "16 word"

definition reg_poll :: "(nat \<Rightarrow> u64) \<Rightarrow> ('n, 'd) reg_tcp \<Rightarrow> ('n, 'd) reg \<Rightarrow> ('n, 'd) reg option" where
  "reg_poll now tcp s = do {
     (n, m) \<leftarrow> tcp_poll tcp (now (rg_polls s)) (rg_net s, rg_mach s);
     Some (s\<lparr>rg_net := n, rg_mach := m, rg_polls := rg_polls s + 1\<rparr>)
   }"

definition NEXT_LOCAL_PORT :: u16 where "NEXT_LOCAL_PORT = 49152"

definition next_port :: "profile \<Rightarrow> u16 \<Rightarrow> u16 option" where
  "next_port pr p = (if 60000 \<le> p then Some 49152 else add_ovf pr p 1)"

text \<open>\<open>for _ in 0..100000\<close>: the result is whether the loop ended without the early return.\<close>

fun connect_wait :: "(nat \<Rightarrow> u64) \<Rightarrow> ('n, 'd) reg_tcp \<Rightarrow> nat \<Rightarrow> nat \<Rightarrow> ('n, 'd) reg \<Rightarrow> (bool \<times> ('n, 'd) reg) option" where
  "connect_wait now tcp h 0 s = Some (True, s)"
| "connect_wait now tcp h (Suc k) s = do {
     s \<leftarrow> reg_poll now tcp s;
     if tcp_may_send tcp h (rg_net s) then Some (True, s)
     else if tcp_closed tcp h (rg_net s) then Some (False, s)
     else connect_wait now tcp h k s
   }"

text \<open>\<open>for _ in 0..2000000\<close>\<close>

fun recv_wait :: "(nat \<Rightarrow> u64) \<Rightarrow> ('n, 'd) reg_tcp \<Rightarrow> nat \<Rightarrow> nat \<Rightarrow> bytes \<Rightarrow> ('n, 'd) reg \<Rightarrow> (bytes \<times> ('n, 'd) reg) option" where
  "recv_wait now tcp h 0 raw s = Some (raw, s)"
| "recv_wait now tcp h (Suc k) raw s = do {
     s \<leftarrow> reg_poll now tcp s;
     let (raw, s) =
       (if tcp_can_recv tcp h (rg_net s)
        then (case tcp_recv tcp h 1024 (rg_net s) of (chunk, n) \<Rightarrow> (raw @ chunk, s\<lparr>rg_net := n\<rparr>))
        else (raw, s));
     if \<not> tcp_is_open tcp h (rg_net s) then Some (raw, s) else recv_wait now tcp h k raw s
   }"

definition response_body :: "bytes \<Rightarrow> bytes option" where
  "response_body raw =
     (case window_position CRLF2 raw of
        None \<Rightarrow> None
      | Some pos \<Rightarrow> if drop (pos + 4) raw = [] then None else Some (drop (pos + 4) raw))"

definition do_fetch :: "profile \<Rightarrow> (nat \<Rightarrow> u64) \<Rightarrow> ('n, 'd) reg_tcp \<Rightarrow> bytes \<Rightarrow> ('n, 'd) reg \<Rightarrow>
    (bytes option \<times> ('n, 'd) reg) option" where
  "do_fetch pr now tcp path s = do {
     let local_port = rg_port s;
     port' \<leftarrow> next_port pr local_port;
     let s = s\<lparr>rg_port := port'\<rparr>;
     (case tcp_connect tcp REGISTRY_IP REGISTRY_PORT local_port (rg_net s) of
        (None, n) \<Rightarrow> Some (None, s\<lparr>rg_net := n\<rparr>)
      | (Some h, n) \<Rightarrow> do {
          let s = s\<lparr>rg_net := n\<rparr>;
          (ok, s) \<leftarrow> connect_wait now tcp h 100000 s;
          if \<not> ok then Some (None, s)
          else if \<not> tcp_may_send tcp h (rg_net s) then Some (None, s)
          else do {
            let (sent, n) = tcp_try_send tcp h (get_request path REGISTRY_IP) (rg_net s);
            let s = s\<lparr>rg_net := n\<rparr>;
            if \<not> sent then Some (None, s)
            else do {
              (raw, s) \<leftarrow> recv_wait now tcp h 2000000 [] s;
              let s = s\<lparr>rg_net := tcp_remove tcp h (rg_net s)\<rparr>;
              Some (response_body raw, s)
            }
          }
        })
   }"

text \<open>\<open>for _ in 0..50000\<close> after every fetch.\<close>

fun settle :: "(nat \<Rightarrow> u64) \<Rightarrow> ('n, 'd) reg_tcp \<Rightarrow> nat \<Rightarrow> ('n, 'd) reg \<Rightarrow> ('n, 'd) reg option" where
  "settle now tcp 0 s = Some s"
| "settle now tcp (Suc k) s = do { s \<leftarrow> reg_poll now tcp s; settle now tcp k s }"

text \<open>The two loops of \<open>fetch_all\<close>: a path is fetched, and what it is fetched for is kept with the body.\<close>

fun fetch_list :: "profile \<Rightarrow> (nat \<Rightarrow> u64) \<Rightarrow> ('n, 'd) reg_tcp \<Rightarrow> (bytes \<times> 'x) list \<Rightarrow> ('n, 'd) reg \<Rightarrow>
    (('x \<times> bytes) list \<times> ('n, 'd) reg) option" where
  "fetch_list pr now tcp [] s = Some ([], s)"
| "fetch_list pr now tcp ((path, x) # es) s = do {
     (r, s) \<leftarrow> do_fetch pr now tcp path s;
     s \<leftarrow> settle now tcp 50000 s;
     (rs, s) \<leftarrow> fetch_list pr now tcp es s;
     Some (case r of None \<Rightarrow> rs | Some body \<Rightarrow> (x, body) # rs, s)
   }"

definition fetch_all :: "profile \<Rightarrow> (nat \<Rightarrow> u64) \<Rightarrow> ('n, 'd) reg_tcp \<Rightarrow> ('n, 'd) reg \<Rightarrow>
    ((bytes \<times> bytes) list \<times> (bytes \<times> bytes \<times> bytes) list \<times> ('n, 'd) reg) option" where
  "fetch_all pr now tcp s = do {
     (wasm, s) \<leftarrow> fetch_list pr now tcp WASM_ENTRIES s;
     (static, s) \<leftarrow> fetch_list pr now tcp STATIC_ENTRIES s;
     Some (wasm, map (\<lambda>((path, ctype), body). (path, body, ctype)) static, s)
   }"

section \<open>The decimal printer\<close>

text \<open>
  \<open>while n > 0\<close> fills a buffer of twenty bytes from its end; an index below 0 is a panic. The result
  is the text that is printed.
\<close>

fun print_loop :: "profile \<Rightarrow> nat \<Rightarrow> u64 \<Rightarrow> nat \<Rightarrow> bytes \<Rightarrow> (nat \<times> bytes) option" where
  "print_loop pr 0 n i buf = None"
| "print_loop pr (Suc fuel) n i buf =
     (if n = 0 then Some (i, buf)
      else if i = 0 then None
      else print_loop pr fuel (n div 10) (i - 1) (buf[i - 1 := 48 + ucast (n mod 10)]))"

definition usize_text :: "profile \<Rightarrow> u64 \<Rightarrow> bytes option" where
  "usize_text pr n =
     (if n = 0 then Some (str ''0'')
      else do {
        (i, buf) \<leftarrow> print_loop pr 22 n 20 (replicate 20 0);
        Some (if utf8_valid (drop i buf) then drop i buf else [])
      })"

definition print_usize :: "profile \<Rightarrow> 'd hw \<Rightarrow> u64 \<Rightarrow> 'd machine \<Rightarrow> 'd machine option" where
  "print_usize pr hw n m = do { text \<leftarrow> usize_text pr n; serial_print hw text m }"

lemma dec_length: "0 < k \<Longrightarrow> n < 10 ^ k \<Longrightarrow> length (dec n) \<le> k"
proof (induction k arbitrary: n)
  case (Suc k)
  show ?case
  proof (cases "n < 10")
    case True
    then show ?thesis by (subst dec.simps) simp
  next
    case False
    then have "0 < k" using Suc.prems by (cases k) simp_all
    moreover have "n div 10 < 10 ^ k" using Suc.prems by (simp add: less_mult_imp_div_less)
    ultimately show ?thesis using Suc.IH False by (subst dec.simps) simp
  qed
qed simp

lemma digit_of_word: "(48 + ucast (n mod 10) :: u8) = of_nat (48 + unat n mod 10)" for n :: u64
proof -
  have "unat (n mod 10) = unat n mod 10" by (simp add: unat_mod_distrib)
  then have "(ucast (n mod 10) :: u8) = of_nat (unat n mod 10)" by (metis of_nat_unat)
  then show ?thesis by simp
qed

lemma print_loop_dec:
  assumes "0 < unat n" and "length (dec (unat n)) \<le> i" and "i \<le> length buf" and "length (dec (unat n)) < fuel"
  shows "\<exists>buf'. print_loop pr fuel n i buf = Some (i - length (dec (unat n)), buf') \<and> length buf' = length buf
    \<and> drop (i - length (dec (unat n))) buf' = dec (unat n) @ drop i buf"
  using assms
proof (induction fuel arbitrary: n i buf)
  case (Suc fuel)
  let ?d = "48 + ucast (n mod 10) :: u8" and ?m = "n div 10"
  have m: "unat ?m = unat n div 10" by (simp add: unat_div)
  have i: "0 < i" using Suc.prems(2) dec_digits(2) [of "unat n"] by (cases i) auto
  have n0: "n \<noteq> 0" using Suc.prems(1) by auto
  have one: "drop (i - 1) (buf[i - 1 := ?d]) = ?d # drop i buf"
    using i Suc.prems(3) by (simp add: drop_update_swap flip: Cons_nth_drop_Suc)
  show ?case
  proof (cases "unat n < 10")
    case True
    then have "?m = 0" using m by (simp add: unat_eq_0 [symmetric])
    moreover have "dec (unat n) = [?d]" using True by (subst dec.simps) (simp add: digit_of_word)
    moreover have "0 < fuel" using Suc.prems(4) calculation(2) by simp
    ultimately show ?thesis using one i n0 by (cases fuel) simp_all
  next
    case False
    then have d: "dec (unat n) = dec (unat ?m) @ [?d]" by (subst dec.simps) (simp add: digit_of_word m)
    have "\<exists>buf'. print_loop pr fuel ?m (i - 1) (buf[i - 1 := ?d]) = Some (i - 1 - length (dec (unat ?m)), buf')
        \<and> length buf' = length (buf[i - 1 := ?d])
        \<and> drop (i - 1 - length (dec (unat ?m))) buf' = dec (unat ?m) @ drop (i - 1) (buf[i - 1 := ?d])"
      using Suc.prems False d m by (intro Suc.IH) auto
    then show ?thesis using one i n0 d by auto
  qed
qed simp

section \<open>A fetch ends\<close>

text \<open>The stack can be polled in every machine that a predicate accepts, and polling keeps it.\<close>

definition alive :: "('n, 'd) reg_tcp \<Rightarrow> ('d machine \<Rightarrow> bool) \<Rightarrow> bool" where
  "alive tcp P \<longleftrightarrow> (\<forall>ts n m. P m \<longrightarrow> (\<exists>n' m'. tcp_poll tcp ts (n, m) = Some (n', m') \<and> P m'))"

text \<open>What every loop keeps: the port, the machine's predicate, and a bound on the polls.\<close>

definition within :: "('d machine \<Rightarrow> bool) \<Rightarrow> nat \<Rightarrow> ('n, 'd) reg \<Rightarrow> ('n, 'd) reg \<Rightarrow> bool" where
  "within P k s s' \<longleftrightarrow> rg_port s' = rg_port s \<and> rg_polls s' \<le> rg_polls s + k \<and> P (rg_mach s')"

lemma poll_within:
  assumes "alive tcp P" and "P (rg_mach s)"
  shows "\<exists>s'. reg_poll now tcp s = Some s' \<and> within P 1 s s'"
proof -
  obtain n' m' where "tcp_poll tcp (now (rg_polls s)) (rg_net s, rg_mach s) = Some (n', m')" "P m'"
    using assms unfolding alive_def by blast
  then show ?thesis by (simp add: reg_poll_def within_def)
qed

lemma connect_within:
  assumes "alive tcp P" and "P (rg_mach s)"
  shows "\<exists>ok s'. connect_wait now tcp h k s = Some (ok, s') \<and> within P k s s'"
  using assms(2)
proof (induction k arbitrary: s)
  case (Suc k)
  obtain s1 where 1: "reg_poll now tcp s = Some s1" "within P 1 s s1"
    using poll_within [OF assms(1) Suc.prems] by blast
  then have "P (rg_mach s1)" by (simp add: within_def)
  with Suc.IH 1 show ?case by (fastforce simp: within_def)
qed (auto simp: within_def)

lemma recv_within:
  assumes "alive tcp P" and "P (rg_mach s)"
  shows "\<exists>raw' s'. recv_wait now tcp h k raw s = Some (raw', s') \<and> within P k s s'"
  using assms(2)
proof (induction k arbitrary: raw s)
  case (Suc k)
  obtain s1 where 1: "reg_poll now tcp s = Some s1" "within P 1 s s1"
    using poll_within [OF assms(1) Suc.prems] by blast
  obtain chunk n where c: "tcp_recv tcp h 1024 (rg_net s1) = (chunk, n)" by fastforce
  define raw1 s2 where "raw1 = (if tcp_can_recv tcp h (rg_net s1) then raw @ chunk else raw)"
    and "s2 = (if tcp_can_recv tcp h (rg_net s1) then s1\<lparr>rg_net := n\<rparr> else s1)"
  have s2: "within P 1 s s2" "P (rg_mach s2)" using 1(2) by (simp_all add: s2_def within_def)
  have "recv_wait now tcp h (Suc k) raw s =
      (if \<not> tcp_is_open tcp h (rg_net s2) then Some (raw1, s2) else recv_wait now tcp h k raw1 s2)"
    using 1(1) c by (simp add: raw1_def s2_def)
  moreover obtain raw' s' where "recv_wait now tcp h k raw1 s2 = Some (raw', s')" "within P k s2 s'"
    using Suc.IH [OF s2(2)] by blast
  ultimately show ?case using s2(1) by (auto simp: within_def)
qed (auto simp: within_def)

lemma settle_within:
  assumes "alive tcp P" and "P (rg_mach s)"
  shows "\<exists>s'. settle now tcp k s = Some s' \<and> within P k s s'"
  using assms(2)
proof (induction k arbitrary: s)
  case (Suc k)
  obtain s1 where 1: "reg_poll now tcp s = Some s1" "within P 1 s s1"
    using poll_within [OF assms(1) Suc.prems] by blast
  then have "P (rg_mach s1)" by (simp add: within_def)
  from Suc.IH [OF this] 1 show ?case by (auto simp: within_def)
qed (auto simp: within_def)

definition port_ok :: "u16 \<Rightarrow> bool" where "port_ok p \<longleftrightarrow> 49152 \<le> p \<and> p \<le> 60000"

lemma next_port_ok:
  assumes "port_ok p"
  shows "\<exists>p'. next_port pr p = Some p' \<and> port_ok p' \<and> p' \<noteq> p"
proof (cases "60000 \<le> p")
  case True
  with assms have "p = 60000" by (simp add: port_ok_def)
  then show ?thesis by (simp add: next_port_def port_ok_def)
next
  case False
  then have u: "unat p < 60000" "49152 \<le> unat p"
    using assms by (simp_all add: port_ok_def word_le_nat_alt word_less_nat_alt)
  then have "unat (p + 1) = unat p + 1" by (simp add: unat_word_ariths)
  moreover have "add_ovf pr p 1 = Some (p + 1)" using u by (simp add: add_ovf_def)
  ultimately show ?thesis
    using False u by (auto simp: next_port_def port_ok_def word_le_nat_alt)
qed


lemma fetch_within:
  assumes "alive tcp P" and "P (rg_mach s)" and "port_ok (rg_port s)"
  shows "\<exists>r s'. do_fetch pr now tcp path s = Some (r, s') \<and> r \<noteq> Some [] \<and> P (rg_mach s') \<and> port_ok (rg_port s')
    \<and> rg_port s' \<noteq> rg_port s \<and> rg_polls s' \<le> rg_polls s + 2100000"
proof -
  obtain p where p: "next_port pr (rg_port s) = Some p" "port_ok p" "p \<noteq> rg_port s"
    using next_port_ok [OF assms(3)] by blast
  obtain hn n where c: "tcp_connect tcp REGISTRY_IP REGISTRY_PORT (rg_port s) (rg_net s) = (hn, n)" by fastforce
  have body: "response_body raw \<noteq> Some []" for raw by (simp add: response_body_def split: option.split)
  show ?thesis
  proof (cases hn)
    case None
    with p c assms(2) show ?thesis by (simp add: do_fetch_def Let_def)
  next
    case (Some h)
    let ?s = "s\<lparr>rg_port := p, rg_net := n\<rparr>"
    obtain ok s1 where w: "connect_wait now tcp h 100000 ?s = Some (ok, s1)" "within P 100000 ?s s1"
      using connect_within [OF assms(1), of ?s now h 100000] assms(2) by auto
    obtain sent n2 where t: "tcp_try_send tcp h (get_request path REGISTRY_IP) (rg_net s1) = (sent, n2)" by fastforce
    obtain raw s2 where r: "recv_wait now tcp h 2000000 [] (s1\<lparr>rg_net := n2\<rparr>) = Some (raw, s2)"
        "within P 2000000 (s1\<lparr>rg_net := n2\<rparr>) s2"
      using recv_within [OF assms(1), of "s1\<lparr>rg_net := n2\<rparr>" now h 2000000 "[]"] w(2) by (auto simp: within_def)
    show ?thesis using p c Some w t r body by (simp add: do_fetch_def Let_def within_def)
  qed
qed

lemma fetch_list_within:
  assumes "alive tcp P" and "P (rg_mach s)" and "port_ok (rg_port s)"
  shows "\<exists>rs s'. fetch_list pr now tcp es s = Some (rs, s') \<and> subseq (map fst rs) (map snd es)
    \<and> list_all (\<lambda>(x, body). body \<noteq> []) rs \<and> P (rg_mach s') \<and> port_ok (rg_port s')
    \<and> rg_polls s' \<le> rg_polls s + length es * 2150000"
  using assms(2,3)
proof (induction es arbitrary: s)
  case (Cons e es)
  obtain path x where e: "e = (path, x)" by (cases e)
  obtain r s1 where f: "do_fetch pr now tcp path s = Some (r, s1)" "r \<noteq> Some []" "P (rg_mach s1)" "port_ok (rg_port s1)"
      "rg_polls s1 \<le> rg_polls s + 2100000"
    using fetch_within [OF assms(1) Cons.prems] by blast
  obtain s2 where w: "settle now tcp 50000 s1 = Some s2" "within P 50000 s1 s2"
    using settle_within [OF assms(1) f(3)] by blast
  have "P (rg_mach s2)" "port_ok (rg_port s2)" using f(4) w(2) by (simp_all add: within_def)
  from Cons.IH [OF this] obtain rs s3 where
      l: "fetch_list pr now tcp es s2 = Some (rs, s3)" "subseq (map fst rs) (map snd es)"
      "list_all (\<lambda>(x, body). body \<noteq> []) rs" "P (rg_mach s3)" "port_ok (rg_port s3)"
      "rg_polls s3 \<le> rg_polls s2 + length es * 2150000"
    by blast
  show ?case
    using f w l by (cases r) (auto simp: e within_def)
qed simp

lemma fetch_all_within:
  assumes "alive tcp P" and "P (rg_mach s)" and "port_ok (rg_port s)"
  shows "\<exists>wasm static s'. fetch_all pr now tcp s = Some (wasm, static, s')
    \<and> subseq (map fst wasm) (map snd WASM_ENTRIES)
    \<and> subseq (map (\<lambda>(path, body, ctype). (path, ctype)) static) (map snd STATIC_ENTRIES)
    \<and> list_all (\<lambda>(route, body). body \<noteq> []) wasm \<and> list_all (\<lambda>(path, body, ctype). body \<noteq> []) static
    \<and> P (rg_mach s') \<and> port_ok (rg_port s') \<and> rg_polls s' \<le> rg_polls s + 12900000"
proof -
  obtain ws s1 where w: "fetch_list pr now tcp WASM_ENTRIES s = Some (ws, s1)" "subseq (map fst ws) (map snd WASM_ENTRIES)"
      "list_all (\<lambda>(x, body). body \<noteq> []) ws" "P (rg_mach s1)" "port_ok (rg_port s1)" "rg_polls s1 \<le> rg_polls s + 6450000"
    using fetch_list_within [OF assms, of pr now WASM_ENTRIES] by (auto simp: WASM_ENTRIES_def)
  obtain ss s2 where t: "fetch_list pr now tcp STATIC_ENTRIES s1 = Some (ss, s2)" "subseq (map fst ss) (map snd STATIC_ENTRIES)"
      "list_all (\<lambda>(x, body). body \<noteq> []) ss" "P (rg_mach s2)" "port_ok (rg_port s2)" "rg_polls s2 \<le> rg_polls s1 + 6450000"
    using fetch_list_within [OF assms(1) w(4,5), of pr now STATIC_ENTRIES] by (auto simp: STATIC_ENTRIES_def)
  have "map (\<lambda>(path, body, ctype). (path, ctype)) (map (\<lambda>((path, ctype), body). (path, body, ctype)) ss) = map fst ss"
    by (auto simp: case_prod_beta)
  moreover have "list_all (\<lambda>(path, body, ctype). body \<noteq> []) (map (\<lambda>((path, ctype), body). (path, body, ctype)) ss)"
    using t(3) by (auto simp: list_all_iff)
  ultimately show ?thesis using w t by (auto simp: fetch_all_def simp del: map_map)
qed

text \<open>The status line is not looked at: what follows the first empty line is the content, whatever it says.\<close>

lemma window_position_front:
  assumes "pat \<noteq> []" and "window_position pat xs = Some i"
  shows "window_position pat (xs @ ys) = Some i"
proof -
  have w: "i + length pat \<le> length xs" "bslice i (length pat) xs = pat" "\<forall>j<i. bslice j (length pat) xs \<noteq> pat"
    using assms by (simp_all add: window_position_Some)
  have "bslice j (length pat) (xs @ ys) = bslice j (length pat) xs" if "j \<le> i" for j
    using w(1) that by (simp add: slice_append_left)
  then show ?thesis using w assms(1) by (simp add: window_position_Some)
qed

lemma status_ignored:
  assumes "window_position CRLF2 (head @ CRLF2) = Some (length head)" and "body \<noteq> []"
  shows "response_body (head @ CRLF2 @ body) = Some body"
  using window_position_front [OF _ assms(1), of body] assms(2) by (simp add: response_body_def CRLF2_def)

section \<open>Properties\<close>

text \<open>
  C40. The decimal printer prints the decimal numeral: its buffer of twenty bytes is enough for every
  64-bit value, no index leaves it, and the result is the reference numeral \<open>dec\<close>.
\<close>

theorem usize_prints_decimal: "usize_text pr n = Some (dec (unat n))"
proof (cases "n = 0")
  case True
  then show ?thesis by (subst dec.simps) (simp add: usize_text_def str_def)
next
  case False
  then have "0 < unat n" by (simp add: unat_gt_0)
  moreover have "length (dec (unat n)) \<le> 20" using unsigned_less [of n, where ?'a = nat] by (intro dec_length) simp_all
  ultimately obtain buf where "print_loop pr 22 n 20 (replicate 20 0) = Some (20 - length (dec (unat n)), buf)"
      "drop (20 - length (dec (unat n))) buf = dec (unat n)"
    using print_loop_dec [of n 20 "replicate 20 0" 22 pr] by auto
  moreover have "utf8_valid (dec (unat n))"
    using dec_digits(1) [of "unat n"] by (intro utf8_valid_ascii) (auto simp: list_all_iff is_digit_def word_le_nat_alt word_less_nat_alt)
  ultimately show ?thesis using False by (simp add: usize_text_def)
qed

text \<open>
  C39. The fetches at boot end, whatever the network does: with a stack that can be polled,
  \<open>fetch_all\<close> returns after at most 12.9 million polls; what it returns is some of the entries, in their
  order and each at most once, every one with a body that is not empty, under its route (and its
  content type), and the next local port stays in the range 49152 to 60000.
\<close>

theorem fetch_all_entries:
  assumes "alive tcp P" and "P (rg_mach s)" and "port_ok (rg_port s)"
  shows "\<exists>wasm static s'. fetch_all pr now tcp s = Some (wasm, static, s')
    \<and> subseq (map fst wasm) (map snd WASM_ENTRIES)
    \<and> subseq (map (\<lambda>(path, body, ctype). (path, ctype)) static) (map snd STATIC_ENTRIES)
    \<and> list_all (\<lambda>(route, body). body \<noteq> []) wasm \<and> list_all (\<lambda>(path, body, ctype). body \<noteq> []) static
    \<and> P (rg_mach s') \<and> port_ok (rg_port s') \<and> rg_polls s' \<le> rg_polls s + 12900000"
  by (rule fetch_all_within [OF assms])

text \<open>A registry that answers every request in two chunks, the second a module of two bytes, and closes.\<close>

definition sample_registry :: "(bytes list, 'd) reg_tcp" where
  "sample_registry =
     \<lparr>tcp_poll = (\<lambda>ts nm. Some nm), tcp_is_open = (\<lambda>h n. n \<noteq> []), tcp_may_recv = (\<lambda>h n. n \<noteq> []),
      tcp_can_recv = (\<lambda>h n. n \<noteq> []), tcp_may_send = (\<lambda>h n. True), tcp_listen = (\<lambda>h p n. n),
      tcp_recv = (\<lambda>h k n. (concat (take 1 n), drop 1 n)), tcp_send = (\<lambda>h bs n. n), tcp_close = (\<lambda>h n. n),
      tcp_remove = (\<lambda>h n. []), tcp_connect = (\<lambda>ip p l n. (Some 0, n)), tcp_closed = (\<lambda>h n. False),
      tcp_try_send = (\<lambda>h bs n. (True, [str ''HTTP/1.0 200 OK'' @ CRLF2, [2, 2]]))\<rparr>"

definition sample_reg :: "(bytes list, unit) reg" where
  "sample_reg = \<lparr>rg_net = [], rg_mach = \<lparr>ram = (\<lambda>_. 0), dev = ()\<rparr>, rg_polls = 0, rg_port = NEXT_LOCAL_PORT\<rparr>"

lemma fetch_all_entries_witness:
  "\<exists>wasm static s'. fetch_all Dev (\<lambda>k. of_nat k) sample_registry sample_reg = Some (wasm, static, s')
    \<and> subseq (map fst wasm) (map snd WASM_ENTRIES)
    \<and> subseq (map (\<lambda>(path, body, ctype). (path, ctype)) static) (map snd STATIC_ENTRIES)
    \<and> list_all (\<lambda>(route, body). body \<noteq> []) wasm \<and> list_all (\<lambda>(path, body, ctype). body \<noteq> []) static
    \<and> port_ok (rg_port s') \<and> rg_polls s' \<le> rg_polls sample_reg + 12900000"
  using fetch_all_entries [of sample_registry "\<lambda>m. True" sample_reg]
  by (simp add: alive_def sample_registry_def port_ok_def sample_reg_def NEXT_LOCAL_PORT_def)

end
