(* ===== verification/Timer.thy ===== *)
theory Timer
  imports Machine
begin

text \<open>
  The millisecond counter (\<^verbatim>\<open>timer.rs\<close>): the interrupt handler that counts, the programming of the
  interval timer, and the sleep that halts until the counter has reached a target. Interrupts are a
  schedule: \<open>irqs n\<close> is how often the handler runs during the \<open>n\<close>-th \<open>hlt\<close>. The loop has no bound, so
  it is a partial function of the counter and the number of the next \<open>hlt\<close>.
\<close>

definition timer_irq_handler :: "u64 \<Rightarrow> u64" where
  "timer_irq_handler tick = tick + 1"

definition now_ms :: "u64 \<Rightarrow> u64" where
  "now_ms tick = tick"

definition pit_set_1000hz :: "'d hw \<Rightarrow> 'd machine \<Rightarrow> 'd machine" where
  "pit_set_1000hz hw m = outb hw 0x40 0x04 (outb hw 0x40 0xA9 (outb hw 0x43 0x36 m))"

definition timer_init :: "'d hw \<Rightarrow> 'd machine \<Rightarrow> 'd machine" where
  "timer_init hw m = pit_set_1000hz hw m"

definition saturating_add :: "u64 \<Rightarrow> u64 \<Rightarrow> u64" where
  "saturating_add a b = (if unat a + unat b < 2 ^ 64 then a + b else -1)"

partial_function (option) sleep_until :: "(nat \<Rightarrow> nat) \<Rightarrow> u64 \<Rightarrow> u64 \<times> nat \<Rightarrow> (u64 \<times> nat) option" where
  "sleep_until irqs target s =
     (case s of (tick, n) \<Rightarrow>
        if now_ms tick < target then sleep_until irqs target ((timer_irq_handler ^^ irqs n) tick, Suc n)
        else Some (tick, n))"

definition sleep_ms :: "(nat \<Rightarrow> nat) \<Rightarrow> u64 \<Rightarrow> u64 \<times> nat \<Rightarrow> (u64 \<times> nat) option" where
  "sleep_ms irqs ms s = sleep_until irqs (saturating_add (now_ms (fst s)) ms) s"

lemma irqs_count: "unat tick + k < 2 ^ 64 \<Longrightarrow> unat ((timer_irq_handler ^^ k) tick) = unat tick + k"
  by (induction k) (simp_all add: timer_irq_handler_def unat_word_ariths)

lemma sleep_ends:
  assumes "\<forall>n. 1 \<le> irqs n \<and> irqs n \<le> b" and "unat target + b < 2 ^ 64" and "unat tick \<le> unat target + d"
  shows "\<exists>tick' n'. sleep_until irqs target (tick, n) = Some (tick', n') \<and> unat target \<le> unat tick'
    \<and> unat tick' < unat target + max b (Suc d) \<and> n' \<le> n + (unat target - unat tick)"
  using assms(3)
proof (induction "unat target - unat tick" arbitrary: tick n d rule: less_induct)
  case less
  show ?case
  proof (cases "tick < target")
    case True
    let ?t = "(timer_irq_handler ^^ irqs n) tick"
    have i: "1 \<le> irqs n" "irqs n \<le> b" using assms(1) by auto
    have lt: "unat tick < unat target" using True by (simp add: word_less_nat_alt)
    then have t: "unat ?t = unat tick + irqs n" using irqs_count i assms(2) by simp
    have "unat target - unat ?t < unat target - unat tick" using t i(1) lt by linarith
    moreover have "unat ?t \<le> unat target + (b - 1)" using t i lt by linarith
    ultimately obtain tick' n' where r: "sleep_until irqs target (?t, Suc n) = Some (tick', n')"
      "unat target \<le> unat tick'" "unat tick' < unat target + max b (Suc (b - 1))"
      "n' \<le> Suc n + (unat target - unat ?t)" using less(1) by blast
    have "sleep_until irqs target (tick, n) = Some (tick', n')"
      using r(1) True by (subst sleep_until.simps) (simp add: now_ms_def)
    moreover have "Suc (b - 1) = b" using i by simp
    ultimately show ?thesis using r(2-4) t i(1) lt by auto
  next
    case False
    then have "unat target \<le> unat tick" by (simp add: word_le_nat_alt not_less)
    with False less(2) show ?thesis by (subst sleep_until.simps) (auto simp: now_ms_def)
  qed
qed


lemma no_irqs_never:
  assumes "sleep_until irqs target s = Some r" and "\<forall>n. irqs n = 0"
  shows "\<not> fst s < target"
proof -
  have "(\<forall>n. irqs n = 0) \<longrightarrow> \<not> fst s < target"
  proof (rule sleep_until.raw_induct [of "\<lambda>irqs target s r. (\<forall>n. irqs n = 0) \<longrightarrow> \<not> fst s < target" irqs target s r, OF _ assms(1)])
    fix sl :: "(nat \<Rightarrow> nat) \<Rightarrow> u64 \<Rightarrow> u64 \<times> nat \<Rightarrow> (u64 \<times> nat) option" and irqs target s r
    assume "\<And>irqs target s r. sl irqs target s = Some r \<Longrightarrow> (\<forall>n. irqs n = 0) \<longrightarrow> \<not> fst s < target"
      and "(case s of (tick, n) \<Rightarrow> if now_ms tick < target
        then sl irqs target ((timer_irq_handler ^^ irqs n) tick, Suc n) else Some (tick, n)) = Some r"
    then show "(\<forall>n. irqs n = 0) \<longrightarrow> \<not> fst s < target"
      by (cases s) (fastforce simp: now_ms_def split: if_splits)
  qed
  with assms(2) show ?thesis by blast
qed

section \<open>The interval timer\<close>

text \<open>
  Channel 0 of an 8253: the control word 0x36 selects two-byte access and the square wave, and the
  next two bytes are the divisor, low byte first. The state is the divisor and what is still to come.
\<close>

record pit =
  p_mode :: "8 word"
  p_low :: "8 word option"
  p_divisor :: nat

definition pit_out :: "u16 \<Rightarrow> u8 \<Rightarrow> pit \<Rightarrow> pit" where
  "pit_out port v t =
     (if port = 0x43 then t\<lparr>p_mode := v, p_low := None\<rparr>
      else if port = 0x40 then
        (case p_low t of
           None \<Rightarrow> t\<lparr>p_low := Some v\<rparr>
         | Some lo \<Rightarrow> t\<lparr>p_low := None, p_divisor := unat lo + 256 * unat v\<rparr>)
      else t)"

lemma pit_programmed:
  "pit_out 0x40 0x04 (pit_out 0x40 0xA9 (pit_out 0x43 0x36 t)) = \<lparr>p_mode = 0x36, p_low = None, p_divisor = 1193\<rparr>"
  by (cases t) (simp add: pit_out_def)

section \<open>Properties\<close>

text \<open>
  C37. A sleep ends: while every halt is ended by at least one timer interrupt, a sleep of \<open>ms\<close>
  milliseconds returns after at most \<open>ms\<close> halts, never early, and later than asked by less than the
  largest number of ticks one halt can take.
\<close>

theorem sleep_wakes:
  assumes "\<forall>n. 1 \<le> irqs n \<and> irqs n \<le> b" and "unat tick + unat ms + b < 2 ^ 64"
  shows "\<exists>tick' n'. sleep_ms irqs ms (tick, n) = Some (tick', n')
    \<and> unat tick + unat ms \<le> unat tick' \<and> unat tick' < unat tick + unat ms + b \<and> n' \<le> n + unat ms"
proof -
  have sat: "saturating_add tick ms = tick + ms" "unat (tick + ms) = unat tick + unat ms"
    using assms(2) by (simp_all add: saturating_add_def unat_word_ariths)
  have b: "1 \<le> b" using assms(1) by (meson le_trans)
  obtain tick' n' where "sleep_until irqs (tick + ms) (tick, n) = Some (tick', n')"
    "unat (tick + ms) \<le> unat tick'" "unat tick' < unat (tick + ms) + max b (Suc 0)"
    "n' \<le> n + (unat (tick + ms) - unat tick)"
    using sleep_ends [OF assms(1), of "tick + ms" tick 0 n] assms(2) sat(2) by auto
  then show ?thesis using b unfolding sat(2) by (auto simp: sleep_ms_def now_ms_def sat(1) max_def)
qed

theorem sleep_wakes_witness: "\<exists>tick' n'. sleep_ms (\<lambda>n. n mod 3 + 1) 50 (1000, 0) = Some (tick', n') \<and> 1050 \<le> unat tick'"
proof -
  have "\<forall>n. 1 \<le> n mod 3 + 1 \<and> n mod 3 + 1 \<le> (3 :: nat)" by (auto simp: Suc_le_eq)
  from sleep_wakes [OF this, of 1000 50 0] show ?thesis by auto
qed

end
