(* ===== verification/Idt.thy ===== *)
theory Idt
  imports Timer
begin

text \<open>
  The interrupt descriptor table and the two interrupt controllers (\<^verbatim>\<open>idt.rs\<close>). The four handlers
  are assembly code (\<^verbatim>\<open>boot.s\<close>); their addresses and the table's are parameters. What \<open>lidt\<close> loads is
  part of the result; \<open>sti\<close> has no state of its own here.
\<close>

record idt_entry =
  offset_lo :: "16 word"
  selector :: "16 word"
  attrs :: "16 word"
  offset_mid :: "16 word"
  offset_hi :: "32 word"
  reserved :: "32 word"

definition idt_new :: "u64 \<Rightarrow> idt_entry" where
  "idt_new handler =
     \<lparr>offset_lo = ucast handler, selector = 0x08, attrs = 0x8E00,
      offset_mid = ucast (drop_bit 16 handler), offset_hi = ucast (drop_bit 32 handler), reserved = 0\<rparr>"

definition idt_zero :: idt_entry where
  "idt_zero = \<lparr>offset_lo = 0, selector = 0, attrs = 0, offset_mid = 0, offset_hi = 0, reserved = 0\<rparr>"

text \<open>\<open>static mut IDT\<close> before \<open>init\<close>.\<close>

definition IDT :: "idt_entry list" where "IDT = replicate 256 idt_zero"

record handlers =
  irq_exception :: "64 word"
  irq_exception_err :: "64 word"
  irq_pic_master :: "64 word"
  irq_pic_slave :: "64 word"

definition ERR_VECS :: "nat list" where "ERR_VECS = [8, 10, 11, 12, 13, 14, 17, 30]"

definition entry_for :: "handlers \<Rightarrow> nat \<Rightarrow> idt_entry" where
  "entry_for h i =
     (if i \<in> set ERR_VECS then idt_new (irq_exception_err h)
      else if 0x20 \<le> i \<and> i < 0x28 then idt_new (irq_pic_master h)
      else if 0x28 \<le> i \<and> i < 0x30 then idt_new (irq_pic_slave h)
      else idt_new (irq_exception h))"

definition pic_init :: "'d hw \<Rightarrow> 'd machine \<Rightarrow> 'd machine" where
  "pic_init hw m =
     (let m = outb hw 0x20 0x11 m;
          m = outb hw 0xA0 0x11 m;
          m = outb hw 0x21 0x20 m;
          m = outb hw 0xA1 0x28 m;
          m = outb hw 0x21 0x04 m;
          m = outb hw 0xA1 0x02 m;
          m = outb hw 0x21 0x01 m;
          m = outb hw 0xA1 0x01 m;
          m = outb hw 0x21 0xFE m
      in outb hw 0xA1 0xFF m)"

record idt_ptr =
  limit :: "16 word"
  base :: "64 word"

definition ENTRY_BYTES :: nat where "ENTRY_BYTES = 16"

definition idt_init :: "'d hw \<Rightarrow> handlers \<Rightarrow> u64 \<Rightarrow> idt_entry list \<times> 'd machine \<Rightarrow>
    idt_entry list \<times> idt_ptr \<times> 'd machine" where
  "idt_init hw h idt_at = (\<lambda>(table, m).
     let table = fold (\<lambda>i t. t[i := entry_for h i]) [0..<256] table;
         m = pic_init hw m;
         ptr = \<lparr>limit = of_nat (256 * ENTRY_BYTES - 1), base = idt_at\<rparr>
     in (table, ptr, timer_init hw m))"

section \<open>The processor's view of the table\<close>

text \<open>The sixteen bytes of an entry (\<open>repr(C)\<close>), and what the processor takes from them.\<close>

definition entry_bytes :: "idt_entry \<Rightarrow> bytes" where
  "entry_bytes e = to_le16 (offset_lo e) @ to_le16 (selector e) @ to_le16 (attrs e) @ to_le16 (offset_mid e)
     @ to_le32 (offset_hi e) @ to_le32 (reserved e)"

record gate =
  g_target :: "64 word"
  g_segment :: "16 word"
  g_present :: bool
  g_type :: "8 word"
  g_privilege :: "8 word"
  g_stack :: "8 word"

definition read_gate :: "bytes \<Rightarrow> gate" where
  "read_gate b =
     \<lparr>g_target = ucast (from_le16 (bslice 0 2 b)) OR push_bit 16 (ucast (from_le16 (bslice 6 2 b)))
        OR push_bit 32 (ucast (from_le32 (bslice 8 4 b))),
      g_segment = from_le16 (bslice 2 2 b), g_present = (b ! 5 AND 0x80 \<noteq> 0), g_type = b ! 5 AND 0x0F,
      g_privilege = drop_bit 5 (b ! 5) AND 3, g_stack = b ! 4 AND 7\<rparr>"

lemma split_address:
  fixes a :: u64
  shows "ucast (ucast a :: u16) OR push_bit 16 (ucast (ucast (drop_bit 16 a) :: u16))
    OR push_bit 32 (ucast (ucast (drop_bit 32 a) :: u32)) = a"
proof (rule bit_word_eqI)
  fix n
  assume "n < LENGTH(64)"
  then show "bit (ucast (ucast a :: u16) OR push_bit 16 (ucast (ucast (drop_bit 16 a) :: u16))
    OR push_bit 32 (ucast (ucast (drop_bit 32 a) :: u32)) :: u64) n = bit a n"
    by (cases "n < 16"; cases "n < 32") (auto simp: bit_simps)
qed

lemma entry_length: "length (entry_bytes e) = ENTRY_BYTES"
  by (simp add: entry_bytes_def ENTRY_BYTES_def)

lemma entry_fields:
  "bslice 0 2 (entry_bytes e) = to_le16 (offset_lo e)" "bslice 2 2 (entry_bytes e) = to_le16 (selector e)"
  "bslice 6 2 (entry_bytes e) = to_le16 (offset_mid e)" "bslice 8 4 (entry_bytes e) = to_le32 (offset_hi e)"
  by (simp_all add: entry_bytes_def slice_simps)

lemma entry_attrs: "entry_bytes e ! 4 = to_le16 (attrs e) ! 0" "entry_bytes e ! 5 = to_le16 (attrs e) ! 1"
  by (simp_all add: entry_bytes_def nth_append)

lemma gate_of_new:
  "read_gate (entry_bytes (idt_new a)) = \<lparr>g_target = a, g_segment = 8, g_present = True, g_type = 0x0E,
     g_privilege = 0, g_stack = 0\<rparr>"
proof -
  have "nat_le (Suc (Suc 0)) 36352 = [0x00, 0x8E]" by simp
  then have "to_le16 0x8E00 = [0x00, 0x8E]" unfolding numeral_2_eq_2 [symmetric] by (simp add: to_le16_def)
  then have attrs: "to_le16 0x8E00 ! 0 = 0" "to_le16 0x8E00 ! 1 = 0x8E" by simp_all
  show ?thesis
    unfolding read_gate_def entry_fields entry_attrs idt_new_def idt_entry.select_convs le16.dec_enc le32.dec_enc
      split_address attrs
    by simp
qed

text \<open>Filling the table.\<close>

lemma filled:
  "length t = 256 \<Longrightarrow> n \<le> 256 \<Longrightarrow> length (fold (\<lambda>i t. t[i := f i]) [0..<n] t) = 256
    \<and> (\<forall>i<n. fold (\<lambda>i t. t[i := f i]) [0..<n] t ! i = f i)"
  by (induction n) (auto simp: nth_list_update less_Suc_eq)

lemma idt_table:
  assumes "length t = 256" and "idt_init hw h idt_at (t, m) = (t', ptr, m')"
  shows "length t' = 256" and "i < 256 \<Longrightarrow> t' ! i = entry_for h i" and "ptr = \<lparr>limit = 4095, base = idt_at\<rparr>"
    and "m' = timer_init hw (pic_init hw m)"
  using assms filled [OF assms(1), of 256 "entry_for h"]
  by (auto simp: idt_init_def Let_def ENTRY_BYTES_def)

section \<open>The interrupt controllers and the timer\<close>

text \<open>
  An 8259: a command with bit 4 starts the initialisation, and the next three bytes of data are the
  vector base, the cascade and the mode; data outside the initialisation is the mask.
\<close>

record pic =
  pc_step :: nat
  pc_vector :: "8 word"
  pc_cascade :: "8 word"
  pc_mode :: "8 word"
  pc_mask :: "8 word"

definition pic_cmd :: "u8 \<Rightarrow> pic \<Rightarrow> pic" where
  "pic_cmd v c = (if v AND 0x10 \<noteq> 0 then c\<lparr>pc_step := 2, pc_mask := 0\<rparr> else c)"

definition pic_data :: "u8 \<Rightarrow> pic \<Rightarrow> pic" where
  "pic_data v c =
     (if pc_step c = 2 then c\<lparr>pc_vector := v, pc_step := 3\<rparr>
      else if pc_step c = 3 then c\<lparr>pc_cascade := v, pc_step := 4\<rparr>
      else if pc_step c = 4 then c\<lparr>pc_mode := v, pc_step := 0\<rparr>
      else c\<lparr>pc_mask := v\<rparr>)"

record board =
  b_master :: pic
  b_slave :: pic
  b_pit :: pit

definition board_out :: "u16 \<Rightarrow> u8 \<Rightarrow> board \<Rightarrow> board" where
  "board_out port v b =
     (if port = 0x20 then b\<lparr>b_master := pic_cmd v (b_master b)\<rparr>
      else if port = 0x21 then b\<lparr>b_master := pic_data v (b_master b)\<rparr>
      else if port = 0xA0 then b\<lparr>b_slave := pic_cmd v (b_slave b)\<rparr>
      else if port = 0xA1 then b\<lparr>b_slave := pic_data v (b_slave b)\<rparr>
      else b\<lparr>b_pit := pit_out port v (b_pit b)\<rparr>)"

definition board_conforming :: "'d hw \<Rightarrow> ('d \<Rightarrow> board) \<Rightarrow> bool" where
  "board_conforming hw view \<longleftrightarrow>
     (\<forall>m v port. port = 0x20 \<or> port = 0x21 \<or> port = 0xA0 \<or> port = 0xA1 \<or> port = 0x40 \<or> port = 0x43 \<longrightarrow>
        view (dev (outb hw port v m)) = board_out port v (view (dev m)))"

text \<open>The vector an interrupt line is delivered at, if it is not masked.\<close>

definition vector_of :: "pic \<Rightarrow> nat \<Rightarrow> nat option" where
  "vector_of c line = (if pc_step c \<noteq> 0 \<or> bit (pc_mask c) line then None else Some (unat (pc_vector c) + line))"

lemma controllers_programmed:
  assumes "board_conforming hw view"
  shows "view (dev (timer_init hw (pic_init hw m))) =
    \<lparr>b_master = \<lparr>pc_step = 0, pc_vector = 0x20, pc_cascade = 4, pc_mode = 1, pc_mask = 0xFE\<rparr>,
     b_slave = \<lparr>pc_step = 0, pc_vector = 0x28, pc_cascade = 2, pc_mode = 1, pc_mask = 0xFF\<rparr>,
     b_pit = \<lparr>p_mode = 0x36, p_low = None, p_divisor = 1193\<rparr>\<rparr>"
proof -
  note out = assms [unfolded board_conforming_def, rule_format]
  show ?thesis
    by (simp add: timer_init_def pit_set_1000hz_def pic_init_def Let_def out)
       (simp add: board_out_def pic_cmd_def pic_data_def pit_out_def)
qed

definition model_board_hw :: "board hw" where
  "model_board_hw =
     \<lparr>port_in = (\<lambda>w port m. (0, m)), port_out = (\<lambda>w port v m. m\<lparr>dev := board_out port (ucast v) (dev m)\<rparr>),
      mmio_in = (\<lambda>w a m. (0, m)), mmio_out = (\<lambda>w a v m. m), sync = (\<lambda>m. m)\<rparr>"

lemma model_board_conforming: "board_conforming model_board_hw id"
  by (simp add: board_conforming_def model_board_hw_def outb_def)

definition sample_handlers :: handlers where
  "sample_handlers = \<lparr>irq_exception = 0x100100, irq_exception_err = 0x100110, irq_pic_master = 0x100120,
     irq_pic_slave = 0x100130\<rparr>"

definition power_on :: "board machine" where
  "power_on = \<lparr>ram = \<lambda>_. 0, dev = (let c = \<lparr>pc_step = 0, pc_vector = 8, pc_cascade = 0, pc_mode = 0, pc_mask = 0\<rparr> in
     \<lparr>b_master = c, b_slave = c, b_pit = \<lparr>p_mode = 0, p_low = None, p_divisor = 0\<rparr>\<rparr>)\<rparr>"

lemma IDT_length: "length IDT = 256"
  by (simp add: IDT_def)

section \<open>Properties\<close>

text \<open>
  C38. Every vector has a gate: after \<open>init\<close> the processor reads for each of the 256 vectors a present
  interrupt gate of the kernel's code segment, privilege 0, that leads to the handler of its kind, and
  the loaded limit covers exactly the table.
\<close>

theorem vectors_are_gates:
  assumes "length t = 256" and "idt_init hw h idt_at (t, m) = (t', ptr, m')" and "i < 256"
  shows "read_gate (entry_bytes (t' ! i)) =
      \<lparr>g_target = (if i \<in> set ERR_VECS then irq_exception_err h
          else if 0x20 \<le> i \<and> i < 0x28 then irq_pic_master h
          else if 0x28 \<le> i \<and> i < 0x30 then irq_pic_slave h else irq_exception h),
       g_segment = 8, g_present = True, g_type = 0x0E, g_privilege = 0, g_stack = 0\<rparr>
    \<and> length (concat (map entry_bytes t')) = unat (limit ptr) + 1 \<and> base ptr = idt_at"
proof -
  have "length (concat (map entry_bytes t')) = 16 * length t'"
    by (induction t') (simp_all add: entry_length ENTRY_BYTES_def)
  then show ?thesis
    using idt_table [OF assms(1,2)] assms(3) by (auto simp: entry_for_def gate_of_new)
qed

theorem vectors_are_gates_witness:
  "\<exists>t ptr m. idt_init model_board_hw sample_handlers 0x200000 (IDT, power_on) = (t, ptr, m)
     \<and> g_target (read_gate (entry_bytes (t ! 14))) = 0x100110"
proof -
  obtain t ptr m where r: "idt_init model_board_hw sample_handlers 0x200000 (IDT, power_on) = (t, ptr, m)"
    by (metis prod_cases3)
  from vectors_are_gates [OF IDT_length this, of 14] show ?thesis
    unfolding r by (simp add: ERR_VECS_def sample_handlers_def)
qed

text \<open>
  C28. The timer interrupt reaches its handler, and nothing else is let through: \<open>init\<close> programs both
  controllers, from any state, so that line 0 of the master is delivered at vector 0x20, whose gate
  leads to the master handler, every other line of both is masked, the slave's vectors would start at
  0x28 and it is cascaded on line 2 of the master, and the timer divides its clock by 1193 in mode 3.
\<close>

theorem timer_interrupt_routed:
  assumes "board_conforming hw view" and "length t = 256" and "idt_init hw h idt_at (t, m) = (t', ptr, m')"
  shows "vector_of (b_master (view (dev m'))) 0 = Some 0x20
    \<and> g_target (read_gate (entry_bytes (t' ! 0x20))) = irq_pic_master h
    \<and> (\<forall>n. 0 < n \<and> n < 8 \<longrightarrow> vector_of (b_master (view (dev m'))) n = None)
    \<and> (\<forall>n. n < 8 \<longrightarrow> vector_of (b_slave (view (dev m'))) n = None)
    \<and> pc_vector (b_slave (view (dev m'))) = 0x28
    \<and> pc_cascade (b_master (view (dev m'))) = 2 ^ 2 \<and> pc_cascade (b_slave (view (dev m'))) = 2
    \<and> pc_mode (b_master (view (dev m'))) = 1 \<and> pc_mode (b_slave (view (dev m'))) = 1
    \<and> p_mode (b_pit (view (dev m'))) = 0x36 \<and> p_divisor (b_pit (view (dev m'))) = 1193"
proof -
  have m: "view (dev m') =
    \<lparr>b_master = \<lparr>pc_step = 0, pc_vector = 0x20, pc_cascade = 4, pc_mode = 1, pc_mask = 0xFE\<rparr>,
     b_slave = \<lparr>pc_step = 0, pc_vector = 0x28, pc_cascade = 2, pc_mode = 1, pc_mask = 0xFF\<rparr>,
     b_pit = \<lparr>p_mode = 0x36, p_low = None, p_divisor = 1193\<rparr>\<rparr>"
    using controllers_programmed [OF assms(1), of m] idt_table(4) [OF assms(2,3)] by simp
  have eight: "n < 8 \<longleftrightarrow> n \<in> {0, 1, 2, 3, 4, 5, 6, 7 :: nat}" for n by auto
  have bits: "\<forall>n. n < 8 \<longrightarrow> bit (0xFF :: u8) n" "\<forall>n. 0 < n \<and> n < 8 \<longrightarrow> bit (0xFE :: u8) n" "\<not> bit (0xFE :: u8) 0"
    by (auto simp: eight)
  have "t' ! 0x20 = entry_for h 0x20" using idt_table(2) [OF assms(2,3)] by simp
  then show ?thesis
    using bits by (simp add: m vector_of_def entry_for_def ERR_VECS_def gate_of_new)
qed

theorem timer_interrupt_routed_witness:
  "\<exists>t ptr m. idt_init model_board_hw sample_handlers 0x200000 (IDT, power_on) = (t, ptr, m)
     \<and> vector_of (b_master (dev m)) 0 = Some 0x20 \<and> g_target (read_gate (entry_bytes (t ! 0x20))) = 0x100120"
proof -
  obtain t ptr m where r: "idt_init model_board_hw sample_handlers 0x200000 (IDT, power_on) = (t, ptr, m)"
    by (metis prod_cases3)
  from timer_interrupt_routed [OF model_board_conforming IDT_length this] show ?thesis
    unfolding r by (auto simp: sample_handlers_def)
qed

end
