(* ===== verification/FwCfg.thy ===== *)
theory FwCfg
  imports Machine
begin

text \<open>
  QEMU's configuration files (\<^verbatim>\<open>fw_cfg.rs\<close>): a selector port and a data port that reads one byte after
  the other. The directory is a count and fixed-size entries, big endian.
\<close>

definition FW_CFG_PORT_SEL :: u16 where "FW_CFG_PORT_SEL = 0x510"
definition FW_CFG_PORT_DATA :: u16 where "FW_CFG_PORT_DATA = 0x511"
definition FW_CFG_SIGNATURE :: u16 where "FW_CFG_SIGNATURE = 0x0000"
definition FW_CFG_FILE_DIR :: u16 where "FW_CFG_FILE_DIR = 0x0019"

text \<open>A number of reads of the data port, in order.\<close>

fun inb_data :: "'d hw \<Rightarrow> nat \<Rightarrow> 'd machine \<Rightarrow> bytes \<times> 'd machine" where
  "inb_data hw 0 m = ([], m)"
| "inb_data hw (Suc n) m =
     (let (b, m) = inb hw FW_CFG_PORT_DATA m; (bs, m) = inb_data hw n m in (b # bs, m))"

definition is_present :: "'d hw \<Rightarrow> 'd machine \<Rightarrow> bool \<times> 'd machine" where
  "is_present hw m =
     (let m = outw hw FW_CFG_PORT_SEL FW_CFG_SIGNATURE m;
          (b0, m) = inb hw FW_CFG_PORT_DATA m;
          (b1, m) = inb hw FW_CFG_PORT_DATA m;
          (b2, m) = inb hw FW_CFG_PORT_DATA m;
          (b3, m) = inb hw FW_CFG_PORT_DATA m
      in (b0 = 0x51 \<and> b1 = 0x45 \<and> b2 = 0x4D \<and> b3 = 0x55, m))"

text \<open>\<open>from_utf8(..).unwrap_or("").trim_end_matches('\0')\<close>\<close>

definition trim_nul :: "bytes \<Rightarrow> bytes" where
  "trim_nul b = rev (dropWhile (\<lambda>c. c = 0) (rev b))"

definition entry_str :: "bytes \<Rightarrow> bytes" where
  "entry_str b = (if utf8_valid b then trim_nul b else [])"

fun find_loop :: "'d hw \<Rightarrow> bytes \<Rightarrow> nat \<Rightarrow> 'd machine \<Rightarrow> (u16 \<times> u32) option \<times> 'd machine" where
  "find_loop hw name 0 m = (None, m)"
| "find_loop hw name (Suc n) m =
     (let (size, m) = inb_data hw 4 m;
          (selector, m) = inb_data hw 2 m;
          (_, m) = inb_data hw 2 m;
          (entry_name, m) = inb_data hw 56 m
      in if entry_str entry_name = name then (Some (from_be16 selector, from_be32 size), m)
         else find_loop hw name n m)"

definition find_file :: "'d hw \<Rightarrow> bytes \<Rightarrow> 'd machine \<Rightarrow> (u16 \<times> u32) option \<times> 'd machine" where
  "find_file hw name m =
     (let m = outw hw FW_CFG_PORT_SEL FW_CFG_FILE_DIR m;
          (count, m) = inb_data hw 4 m
      in find_loop hw name (unat (from_be32 count)) m)"

text \<open>\<open>read\<close> fills the buffer it is given; the result is its new contents.\<close>

definition fw_read :: "'d hw \<Rightarrow> u16 \<Rightarrow> nat \<Rightarrow> 'd machine \<Rightarrow> bytes \<times> 'd machine" where
  "fw_read hw selector len m = inb_data hw len (outw hw FW_CFG_PORT_SEL selector m)"

section \<open>The device\<close>

text \<open>An item is a string of bytes; a read behind its end is 0.\<close>

definition byte_at :: "bytes \<Rightarrow> nat \<Rightarrow> u8" where
  "byte_at b i = (if i < length b then b ! i else 0)"

definition fw_cfg_conforming :: "'d hw \<Rightarrow> ('d \<Rightarrow> u16 \<times> nat) \<Rightarrow> (u16 \<Rightarrow> bytes) \<Rightarrow> bool" where
  "fw_cfg_conforming hw view items \<longleftrightarrow>
     (\<forall>m v. view (dev (outw hw 0x510 v m)) = (v, 0))
     \<and> (\<forall>m. case view (dev m) of (sel, off) \<Rightarrow>
          fst (inb hw 0x511 m) = byte_at (items sel) off \<and> view (dev (snd (inb hw 0x511 m))) = (sel, Suc off))"

record fw_entry =
  fe_size :: "32 word"
  fe_sel :: "16 word"
  fe_name :: "8 word list"

definition entry_ok :: "fw_entry \<Rightarrow> bool" where
  "entry_ok e \<longleftrightarrow> length (fe_name e) \<le> 56 \<and> utf8_valid (fe_name e) \<and> (fe_name e = [] \<or> last (fe_name e) \<noteq> 0)"

definition entry_image :: "fw_entry \<Rightarrow> bytes" where
  "entry_image e = to_be32 (fe_size e) @ to_be16 (fe_sel e) @ [0, 0] @ fe_name e @ replicate (56 - length (fe_name e)) 0"

definition dir_image :: "fw_entry list \<Rightarrow> bytes" where
  "dir_image es = to_be32 (of_nat (length es)) @ concat (map entry_image es)"

lemma entry_image_length: "entry_ok e \<Longrightarrow> length (entry_image e) = 64"
  by (simp add: entry_image_def entry_ok_def)

lemma padded_name:
  assumes "entry_ok e"
  shows "entry_str (fe_name e @ replicate n 0) = fe_name e"
proof -
  have "utf8_valid (replicate n 0)" by (rule utf8_valid_ascii) simp
  then have "utf8_valid (fe_name e @ replicate n 0)" using assms by (simp add: entry_ok_def utf8_valid_append)
  moreover have "trim_nul (fe_name e @ replicate n 0) = fe_name e"
    using assms by (cases "fe_name e" rule: rev_cases) (simp_all add: trim_nul_def entry_ok_def dropWhile_append)
  ultimately show ?thesis by (simp add: entry_str_def)
qed

lemma reads:
  assumes "fw_cfg_conforming hw view items" and "view (dev m) = (sel, off)"
  shows "\<exists>m'. inb_data hw n m = (map (byte_at (items sel)) [off..<off + n], m') \<and> view (dev m') = (sel, off + n)"
  using assms(2)
proof (induction n arbitrary: m off)
  case (Suc n)
  have "fst (inb hw 0x511 m) = byte_at (items sel) off" "view (dev (snd (inb hw 0x511 m))) = (sel, Suc off)"
    using assms(1) Suc.prems unfolding fw_cfg_conforming_def by (metis (mono_tags, lifting) case_prod_conv)+
  with Suc.IH [of "snd (inb hw 0x511 m)" "Suc off"] show ?case
    by (auto simp: FW_CFG_PORT_DATA_def case_prod_beta upt_conv_Cons simp del: upt_Suc)
qed simp

lemma byte_slice: "off + n \<le> length b \<Longrightarrow> map (byte_at b) [off..<off + n] = bslice off n b"
  by (intro nth_equalityI) (simp_all add: byte_at_def nth_slice)

lemma image_parts:
  assumes "entry_ok e"
  shows "bslice 0 4 (entry_image e) = to_be32 (fe_size e)" "bslice 4 2 (entry_image e) = to_be16 (fe_sel e)"
    "bslice 8 56 (entry_image e) = fe_name e @ replicate (56 - length (fe_name e)) 0"
  using assms by (simp_all add: entry_image_def slice_simps entry_ok_def)

text \<open>One entry of the directory is read in four pieces.\<close>

lemma read_entry:
  assumes "fw_cfg_conforming hw view items" and "view (dev m) = (sel, length pre)"
    and "items sel = pre @ entry_image e @ rest" and "entry_ok e"
  shows "\<exists>m'. find_loop hw name (Suc n) m =
      (if fe_name e = name then (Some (fe_sel e, fe_size e), m') else find_loop hw name n m')
    \<and> view (dev m') = (sel, length (pre @ entry_image e))"
proof -
  let ?o = "length pre"
  have len: "length (entry_image e) = 64" by (rule entry_image_length [OF assms(4)])
  have piece: "map (byte_at (items sel)) [?o + k..<?o + k + n] = bslice k n (entry_image e)" if "k + n \<le> 64" for k n
    using that len by (simp add: byte_slice assms(3) slice_simps)
  obtain m1 where 1: "inb_data hw 4 m = (to_be32 (fe_size e), m1)" "view (dev m1) = (sel, ?o + 4)"
    using reads [OF assms(1,2), of 4] piece [of 0 4] image_parts(1) [OF assms(4)] by auto
  obtain m2 where 2: "inb_data hw 2 m1 = (to_be16 (fe_sel e), m2)" "view (dev m2) = (sel, ?o + 4 + 2)"
    using reads [OF assms(1) 1(2), of 2] piece [of 4 2] image_parts(2) [OF assms(4)] by auto
  obtain x m3 where 3: "inb_data hw 2 m2 = (x, m3)" "view (dev m3) = (sel, ?o + 8)"
    using reads [OF assms(1) 2(2), of 2] by auto
  obtain m4 where 4: "inb_data hw 56 m3 = (fe_name e @ replicate (56 - length (fe_name e)) 0, m4)"
    "view (dev m4) = (sel, ?o + 8 + 56)"
    using reads [OF assms(1) 3(2), of 56] piece [of 8 56] image_parts(3) [OF assms(4)] by auto
  show ?thesis
    using 1(1) 2(1) 3(1) 4 len padded_name [OF assms(4)]
    by (intro exI [of _ m4]) (simp add: Let_def add.commute)
qed

lemma find_loop_first:
  assumes "fw_cfg_conforming hw view items" and "view (dev m) = (sel, length pre)"
    and "items sel = pre @ concat (map entry_image es) @ rest" and "list_all entry_ok es"
  shows "\<exists>m'. find_loop hw name (length es) m =
    (map_option (\<lambda>e. (fe_sel e, fe_size e)) (find (\<lambda>e. fe_name e = name) es), m')"
  using assms(2-4)
proof (induction es arbitrary: m pre)
  case (Cons e es)
  have items: "items sel = pre @ entry_image e @ (concat (map entry_image es) @ rest)" using Cons.prems(2) by simp
  obtain m' where r: "find_loop hw name (Suc (length es)) m =
      (if fe_name e = name then (Some (fe_sel e, fe_size e), m') else find_loop hw name (length es) m')"
    "view (dev m') = (sel, length (pre @ entry_image e))"
    using read_entry [OF assms(1) Cons.prems(1) items, of name "length es"] Cons.prems(3) by auto
  show ?case
  proof (cases "fe_name e = name")
    case True
    then show ?thesis using r(1) by simp
  next
    case False
    have "\<exists>m''. find_loop hw name (length es) m' =
      (map_option (\<lambda>e. (fe_sel e, fe_size e)) (find (\<lambda>e. fe_name e = name) es), m'')"
      by (rule Cons.IH [OF r(2)]) (use Cons.prems(2,3) in simp_all)
    then show ?thesis using r(1) False by simp
  qed
qed simp

section \<open>Properties\<close>

text \<open>
  C29. A configuration file is found by its name and read as it is: \<open>find_file\<close> returns selector and size
  of the first directory entry of that name, and nothing exactly when there is none; a read of the
  selector returns the file's bytes from the start, followed by zeros.
\<close>

theorem fw_cfg_file:
  assumes "fw_cfg_conforming hw view items" and "items FW_CFG_FILE_DIR = dir_image es @ rest"
    and "list_all entry_ok es" and "length es < 2 ^ 32"
  shows "\<exists>m'. find_file hw name m =
      (map_option (\<lambda>e. (fe_sel e, fe_size e)) (find (\<lambda>e. fe_name e = name) es), m')
    \<and> (\<forall>sel n. \<exists>m''. fw_read hw sel n m' = (take n (items sel @ replicate n 0), m''))"
proof -
  let ?m = "outw hw FW_CFG_PORT_SEL FW_CFG_FILE_DIR m"
  have start: "view (dev (outw hw FW_CFG_PORT_SEL sel m)) = (sel, 0)" for sel m
    using assms(1) by (simp add: fw_cfg_conforming_def FW_CFG_PORT_SEL_def)
  let ?c = "to_be32 (of_nat (length es))"
  have items: "items FW_CFG_FILE_DIR = ?c @ concat (map entry_image es) @ rest"
    using assms(2) by (simp add: dir_image_def)
  then have "map (byte_at (items FW_CFG_FILE_DIR)) [0..<0 + 4] = ?c"
    using byte_slice [of 0 4 "items FW_CFG_FILE_DIR"] by (simp add: slice_simps)
  with reads [OF assms(1) start [of FW_CFG_FILE_DIR m], of 4] obtain m1 where
    1: "inb_data hw 4 ?m = (?c, m1)" "view (dev m1) = (FW_CFG_FILE_DIR, length ?c)" by auto
  have count: "unat (of_nat (length es) :: u32) = length es" using assms(4) by (simp add: unat_of_nat)
  obtain m' where "find_loop hw name (length es) m1 =
      (map_option (\<lambda>e. (fe_sel e, fe_size e)) (find (\<lambda>e. fe_name e = name) es), m')"
    using find_loop_first [OF assms(1) 1(2) items assms(3)] by blast
  then have "find_file hw name m =
      (map_option (\<lambda>e. (fe_sel e, fe_size e)) (find (\<lambda>e. fe_name e = name) es), m')"
    using 1(1) count by (simp add: find_file_def)
  moreover have "\<exists>m''. fw_read hw sel n m' = (take n (items sel @ replicate n 0), m'')" for sel n
  proof -
    have "map (byte_at (items sel)) [0..<0 + n] = take n (items sel @ replicate n 0)"
      by (intro nth_equalityI) (auto simp: byte_at_def nth_append)
    then show ?thesis using reads [OF assms(1) start [of sel m'], of n] by (auto simp: fw_read_def)
  qed
  ultimately show ?thesis by blast
qed

definition model_fw_items :: "u16 \<Rightarrow> bytes" where
  "model_fw_items sel =
     (if sel = 0x19 then dir_image [\<lparr>fe_size = 3, fe_sel = 0x20, fe_name = str ''opt/secret''\<rparr>]
      else if sel = 0x20 then [1, 2, 3] else [])"

definition model_fw_hw :: "(u16 \<times> nat) hw" where
  "model_fw_hw =
     \<lparr>port_in = (\<lambda>w port m. (ucast (byte_at (model_fw_items (fst (dev m))) (snd (dev m))),
        m\<lparr>dev := (fst (dev m), Suc (snd (dev m)))\<rparr>)),
      port_out = (\<lambda>w port v m. m\<lparr>dev := (ucast v, 0)\<rparr>),
      mmio_in = (\<lambda>w a m. (0, m)), mmio_out = (\<lambda>w a v m. m), sync = (\<lambda>m. m)\<rparr>"

lemma model_fw_conforming: "fw_cfg_conforming model_fw_hw id model_fw_items"
  by (simp add: fw_cfg_conforming_def model_fw_hw_def outw_def inb_def split: prod.split)

theorem fw_cfg_file_witness:
  "\<exists>m m'. find_file model_fw_hw (str ''opt/secret'') \<lparr>ram = \<lambda>_. 0, dev = (0, 0)\<rparr> = (Some (0x20, 3), m)
     \<and> fw_read model_fw_hw 0x20 3 m = ([1, 2, 3], m')"
proof -
  let ?e = "\<lparr>fe_size = 3, fe_sel = 0x20, fe_name = str ''opt/secret''\<rparr>"
  have "list_all entry_ok [?e]"
    by (simp add: entry_ok_def str_Cons utf8_valid_ascii)
  moreover have "model_fw_items FW_CFG_FILE_DIR = dir_image [?e] @ []"
    by (simp add: model_fw_items_def FW_CFG_FILE_DIR_def)
  ultimately obtain m where "find_file model_fw_hw (str ''opt/secret'') \<lparr>ram = \<lambda>_. 0, dev = (0, 0)\<rparr> = (Some (0x20, 3), m)"
    "\<exists>m'. fw_read model_fw_hw 0x20 3 m = (take 3 (model_fw_items 0x20 @ replicate 3 0), m')"
    using fw_cfg_file [OF model_fw_conforming, of "[?e]" "[]" "str ''opt/secret''" "\<lparr>ram = \<lambda>_. 0, dev = (0, 0)\<rparr>"]
    by auto
  then show ?thesis by (simp add: model_fw_items_def)
qed

end
