(* ===== verification/Boot.thy ===== *)
theory Boot
  imports Registry ServerLaws WasmApp NetInit Idt FwCfg
begin

text \<open>
  The boot sequence (\<^verbatim>\<open>main.rs\<close>): the order in which the parts are brought up, the secret from the
  socket or else from the configuration device, the applications and pages from the registry, and the
  start of the server. The machine (its devices, the allocator's addresses, the addresses of the
  interrupt stubs) and the TCP stack are parameters, collected in one record. \<open>kernel_main\<close> never
  returns in the source; here its result is what it ends in: the halt without a network, or the state
  in which the main loop starts.
\<close>

definition HEAP_SIZE :: nat where "HEAP_SIZE = 16 * 1024 * 1024"

record ('n, 'm, 'g, 'd) boot =
  bt_platform :: "'d platform"
  bt_handlers :: handlers
  bt_idt_at :: "64 word"
  bt_net_alloc :: net_alloc
  bt_blk_at :: nat
  bt_frame :: frame
  bt_wasmi :: "('m, 'g) wasmi"
  bt_tcp :: "('n, 'd) reg_tcp"
  bt_now :: "nat \<Rightarrow> 64 word"
  bt_stack :: "vnet \<Rightarrow> 'n"
  bt_device :: "'n \<Rightarrow> vnet"
  bt_server_stack :: "vnet \<Rightarrow> 'n"

abbreviation bt_hw :: "('n, 'm, 'g, 'd) boot \<Rightarrow> 'd hw" where "bt_hw b \<equiv> pf_hw (bt_platform b)"
abbreviation bt_profile :: "('n, 'm, 'g, 'd) boot \<Rightarrow> profile" where "bt_profile b \<equiv> pf_profile (bt_platform b)"

section \<open>Printing\<close>

definition HEX :: bytes where "HEX = str ''0123456789abcdef''"

definition print_hex :: "'d hw \<Rightarrow> u8 \<Rightarrow> 'd machine \<Rightarrow> 'd machine option" where
  "print_hex hw b m =
     (let hi = HEX ! unat (drop_bit 4 b); lo = HEX ! unat (b AND 0xF); s = [hi, lo]
      in serial_print hw (if utf8_valid s then s else str ''??'') m)"

text \<open>\<open>for (i, b) in dev.mac.iter().enumerate()\<close>\<close>

fun print_mac :: "'d hw \<Rightarrow> nat \<Rightarrow> bytes \<Rightarrow> 'd machine \<Rightarrow> 'd machine option" where
  "print_mac hw i [] m = Some m"
| "print_mac hw i (b # bs) m = do {
     m \<leftarrow> print_hex hw b m;
     m \<leftarrow> (if i < 5 then serial_print hw (str '':'') m else Some m);
     print_mac hw (i + 1) bs m
   }"

text \<open>A line of the boot log.\<close>

definition say :: "'d hw \<Rightarrow> string \<Rightarrow> 'd machine \<Rightarrow> 'd machine option" where
  "say hw s m = serial_print hw (str s @ [10]) m"

section \<open>The secret\<close>

text \<open>\<open>from_utf8(..).unwrap_or("(invalid utf8)").trim_end_matches(newline, return or NUL)\<close>\<close>

definition secret_text :: "bytes \<Rightarrow> bytes" where
  "secret_text bs = rev (dropWhile (\<lambda>c. c = 10 \<or> c = 13 \<or> c = 0) (rev (if utf8_valid bs then bs else str ''(invalid utf8)'')))"

definition print_secret :: "'d hw \<Rightarrow> string \<Rightarrow> bytes \<Rightarrow> 'd machine \<Rightarrow> 'd machine option" where
  "print_secret hw label bs m = do {
     m \<leftarrow> serial_print hw (str label) m;
     m \<leftarrow> serial_print hw (secret_text bs) m;
     serial_print hw [10] m
   }"

definition fw_cfg_secret :: "'d hw \<Rightarrow> 'd machine \<Rightarrow> (bool \<times> 'd machine) option" where
  "fw_cfg_secret hw m =
     (case is_present hw m of
        (False, m) \<Rightarrow> do { m \<leftarrow> say hw ''[FW_CFG] not present'' m; Some (False, m) }
      | (True, m) \<Rightarrow> do {
          m \<leftarrow> say hw ''[FW_CFG] found'' m;
          (case find_file hw (str ''opt/secret'') m of
             (None, m) \<Rightarrow> do { m \<leftarrow> say hw ''[FW_CFG] opt/secret not found'' m; Some (False, m) }
           | (Some (sel, len), m) \<Rightarrow>
               (case fw_read hw sel (min (unat len) 256) m of (buf, m) \<Rightarrow> do {
                  m \<leftarrow> print_secret hw ''[SECRET] '' buf m;
                  m \<leftarrow> say hw ''[SECRET OK]'' m;
                  Some (True, m)
                }))
        })"

definition get_secret :: "'d platform \<Rightarrow> vsock option \<times> 'd machine \<Rightarrow> (bool \<times> vsock option \<times> 'd machine) option" where
  "get_secret pf = (\<lambda>(fd, m). do {
     m \<leftarrow> say (pf_hw pf) ''[SECRET] trying vsock...'' m;
     m \<leftarrow> say (pf_hw pf) ''[VSOCK] init...'' m;
     (r, fd, m) \<leftarrow> fetch_secret (pf_profile pf) (pf_hw pf) (pf_alloc pf) (str ''api_key'') (fd, m);
     (case r of
        Some bs \<Rightarrow> do {
          m \<leftarrow> print_secret (pf_hw pf) ''[VSOCK] secret: '' bs m;
          m \<leftarrow> say (pf_hw pf) ''[VSOCK OK]'' m;
          Some (True, fd, m)
        }
      | None \<Rightarrow> do {
          m \<leftarrow> say (pf_hw pf) ''[VSOCK] not available, falling back to fw_cfg'' m;
          (got, m) \<leftarrow> fw_cfg_secret (pf_hw pf) m;
          Some (got, fd, m)
        })
   })"

section \<open>Storage, applications, server\<close>

definition mount_store :: "('n, 'm, 'g, 'd) boot \<Rightarrow> 'd machine \<Rightarrow> (blk option \<times> 'd machine) option" where
  "mount_store b m = do {
     (d, m) \<leftarrow> blk_init (bt_profile b) (bt_hw b) (bt_blk_at b) m;
     (case d of
        None \<Rightarrow> do { m \<leftarrow> say (bt_hw b) ''[BLK] not present'' m; Some (None, m) }
      | Some d \<Rightarrow> do {
          m \<leftarrow> say (bt_hw b) ''[BLK OK]'' m;
          (d, m) \<leftarrow> kv_open (rds (bt_profile b) (bt_hw b) (bt_frame b)) (wrs (bt_profile b) (bt_hw b) (bt_frame b)) (d, m);
          Some (Some d, m)
        })
   }"

text \<open>\<open>for (route, bytes) in fetched_list\<close>\<close>

fun load_apps :: "'d platform \<Rightarrow> ('m, 'g) wasmi \<Rightarrow> (bytes \<times> bytes) list \<Rightarrow> vsock option \<times> 'd machine \<Rightarrow>
    ((bytes \<times> 'g wasm_app) list \<times> vsock option \<times> 'd machine) option" where
  "load_apps pf wi [] fs = Some ([], fs)"
| "load_apps pf wi ((route, bs) # rest) fs = do {
     (r, fd, m) \<leftarrow> from_bytes pf wi bs fs;
     (case r of
        None \<Rightarrow> load_apps pf wi rest (fd, m)
      | Some app \<Rightarrow> do {
          m \<leftarrow> serial_print (pf_hw pf) (str ''[WASM OK] route='') m;
          m \<leftarrow> serial_print (pf_hw pf) (if utf8_valid route then route else str ''?'') m;
          m \<leftarrow> serial_print (pf_hw pf) [10] m;
          (apps, fs) \<leftarrow> load_apps pf wi rest (fd, m);
          Some ((route, app) # apps, fs)
        })
   }"

datatype ('s, 'f) boot_end = Halted 'f | Serving 's

text \<open>
  \<open>run_http_server\<close> up to its loop: the sockets are created, the ports announced. The static file device
  stays beside the stack, where the applications' file functions find it.
\<close>

definition start_server :: "('n, 'm, 'g, 'd) boot \<Rightarrow> vnet \<Rightarrow> (bytes \<times> 'g wasm_app) list \<Rightarrow> (bytes \<times> bytes \<times> bytes) list \<Rightarrow>
    blk option \<Rightarrow> vsock option \<times> 'd machine \<Rightarrow>
    ('g wasm_app server \<times> ('n \<times> vsock option, 'd) world) option" where
  "start_server b d wasm_routes files store = (\<lambda>(fd, m). do {
     m \<leftarrow> say (bt_hw b) ''[HTTP] listening on 10.0.2.15:80'' m;
     m \<leftarrow> say (bt_hw b) ''[ADMIN] listening on 10.0.2.15:8081'' m;
     m \<leftarrow> say (bt_hw b) ''[HTTP READY]'' m;
     Some (initial_server wasm_routes files, \<lparr>socks = (bt_server_stack b d, fd), mach = m, blkdev = store\<rparr>)
   })"

section \<open>The sequence\<close>

text \<open>The three pushes and the assertion on them.\<close>

definition heap_check :: "'d machine \<Rightarrow> 'd machine option" where
  "heap_check m =
     (let v = [] @ [10 :: u32] @ [20] @ [30]
      in if length v = 3 \<and> v ! 0 = 10 \<and> v ! 1 = 20 \<and> v ! 2 = 30 then Some m else None)"

text \<open>Phases 1 and 2.\<close>

definition boot_early :: "('n, 'm, 'g, 'd) boot \<Rightarrow> 'd machine \<Rightarrow>
    (bool \<times> idt_entry list \<times> idt_ptr \<times> vsock option \<times> 'd machine) option" where
  "boot_early b m = do {
     let hw = bt_hw b;
     let m = serial_init hw m;
     m \<leftarrow> say hw ''[BOOT OK]'' m;
     m \<leftarrow> say hw ''[HEAP INIT]'' m;
     m \<leftarrow> heap_check m;
     m \<leftarrow> say hw ''[ALLOC OK]'' m;
     m \<leftarrow> say hw ''[unikernel] Phase 1 complete'' m;
     let (table, ptr, m) = idt_init hw (bt_handlers b) (bt_idt_at b) (IDT, m);
     m \<leftarrow> say hw ''[IDT] interrupts enabled'' m;
     (got_secret, fd, m) \<leftarrow> get_secret (bt_platform b) (None, m);
     m \<leftarrow> say hw ''[unikernel] Phase 2 complete'' m;
     Some (got_secret, table, ptr, fd, m)
   }"

text \<open>Phases 3 and 4, with a network device.\<close>

definition boot_network :: "('n, 'm, 'g, 'd) boot \<Rightarrow> vnet \<Rightarrow> vsock option \<times> 'd machine \<Rightarrow>
    ('g wasm_app server \<times> ('n \<times> vsock option, 'd) world) option" where
  "boot_network b d = (\<lambda>(fd, m). do {
     let hw = bt_hw b;
     m \<leftarrow> serial_print hw (str ''[NET] MAC: '') m;
     m \<leftarrow> print_mac hw 0 (n_mac d) m;
     m \<leftarrow> serial_print hw [10] m;
     m \<leftarrow> say hw ''[NET OK]'' m;
     m \<leftarrow> say hw ''[unikernel] Phase 3 complete'' m;
     (store, m) \<leftarrow> mount_store b m;
     (fetched, files, s) \<leftarrow> fetch_all (bt_profile b) (bt_now b) (bt_tcp b)
       \<lparr>rg_net = bt_stack b d, rg_mach = m, rg_polls = 0, rg_port = NEXT_LOCAL_PORT\<rparr>;
     let d = bt_device b (rg_net s);
     (wasm_routes, fd, m) \<leftarrow> load_apps (bt_platform b) (bt_wasmi b) fetched (fd, rg_mach s);
     m \<leftarrow> (if wasm_routes = [] then say hw ''[WASM] no WASM loaded, using static response'' m else Some m);
     start_server b d wasm_routes files store (fd, m)
   })"

definition kernel_main :: "('n, 'm, 'g, 'd) boot \<Rightarrow> 'd machine \<Rightarrow>
    ('g wasm_app server \<times> ('n \<times> vsock option, 'd) world, vsock option \<times> 'd machine) boot_end option" where
  "kernel_main b m = do {
     (got_secret, table, ptr, fd, m) \<leftarrow> boot_early b m;
     (r, m) \<leftarrow> net_init (bt_profile b) (bt_hw b) (bt_net_alloc b) m;
     (case r of
        Inr d \<Rightarrow> do { sw \<leftarrow> boot_network b d (fd, m); Some (Serving sw) }
      | Inl e \<Rightarrow> do {
          m \<leftarrow> serial_print (bt_hw b) (str ''[NET ERR] '') m;
          m \<leftarrow> serial_print (bt_hw b) (str e) m;
          m \<leftarrow> serial_print (bt_hw b) [10] m;
          Some (Halted (fd, m))
        })
   }"

text \<open>The panic handler: a line on the console, then the halt.\<close>

definition panic :: "'d hw \<Rightarrow> 'd machine \<Rightarrow> 'd machine option" where
  "panic hw m = say hw ''[PANIC]'' m"

section \<open>A release build\<close>

text \<open>
  In a release build the sums and products of the drivers wrap around, so what is left of the reasons not
  to come back are failed allocations and waits. Nothing is asked of the devices here: their registers and
  rings may hold anything.
\<close>

definition comes_back :: "'a option \<Rightarrow> bool" where
  "comes_back r \<longleftrightarrow> r \<noteq> None"

named_theorems returning

lemma back_some [simp]: "comes_back (Some a)"
  by (simp add: comes_back_def)

lemma back_bind [intro]: "comes_back r \<Longrightarrow> (\<And>a. r = Some a \<Longrightarrow> comes_back (f a)) \<Longrightarrow> comes_back (Option.bind r f)"
  by (cases r) (simp_all add: comes_back_def)

lemma foldM_back [returning]: "(\<And>x a. comes_back (f x a)) \<Longrightarrow> comes_back (foldM f xs a)"
  by (induction xs arbitrary: a) auto

lemmas reg_defs = reg8w_def reg16w_def reg32w_def reg64w_def reg8r_def reg16r_def

lemma find_cap_back [returning]: "comes_back (find_cap Release hw pd t m)"
proof -
  have "comes_back (find_cap_loop Release hw pd t n ptr m)" for n ptr m
    by (induction n arbitrary: ptr m) (simp_all add: Let_def case_prod_beta)
  then show ?thesis by (simp add: find_cap_def Let_def case_prod_beta)
qed

lemma bar_addr_back [returning]: "comes_back (bar_addr Release hw pd i m)"
  by (simp add: bar_addr_def mul_ovf_def Let_def case_prod_beta)

definition socket_memory :: "vs_alloc \<Rightarrow> bool" where
  "socket_memory al \<longleftrightarrow> 0 \<notin> {a_rx_mem al, a_rx_bufs al, a_tx_mem al, a_tx_bufs al, a_ev_mem al}"

lemma bring_up_back [returning]:
  assumes "socket_memory al"
  shows "comes_back (bring_up Release hw al cb nb mult m)"
  using assms by (simp add: socket_memory_def bring_up_def negotiate_def select_queue_def enable_queue_def notify_addr_def
      reg_defs Let_def case_prod_beta)

lemma vs_init_back [returning]:
  assumes "socket_memory al"
  shows "comes_back (vs_init Release hw al m)"
  unfolding vs_init_def Let_def case_prod_beta
  by (auto intro!: back_bind returning assms split: option.split prod.split)

lemma send_raw_back [returning]: "HDR_SIZE + length data \<le> VS_BUF_SIZE \<Longrightarrow> comes_back (send_raw Release hw hdr data s)"
  by (simp add: send_raw_def notify_addr_def Let_def case_prod_beta)

lemma try_recv_back [returning]: "comes_back (try_recv Release hw s)"
  by (simp add: try_recv_def notify_addr_def Let_def case_prod_beta)

lemma send_hdr_back [returning]: "comes_back (send_hdr Release hw op s)"
  unfolding send_hdr_def by (rule returning) (simp add: HDR_SIZE_def VS_BUF_SIZE_def)

lemma recv_op_back [returning]: "comes_back (recv_op Release hw want s)"
proof -
  have "comes_back (recv_op_loop Release hw want n s)" for n
    by (induction n arbitrary: s) (auto intro!: back_bind returning split: option.split)
  then show ?thesis by (simp add: recv_op_def)
qed

lemma fetch_secret_back [returning]:
  assumes "socket_memory al" and "length name \<le> 1000"
  shows "comes_back (fetch_secret Release hw al name s)"
proof -
  have "HDR_SIZE + length (name @ [10]) \<le> VS_BUF_SIZE" using assms(2) by (simp add: HDR_SIZE_def VS_BUF_SIZE_def)
  then show ?thesis
    unfolding fetch_secret_def vs_connect_def send_data_def recv_data_def vs_close_def case_prod_beta
    by (auto intro!: back_bind returning assms(1) split: option.split)
qed

definition net_memory :: "net_alloc \<Rightarrow> bool" where
  "net_memory al \<longleftrightarrow> 0 \<notin> {na_rx_mem al, na_rx_bufs al, na_tx_mem al, na_tx_bufs al}"

lemma net_init_back [returning]:
  assumes "net_memory al"
  shows "comes_back (net_init Release hw al m)"
proof -
  have "comes_back (read_mac Release hw io is m)" for io "is" m
    by (induction "is" arbitrary: m) (auto intro!: back_bind simp: Let_def case_prod_beta)
  then show ?thesis using assms
    unfolding net_init_def net_memory_def outb_at_def outl_at_def outw_at_def inw_at_def Let_def case_prod_beta
    by (auto intro!: back_bind split: option.split prod.split)
qed

lemma do_io_back: "(ucast (queue_size b) :: u16) \<noteq> 0 \<Longrightarrow> comes_back (do_io Release hw f ty lba dp dl (b, m))"
  by (simp add: do_io_def Let_def case_prod_beta)

lemma do_io_queue: "do_io p hw f ty lba dp dl (b, m) = Some (ok, b', m') \<Longrightarrow> queue_size b' = queue_size b"
  by (auto simp: do_io_def Let_def split: Option.bind_splits if_splits prod.splits)

text \<open>The disk's driver divides by its queue size.\<close>

definition drives :: "blk \<times> 'd machine \<Rightarrow> bool" where
  "drives s \<longleftrightarrow> (ucast (queue_size (fst s)) :: u16) \<noteq> 0"

lemma wrs_drives:
  assumes "drives s"
  shows "\<exists>ok s'. wrs Release hw f s lba data = Some (ok, s') \<and> drives s'"
proof -
  obtain b m where s: "s = (b, m)" by (cases s)
  obtain ok b' m' where "do_io Release hw f VIRTIO_BLK_T_OUT lba (buf_at f) (length data) (b, wr_bytes (buf_at f) data m) = Some (ok, b', m')"
    using do_io_back [of b] assms by (fastforce simp: s drives_def comes_back_def)
  with do_io_queue [OF this] show ?thesis using assms by (simp add: s write_sectors_def drives_def)
qed

lemma rds_drives:
  assumes "drives s"
  shows "\<exists>ok bs s'. rds Release hw f s lba data = Some (ok, bs, s') \<and> drives s'"
proof -
  obtain b m where s: "s = (b, m)" by (cases s)
  obtain ok b' m' where "do_io Release hw f VIRTIO_BLK_T_IN lba (buf_at f) (length data) (b, wr_bytes (buf_at f) data m) = Some (ok, b', m')"
    using do_io_back [of b] assms by (fastforce simp: s drives_def comes_back_def)
  with do_io_queue [OF this] show ?thesis using assms by (simp add: s read_sectors_def drives_def)
qed

lemma kv_open_back [returning]:
  assumes "drives s"
  shows "comes_back (kv_open (rds Release hw f) (wrs Release hw f) s)"
proof -
  have dir: "comes_back (foldM (\<lambda>i s. do { (ok, s) \<leftarrow> wrs Release hw f s (1 + of_nat i) (replicate SECTOR_SIZE 0); Some s }) is s)"
    if "drives s" for "is" s
    using that
  proof (induction "is" arbitrary: s)
    case (Cons i "is")
    obtain ok s' where "wrs Release hw f s (1 + of_nat i) (replicate SECTOR_SIZE 0) = Some (ok, s')" "drives s'"
      using wrs_drives [OF Cons.prems] by blast
    then show ?case using Cons.IH by simp
  qed simp
  obtain ok sb s1 where 1: "rds Release hw f s 0 (replicate SECTOR_SIZE 0) = Some (ok, sb, s1)" "drives s1"
    using rds_drives [OF assms] by blast
  let ?sb = "splice_at 8 (to_le32 0) (splice_at 4 (to_le32 VERSION) (splice_at 0 (to_le32 MAGIC) (replicate SECTOR_SIZE 0)))"
  obtain ok' s2 where 2: "wrs Release hw f s1 0 ?sb = Some (ok', s2)" "drives s2"
    using wrs_drives [OF 1(2)] by blast
  show ?thesis
    unfolding kv_open_def Let_def 1(1) bind.bind_lunit prod.case 2(1) using dir [OF 2(2)] by simp
qed

lemma blk_init_drives:
  "\<exists>d m'. blk_init Release hw q m = Some (d, m') \<and> (case d of None \<Rightarrow> True | Some b \<Rightarrow> drives (b, m'))"
  unfolding blk_init_def outb_at_def outl_at_def outw_at_def inw_at_def Let_def case_prod_beta
  by (cases "pci_find hw BLK_VENDOR VIRTIO_BLK_DEVICE m"; cases "fst (pci_find hw BLK_VENDOR VIRTIO_BLK_DEVICE m)")
    (auto simp: drives_def)

section \<open>What a started server holds\<close>

definition well_started :: "'g wasm_app server \<Rightarrow> bool" where
  "well_started s \<longleftrightarrow>
     server_inv s \<and> set (map fst (router s)) \<subseteq> {str ''/'', str ''/bbs'', str ''/editor''}
     \<and> list_all (\<lambda>(route, app). wa_feed app = [] \<and> wa_mem app \<noteq> None) (router s)
     \<and> subseq (map (\<lambda>(path, content, ctype). (path, ctype)) (static_files s)) (map snd STATIC_ENTRIES)
     \<and> list_all (\<lambda>(path, content, ctype). content \<noteq> []) (static_files s)"

lemma router_insert_all: "list_all P es \<Longrightarrow> P (pre, app) \<Longrightarrow> list_all P (router_insert pre app es)"
  by (induction es) auto

lemma initial_routes:
  "list_all P routes \<Longrightarrow> list_all P (router (initial_server routes files))"
proof -
  have "list_all P (fold (\<lambda>(route, app) r. router_insert route app r) routes es)" if "list_all P routes" "list_all P es" for es
    using that by (induction routes arbitrary: es) (auto simp: router_insert_all)
  then show "list_all P routes \<Longrightarrow> ?thesis" by (simp add: initial_server_def)
qed

lemma bind_some: "Option.bind (Some x) f = f x"
  by simp

lemma subseq_mem: "subseq xs ys \<Longrightarrow> x \<in> set xs \<Longrightarrow> x \<in> set ys"
  by (metis notin_set_nthsI subseq_conv_nths)

text \<open>An application that loads has its memory and no feed.\<close>

definition fresh_app :: "'g wasm_app \<Rightarrow> bool" where
  "fresh_app app \<longleftrightarrow> wa_feed app = [] \<and> wa_mem app \<noteq> None"

lemma loaded_app:
  assumes "from_bytes pf wi bs fs = Some (Some app, fs')"
  shows "fresh_app app"
  using assms
  by (auto simp: fresh_app_def from_bytes_def wasm_load_def wasm_start_def split: if_splits option.splits Option.bind_splits)

lemma loaded_apps:
  "load_apps pf wi es fs = Some (apps, fs') \<Longrightarrow>
     subseq (map fst apps) (map fst es) \<and> list_all (\<lambda>(route, app). fresh_app app) apps"
proof (induction es arbitrary: fs apps)
  case (Cons e es)
  obtain route bs where e: "e = (route, bs)" by (cases e)
  obtain r fd m where r: "from_bytes pf wi bs fs = Some (r, fd, m)"
    using Cons.prems by (auto simp: e split: Option.bind_splits)
  show ?case
  proof (cases r)
    case None
    then show ?thesis using Cons.IH [of "(fd, m)" apps] Cons.prems r by (auto simp: e)
  next
    case (Some app)
    then show ?thesis using Cons.IH Cons.prems r loaded_app [of pf wi bs fs app "(fd, m)"]
      by (fastforce simp: e split: Option.bind_splits)
  qed
qed simp

lemma started_server:
  assumes "start_server b d apps files store fs = Some (s, w)" and "subseq (map fst apps) (map snd WASM_ENTRIES)"
    and "list_all (\<lambda>(route, app). fresh_app app) apps"
    and "subseq (map (\<lambda>(path, content, ctype). (path, ctype)) files) (map snd STATIC_ENTRIES)"
    and "list_all (\<lambda>(path, content, ctype). content \<noteq> []) files"
  shows "well_started s"
proof -
  have s: "s = initial_server apps files" using assms(1) by (auto simp: start_server_def split: Option.bind_splits prod.splits)
  have "set (map fst apps) \<subseteq> {str ''/'', str ''/bbs'', str ''/editor''}"
    using subseq_mem [OF assms(2)] by (fastforce simp: WASM_ENTRIES_def)
  then have "list_all (\<lambda>(route, app). route \<in> {str ''/'', str ''/bbs'', str ''/editor''}) apps"
    by (auto simp: list_all_iff)
  then have "list_all (\<lambda>(route, app). route \<in> {str ''/'', str ''/bbs'', str ''/editor''}) (router (initial_server apps files))"
    by (rule initial_routes)
  then have "set (map fst (router (initial_server apps files))) \<subseteq> {str ''/'', str ''/bbs'', str ''/editor''}"
    by (auto simp: list_all_iff)
  moreover have "static_files (initial_server apps files) = files" by (simp add: initial_server_def)
  ultimately show ?thesis
    using initial_server_inv initial_routes [OF assms(3)] assms(4,5) by (simp add: s well_started_def fresh_app_def)
qed

lemma started_network:
  assumes "alive (bt_tcp b) (\<lambda>m. True)" and "boot_network b d fs = Some (s, w)"
  shows "well_started s"
proof -
  have p: "port_ok NEXT_LOCAL_PORT" by (simp add: port_ok_def NEXT_LOCAL_PORT_def)
  have f: "subseq (map fst wasm) (map snd WASM_ENTRIES)
      \<and> subseq (map (\<lambda>(path, content, ctype). (path, ctype)) files) (map snd STATIC_ENTRIES)
      \<and> list_all (\<lambda>(path, content, ctype). content \<noteq> []) files"
    if "fetch_all (bt_profile b) (bt_now b) (bt_tcp b)
       \<lparr>rg_net = bt_stack b d, rg_mach = m, rg_polls = 0, rg_port = NEXT_LOCAL_PORT\<rparr> = Some (wasm, files, s')" for m wasm files s'
    using fetch_all_within [OF assms(1), of "\<lparr>rg_net = bt_stack b d, rg_mach = m, rg_polls = 0, rg_port = NEXT_LOCAL_PORT\<rparr>"
        "bt_profile b" "bt_now b"] p that by simp
  obtain m wasm files s' fs1 apps fs2 d' store fs3 where 1:
    "fetch_all (bt_profile b) (bt_now b) (bt_tcp b)
       \<lparr>rg_net = bt_stack b d, rg_mach = m, rg_polls = 0, rg_port = NEXT_LOCAL_PORT\<rparr> = Some (wasm, files, s')"
    "load_apps (bt_platform b) (bt_wasmi b) wasm fs1 = Some (apps, fs2)"
    "start_server b d' apps files store fs3 = Some (s, w)"
    using assms(2) unfolding boot_network_def Let_def
    by (simp split: Option.bind_splits prod.splits)
  show ?thesis
    using started_server [OF 1(3)] f [OF 1(1)] loaded_apps [OF 1(2)] subseq_order.trans by blast
qed

section \<open>The boot returns\<close>

text \<open>
  The machine that the kernel boots on: a release build, a UART whose waits end, an allocator that has
  memory for the sockets and the network, a TCP stack that comes back from its polls and a metered
  interpreter.
\<close>

locale booting =
  fixes b :: "('n, 'm, 'g, 'd) boot"
  assumes release: "bt_profile b = Release"
    and uart: "wait_transmit (bt_hw b) m \<noteq> None"
    and memory: "socket_memory (pf_alloc (bt_platform b))" "net_memory (bt_net_alloc b)"
    and stack: "alive (bt_tcp b) (\<lambda>m. True)"
    and meter: "metered (bt_wasmi b)"
begin

lemma sends_byte: "comes_back (write_byte (bt_hw b) x m)"
  using uart [of m] by (auto simp: write_byte_def comes_back_def)

lemma prints: "comes_back (serial_print (bt_hw b) bs m)"
  by (induction bs arbitrary: m) (auto intro!: back_bind sends_byte)

lemma line: "comes_back (say (bt_hw b) t m)"
  using prints by (simp add: say_def)

lemma secret_line: "comes_back (print_secret (bt_hw b) l bs m)"
  unfolding print_secret_def by (intro back_bind prints)

lemma fw_secret: "comes_back (fw_cfg_secret (bt_hw b) m)"
  unfolding fw_cfg_secret_def case_prod_beta
  by (auto intro!: back_bind line secret_line split: option.split bool.split)

lemma secret: "comes_back (get_secret (bt_platform b) s)"
proof -
  have "comes_back (fetch_secret (bt_profile b) (bt_hw b) (pf_alloc (bt_platform b)) (str ''api_key'') s)" for s
    unfolding release by (rule returning) (simp_all add: memory str_def)
  then show ?thesis
    unfolding get_secret_def case_prod_beta
    by (auto intro!: back_bind line secret_line fw_secret split: option.split)
qed

lemma early: "comes_back (boot_early b m)"
  unfolding boot_early_def heap_check_def Let_def case_prod_beta
  by (auto intro!: back_bind line secret)

lemma mac_line: "comes_back (print_mac (bt_hw b) i bs m)"
  by (induction bs arbitrary: i m) (auto intro!: back_bind prints sends_byte simp: print_hex_def Let_def)

lemma store: "comes_back (mount_store b m)"
proof -
  obtain d m' where "blk_init Release (bt_hw b) (bt_blk_at b) m = Some (d, m')"
    "case d of None \<Rightarrow> True | Some x \<Rightarrow> drives (x, m')"
    using blk_init_drives by blast
  then show ?thesis
    unfolding mount_store_def release
    by (auto intro!: back_bind line returning simp: drives_def split: option.splits)
qed

lemma app_loads: "comes_back (from_bytes (bt_platform b) (bt_wasmi b) bs fs)"
proof -
  have say: "comes_back (wasm_say (bt_platform b) t s)" for t s
    using prints by (auto simp: wasm_say_def case_prod_beta)
  have "comes_back (guest_run (bt_platform b) (bt_wasmi b) [] 0 (Enter StartFunction) gm s)" for gm s
  proof -
    obtain ev f g mem where e: "wi_run (bt_wasmi b) 0 (Enter StartFunction) gm = (ev, f, g, mem)" by (metis prod_cases4)
    have "case wi_run (bt_wasmi b) 0 (Enter StartFunction) gm of (ev, fuel', gm') \<Rightarrow>
        (case ev of HostCall c \<Rightarrow> fuel' < 0 | _ \<Rightarrow> True)"
      by (rule meter [unfolded metered_def, THEN spec, THEN spec, THEN spec])
    then show ?thesis using e by (subst guest_run.simps) (cases ev; simp)
  qed
  then show ?thesis
    unfolding from_bytes_def wasm_load_def wasm_start_def case_prod_beta
    by (auto intro!: back_bind say split: option.split)
qed

lemma apps_load: "comes_back (load_apps (bt_platform b) (bt_wasmi b) es fs)"
  by (induction es arbitrary: fs) (auto intro!: back_bind app_loads prints sends_byte split: option.split)

lemma network: "comes_back (boot_network b d fs)"
proof -
  have p: "port_ok NEXT_LOCAL_PORT" by (simp add: port_ok_def NEXT_LOCAL_PORT_def)
  have "comes_back (fetch_all (bt_profile b) (bt_now b) (bt_tcp b)
      \<lparr>rg_net = bt_stack b d, rg_mach = m, rg_polls = 0, rg_port = NEXT_LOCAL_PORT\<rparr>)" for m
    using fetch_all_within [OF stack, of "\<lparr>rg_net = bt_stack b d, rg_mach = m, rg_polls = 0, rg_port = NEXT_LOCAL_PORT\<rparr>"
        "bt_profile b" "bt_now b"] p by (auto simp: comes_back_def)
  then show ?thesis
    unfolding boot_network_def start_server_def Let_def case_prod_beta
    by (auto intro!: back_bind prints sends_byte mac_line line store apps_load)
qed

lemma kernel_returns:
  "\<exists>got table ptr fd m1. boot_early b m = Some (got, table, ptr, fd, m1)
    \<and> ((\<exists>e m2 m3. net_init Release (bt_hw b) (bt_net_alloc b) m1 = Some (Inl e, m2)
          \<and> kernel_main b m = Some (Halted (fd, m3)))
      \<or> (\<exists>d m2 s w. net_init Release (bt_hw b) (bt_net_alloc b) m1 = Some (Inr d, m2)
          \<and> kernel_main b m = Some (Serving (s, w)) \<and> well_started s))"
proof -
  obtain got table ptr fd m1 where 1: "boot_early b m = Some (got, table, ptr, fd, m1)"
    using early [of m] by (auto simp: comes_back_def)
  obtain r m2 where 2: "net_init Release (bt_hw b) (bt_net_alloc b) m1 = Some (r, m2)"
    using net_init_back [OF memory(2), of "bt_hw b" m1] by (auto simp: comes_back_def)
  show ?thesis
  proof (cases r)
    case (Inl e)
    obtain m3 where 3: "serial_print (bt_hw b) (str ''[NET ERR] '') m2 = Some m3" using prints unfolding comes_back_def by blast
    obtain m4 where 4: "serial_print (bt_hw b) (str e) m3 = Some m4" using prints unfolding comes_back_def by blast
    obtain m5 where 5: "serial_print (bt_hw b) [10] m4 = Some m5" using prints unfolding comes_back_def by blast
    have "kernel_main b m = Some (Halted (fd, m5))"
      by (simp only: kernel_main_def release 1 2 3 4 5 Inl bind_some prod.case sum.case)
    then show ?thesis using 1 2 Inl by blast
  next
    case (Inr d)
    obtain s w where 3: "boot_network b d (fd, m2) = Some (s, w)" using network unfolding comes_back_def by fastforce
    have "kernel_main b m = Some (Serving (s, w))"
      by (simp only: kernel_main_def release 1 2 3 Inr bind_some prod.case sum.case)
    then show ?thesis using 1 2 Inr started_network [OF stack 3] by blast
  qed
qed

end

end
