(* ===== verification/Booted.thy ===== *)
theory Booted
  imports Boot
begin

text \<open>
  The boot on a concrete machine, and the property of the whole sequence.
\<close>

section \<open>A machine that boots\<close>

text \<open>
  A network card alone on the bus and a UART whose transmitter is always free; no socket device, no disk,
  no configuration device. The registry serves a module of two pages.
\<close>

definition desk_card_hw :: "card hw" where
  "desk_card_hw = net_card_hw
     \<lparr>port_in := (\<lambda>w port m. (if port = 0x3FD then 0x20 else if port = 0x71 then 1
        else if port = CONFIG_DATA then net_table (c_addr (dev m)) else if port = 0xC00C then 128 else 0, m))\<rparr>"

lemma desk_card_conforming: "legacy_conforming desk_card_hw (\<lambda>m. True) c_regs 0xC000 (\<lambda>_. 128) (\<lambda>_. 0)"
proof -
  have six: "i < 6 \<longleftrightarrow> i \<in> {0, 1, 2, 3, 4, 5 :: nat}" for i by auto
  show ?thesis
    by (simp add: legacy_conforming_def desk_card_hw_def net_card_hw_def card_hw_def card_out_def outb_def outl_def outw_def inw_def
        inb_def CONFIG_ADDRESS_def CONFIG_DATA_def ucast_byte six)
qed

lemma desk_card_bus: "cfg_reads desk_card_hw (\<lambda>m. True) net_table"
  by (simp add: cfg_reads_def desk_card_hw_def net_card_hw_def card_hw_def card_out_def inl_def outl_def CONFIG_ADDRESS_def
      CONFIG_DATA_def)

interpretation desk_card: legacy_device desk_card_hw "\<lambda>m. True" c_regs "0xC000" "\<lambda>_. 128" "\<lambda>_. 0" net_table
    NET_VENDOR VIRTIO_NET_DEVICE
  using desk_card_conforming desk_card_bus net_table_found
  by unfold_locales (simp_all add: net_table_bar)

definition boot_platform :: "card platform" where
  "boot_platform = \<lparr>pf_profile = Release, pf_hw = desk_card_hw, pf_alloc = sample_alloc, pf_rdrand = (\<lambda>m. Some (4, m))\<rparr>"

definition sample_boot :: "(bytes list, bytes, nat, card) boot" where
  "sample_boot =
     \<lparr>bt_platform = boot_platform, bt_handlers = sample_handlers, bt_idt_at = 0x300000, bt_net_alloc = sample_net_alloc,
      bt_blk_at = 0x140000, bt_frame = \<lparr>hdr_at = 0x1000, sts_at = 0x1100, buf_at = 0x2000\<rparr>, bt_wasmi = sample_wasmi,
      bt_tcp = sample_registry, bt_now = of_nat, bt_stack = (\<lambda>d. []),
      bt_device = (\<lambda>n. sample_net), bt_server_stack = (\<lambda>d. [])\<rparr>"

lemma desk_card_ready: "wait_transmit desk_card_hw m \<noteq> None"
  by (subst wait_transmit.simps) (simp add: inb_def desk_card_hw_def COM1_def)

lemma sample_net_up: "\<exists>d m'. net_init Release desk_card_hw sample_net_alloc m = Some (Inr d, m')"
proof -
  have "ram (outw desk_card_hw (0xC000 + 0x10) v m) = ram m
      \<and> c_regs (dev (outw desk_card_hw (0xC000 + 0x10) v m)) = c_regs (dev m)" for v and m :: "card machine"
    by (simp add: desk_card_hw_def net_card_hw_def card_hw_def outw_def card_out_def CONFIG_ADDRESS_def)
  from desk_card.net_up [OF TrueI refl refl this refl, of sample_net_alloc Release m]
  show ?thesis using size_128(1) sample_net_alloc_ok by fastforce
qed

lemma sample_boot_parts:
  "bt_profile sample_boot = Release" "wait_transmit (bt_hw sample_boot) m \<noteq> None"
  "socket_memory (pf_alloc (bt_platform sample_boot))" "net_memory (bt_net_alloc sample_boot)"
  "alive (bt_tcp sample_boot) (\<lambda>m. True)" "metered (bt_wasmi sample_boot)"
  using desk_card_ready sample_metered
  by (simp_all add: sample_boot_def boot_platform_def socket_memory_def sample_alloc_def net_memory_def sample_net_alloc_def
      alive_def sample_registry_def)

interpretation sample_booting: booting sample_boot
  by unfold_locales (rule sample_boot_parts)+

section \<open>Properties\<close>

text \<open>
  C25. The boot comes to its end. In a release build, whatever the devices' registers and rings hold and
  whatever they do, \<open>kernel_main\<close> passes its phases without a panic and without an endless wait: the early
  phases return, and then it halts when the network driver reports an error, and else reaches the main
  loop with the invariant of the loop established, routes only for the applications of the registry, each
  loaded and without a feed, and only pages of the registry, none empty, under their types. What is asked
  of the machine is that the UART's waits end, that the allocations of the socket and network drivers
  succeed, that the TCP stack comes back from a poll and that the interpreter meters its fuel.
\<close>

theorem boot_ends:
  assumes "bt_profile b = Release" and "\<forall>m. wait_transmit (bt_hw b) m \<noteq> None"
    and "socket_memory (pf_alloc (bt_platform b))" and "net_memory (bt_net_alloc b)"
    and "alive (bt_tcp b) (\<lambda>m. True)" and "metered (bt_wasmi b)"
  shows "\<exists>got table ptr fd m1. boot_early b m = Some (got, table, ptr, fd, m1)
    \<and> ((\<exists>e m2 m3. net_init Release (bt_hw b) (bt_net_alloc b) m1 = Some (Inl e, m2)
          \<and> kernel_main b m = Some (Halted (fd, m3)))
      \<or> (\<exists>d m2 s w. net_init Release (bt_hw b) (bt_net_alloc b) m1 = Some (Inr d, m2)
          \<and> kernel_main b m = Some (Serving (s, w)) \<and> well_started s))"
proof -
  have "booting b" using assms by unfold_locales simp_all
  from booting.kernel_returns [OF this] show ?thesis .
qed

theorem boot_ends_witness:
  "\<exists>s w. kernel_main sample_boot card_machine = Some (Serving (s, w)) \<and> well_started s"
proof -
  obtain m1 where "(\<exists>e m2 m3. net_init Release (bt_hw sample_boot) (bt_net_alloc sample_boot) m1 = Some (Inl e, m2))
      \<or> (\<exists>s w. kernel_main sample_boot card_machine = Some (Serving (s, w)) \<and> well_started s)"
    using boot_ends [OF sample_boot_parts(1) _ sample_boot_parts(3-6), of card_machine] sample_boot_parts(2) by blast
  moreover have "net_init Release (bt_hw sample_boot) (bt_net_alloc sample_boot) m1 \<noteq> Some (Inl e, m2)" for e m2
    using sample_net_up [of m1] by (auto simp: sample_boot_def boot_platform_def)
  ultimately show ?thesis by blast
qed

end
