(* ===== verification/Spec2Isabelle.thy ===== *)
theory Spec2Isabelle
  imports Serving Adapter Booted
begin

text \<open>
  A verification development for the conulayer unikernel (\<^verbatim>\<open>src/unikernel/src/*.rs\<close>): a kernel without a
  process or a file system of its own that boots on a virtual machine, fetches WebAssembly applications
  over HTTP, and serves them on port 80, with an administration port for uploads, a key-value store on
  a virtual disk and a file client to the host over a virtual socket.

  \<^bold>\<open>How the program is modelled.\<close> The kernel has one thread and talks to devices through ports,
  registers and shared memory. Every function is a function on an explicit state: the driver's record,
  then the machine (\<open>'d machine\<close>: physical memory and an opaque device state). What the sources do not
  contain is a parameter: the devices (a record \<open>hw\<close> of what port and register accesses and the passing
  of time, \<open>sync\<close>, do), the allocator's addresses, the TCP stack (smoltcp), the WebAssembly interpreter
  (wasmi). Their documented behaviour enters as named predicates (\<open>blk_conforming\<close>, \<open>vs_conforming\<close>,
  \<open>uart_conforming\<close>, \<open>legacy_conforming\<close>, \<open>services_ok\<close>, \<open>metered\<close>, ...), each shown to be satisfiable by a
  concrete device in a witness. An outer \<open>None\<close> is a kernel that does not come back: a panic (index,
  slice, overflow in a development build, assertion) or a wait without end. The build is a parameter
  \<open>profile\<close>: \<open>run_test.sh\<close> builds with overflow checks (\<open>Dev\<close>), \<open>deploy.sh\<close> without (\<open>Release\<close>).
  Integers are words of their width; memory is little endian.

  \<^bold>\<open>Parts and theories.\<close>

  \<^item> Foundations. Prelude: word types, overflow by profile, slices, searches. Bytes: byte coding, memory as
    a function, UTF-8. Machine: ports, registers, memory accesses, \<open>alloc_zeroed\<close>. Virtq: what the three
    drivers' virtqueues have in common (the locale \<open>virtq_layout\<close>), 16, 32 and 64 bit cells.
  \<^item> \<^verbatim>\<open>rtc.rs\<close>: Rtc (registers, BCD, calendar). \<^verbatim>\<open>timer.rs\<close>: Timer. \<^verbatim>\<open>idt.rs\<close>: Idt (table, interrupt
    controllers). \<^verbatim>\<open>serial.rs\<close>: Serial. \<^verbatim>\<open>fw_cfg.rs\<close>: FwCfg. \<^verbatim>\<open>pci.rs\<close>: Pci.
  \<^item> \<^verbatim>\<open>blk.rs\<close>: Blk (request path), BlkDevice (the device's side of the specification and the proof that a
    request is served), Legacy (the legacy transport, \<open>blk_init\<close>).
  \<^item> \<^verbatim>\<open>store.rs\<close>: Store (the operations over any sector device), StoreDir and StoreLaws (directory edits,
    extents), StoreMap (the disk image as a finite map), NameStore (the contract as a locale), Disk and
    Storage (the store on the mounted block driver).
  \<^item> \<^verbatim>\<open>net.rs\<close>: Http (parsers), Router, Server (one pass of \<open>run_http_server\<close>), ServerLaws (its invariant),
    Upload (uploads, hot swap, requests), Adapter (the tokens between smoltcp and the network driver).
  \<^item> \<^verbatim>\<open>virtio_net.rs\<close>: VirtioNet (all operations), NetRings (transmission), NetReceive (reception as a
    queue), NetInit.
  \<^item> \<^verbatim>\<open>vsock.rs\<close>: Vsock (all operations), VsockWire (headers, requests and responses as byte strings),
    VsockLink (the file client over an abstract packet link), VsockRing (the rings are such a link),
    VsockInit, VsockFile.
  \<^item> \<^verbatim>\<open>registry.rs\<close>: Registry. \<^verbatim>\<open>wasm_rt.rs\<close>: WasmRt (loading, host functions, requests), WasmApp (its
    properties). Serving: the server loop's port 80 with this runtime behind it. \<^verbatim>\<open>main.rs\<close>: Boot, Booted.

  \<^bold>\<open>How the parts interact.\<close> The store calls the block driver through the two functions that \<open>KvStore\<close> uses:
  its operations take them as arguments, its laws are proved over the locale of a sector device, and the
  driver on a conforming device is an interpretation of it. The server's uploads call \<open>kv_write\<close>. The file
  client is proved over a packet link and the rings of the driver are an interpretation of the link.
  The host functions of an application call the console, the clock and the file client; the locale
  \<open>host_services\<close> states what they need and is interpreted on the model of the socket device and its file
  server. \<open>wasm_ops\<close> is the runtime behind the main loop's interface \<open>app_ops\<close>. \<open>kernel_main\<close> composes the
  initialisations, the registry client, the runtime and the start of the loop.

  \<^bold>\<open>What the lemmas show.\<close>

  \<^item> Storage: a sector request reaches a conforming device through the ring and changes exactly its sector;
    on top of it any sequence of store operations answers as a finite map.
  \<^item> File client: over the rings, whatever the device's delays and however the server cuts its responses,
    a sequence of operations answers as the server's own; initialisation establishes that link.
  \<^item> Network driver: initialisation lays out both rings; frames are published as they are while sixteen
    are in flight, and the receive ring refines a queue.
  \<^item> Server: an invariant of every reachable state; uploads are stored and installed whatever chunks
    they arrive in; a request is answered once; routing picks the longest prefix; parsers read back
    what was printed.
  \<^item> Serving: from the bytes on port 80 to the page an application computes, and that no request takes the
    kernel down while the applications behave.
  \<^item> Runtime: the placement of a request, confinement of the host functions, the exact pointers that panic,
    termination of a request. Registry and boot: they end, with what they promise.
  \<^item> Platform: the clock, the sleep, the console, the interrupt table, the configuration files, the bus.

  \<^bold>\<open>Bounds and fuel.\<close> Loops with a bound in the source recurse on that bound: the polls of the block driver
  (\<open>POLL_LIMIT\<close>, 10000000), of the socket driver (\<open>POLLS\<close>), of a fetch (100000, 2000000 and 50000). The
  decimal printer has fuel 22, two more than the digits of a 64-bit number; that it is enough is part of
  \<open>usize_prints_decimal\<close>. Loops without a bound are partial functions, and that they end is proved:
  the update flag of the clock, the transmitter of the UART, the sleep, \<open>drain_rx\<close>, and the run of an
  application, which its fuel (\<open>FUEL_PER_REQUEST\<close>) bounds.

  \<^bold>\<open>Not modelled.\<close> \<^verbatim>\<open>boot.s\<close> (assembly: long mode, page tables, interrupt stubs); lines 190 to
  219 of \<^verbatim>\<open>net.rs\<close> and 45 to 56 of \<^verbatim>\<open>registry.rs\<close>, which only create smoltcp's interface and sockets;
  the heap allocator (a library); the diagnostic lines that drivers, store, registry client and main loop
  print (the lines of \<^verbatim>\<open>main.rs\<close> and \<^verbatim>\<open>wasm_rt.rs\<close> and the announcement of the server are modelled);
  interrupts other than as a schedule of the timer; the applications themselves and the scripts around
  the kernel.
\<close>

end
